(* ===== verification/Go_Prelude.thy ===== *)
theory Go_Prelude
  imports Main
    "HOL-Library.AList"
    "HOL-Library.Word"
    "HOL-Library.Char_ord"
    "HOL-Library.List_Lexorder"
    "HOL-Library.Multiset"
begin

text \<open>
  The Go runtime and standard library as far as the cluster code uses them, and the lemmas
  every component shares.
  \<^item> A Go \<open>map[K]V\<close> is an association list with distinct keys (\<open>gomap\<close>): lookup is
    \<open>map_of\<close>, assignment \<open>AList.update\<close>, \<open>delete\<close> is \<open>AList.delete\<close>, \<open>len\<close> is
    \<open>length\<close>. The iteration order of \<open>range\<close> is unspecified in Go. Where a result
    depends on it, the operation takes an argument \<open>ord\<close>, which permutes the entries
    (\<open>range_order\<close>), and the theorems hold for every such \<open>ord\<close>.
  \<^item> \<open>time.Now()\<close> is an argument: every reading of the clock is a parameter of the operation.
  \<^item> A \<open>uint64\<close> counter is a \<open>nat\<close> with the wrap-around of its arithmetic written out
    (\<open>u64_inc\<close>, \<open>u64_sub\<close>); bytes on the wire are \<open>8 word\<close>.
\<close>

named_theorems go_map \<open>lookup laws of Go maps\<close>
named_theorems go_ok \<open>distinctness of the keys of Go maps\<close>

section \<open>Errors and control\<close>

text \<open>The result of running a Go function body: it returns, it panics, or it waits for ever on a
  mutex the same goroutine already holds (\<open>sync.RWMutex\<close> is not reentrant).\<close>

datatype 'a go = Ret 'a | Panic | Deadlock

fun go_bind :: "'a go \<Rightarrow> ('a \<Rightarrow> 'b go) \<Rightarrow> 'b go" where
  "go_bind (Ret x) f = f x"
| "go_bind Panic f = Panic"
| "go_bind Deadlock f = Deadlock"

lemma go_bind_Ret_iff [simp]: "go_bind m f = Ret y \<longleftrightarrow> (\<exists>x. m = Ret x \<and> f x = Ret y)"
  by (cases m) auto

section \<open>Maps\<close>

type_synonym ('k, 'v) gomap = "('k \<times> 'v) list"

abbreviation gm_ok :: "('k, 'v) gomap \<Rightarrow> bool" where
  "gm_ok m \<equiv> distinct (map fst m)"

abbreviation put :: "'k \<Rightarrow> 'v \<Rightarrow> ('k, 'v) gomap \<Rightarrow> ('k, 'v) gomap" where
  "put \<equiv> AList.update"

abbreviation del :: "'k \<Rightarrow> ('k, 'v) gomap \<Rightarrow> ('k, 'v) gomap" where
  "del \<equiv> AList.delete"

abbreviation has :: "('k, 'v) gomap \<Rightarrow> 'k \<Rightarrow> bool" where
  "has m k \<equiv> map_of m k \<noteq> None"

lemma map_of_put [go_map, simp]: "map_of (put k v m) = (map_of m)(k \<mapsto> v)"
  by (rule update_conv')

lemma map_of_del [go_map, simp]: "map_of (del k m) = (map_of m)(k := None)"
  by (rule delete_conv')

lemma gm_ok_put [go_ok, simp]: "gm_ok m \<Longrightarrow> gm_ok (put k v m)"
  by (rule distinct_update)

lemma gm_ok_del [go_ok, simp]: "gm_ok m \<Longrightarrow> gm_ok (del k m)"
  by (rule distinct_delete)

lemma keys_del: "fst ` set (del k m) = fst ` set m - {k}"
  by (induction m) (auto simp: delete_simps)

lemma set_delete_subset: "x \<in> set (del k m) \<Longrightarrow> x \<in> set m"
  by (induction m) (auto simp: delete_simps split: if_splits)

lemma set_put_subset: "x \<in> set (put k v m) \<Longrightarrow> x = (k, v) \<or> x \<in> set m"
  by (induction m) (auto split: if_splits)

lemma map_of_filter_distinct:
  "gm_ok m \<Longrightarrow> map_of (filter P m) k = Some v \<Longrightarrow> map_of m k = Some v"
  by (auto dest!: map_of_SomeD)

lemma length_put_new: "map_of m k = None \<Longrightarrow> length (put k v m) = Suc (length m)"
  by (induction m) (auto split: if_splits)

lemma length_put_old: "map_of m k \<noteq> None \<Longrightarrow> length (put k v m) = length m"
  by (induction m) (auto split: if_splits)

lemma length_put_le: "length (put k v m) \<le> Suc (length m)"
  by (induction m) auto

lemma length_put_ge: "length m \<le> length (put k v m)"
  by (induction m) auto

lemma length_del_le: "length (del k m) \<le> length m"
  by (rule length_delete_le)

lemma length_del_present:
  assumes "gm_ok m" and "map_of m k \<noteq> None"
  shows "Suc (length (del k m)) = length m"
  using assms
proof (induction m)
  case Nil
  then show ?case by simp
next
  case (Cons a m)
  show ?case
  proof (cases "fst a = k")
    case True
    with Cons.prems have "k \<notin> fst ` set m" by auto
    then have "del k m = m" by (simp add: delete_id)
    with True show ?thesis by (cases a) (simp add: delete_simps)
  next
    case False
    with Cons show ?thesis by (cases a) (auto simp: delete_simps)
  qed
qed

subsection \<open>Iteration order\<close>

text \<open>\<open>range\<close> over a map visits every entry once, in an order the runtime picks.\<close>

definition range_order :: "('a list \<Rightarrow> 'a list) \<Rightarrow> bool" where
  "range_order ord \<longleftrightarrow> (\<forall>xs. mset (ord xs) = mset xs)"

lemma range_order_set: "range_order ord \<Longrightarrow> set (ord xs) = set xs"
  unfolding range_order_def by (metis set_mset_mset)

lemma range_order_length: "range_order ord \<Longrightarrow> length (ord xs) = length xs"
  unfolding range_order_def by (metis size_mset)

lemma range_order_distinct: "range_order ord \<Longrightarrow> distinct (ord xs) = distinct xs"
  unfolding range_order_def by (metis mset_eq_imp_distinct_iff)

lemma range_order_map_fst:
  assumes "range_order ord" and "gm_ok m"
  shows "gm_ok (ord m)"
proof -
  have "mset (map fst (ord m)) = mset (map fst m)"
    using assms(1) by (simp add: range_order_def)
  then show ?thesis using assms(2) by (metis mset_eq_imp_distinct_iff)
qed

lemma range_order_map_of:
  assumes "range_order ord" and "gm_ok m"
  shows "map_of (ord m) = map_of m"
  using assms range_order_map_fst [OF assms] range_order_set [OF assms(1)]
  by (metis map_of_inject_set)

lemma range_order_id [simp]: "range_order id" "range_order (\<lambda>xs. xs)"
  by (simp_all add: range_order_def)

lemma range_order_rev [simp]: "range_order rev"
  by (simp add: range_order_def)

section \<open>Time\<close>

text \<open>\<open>time.Time\<close> in nanoseconds since Go's zero time, so \<open>IsZero\<close> is \<open>t = 0\<close>;
  \<open>time.Duration\<close> in nanoseconds.\<close>

type_synonym time = int
type_synonym duration = int

abbreviation IsZero :: "time \<Rightarrow> bool" where
  "IsZero t \<equiv> t = 0"

definition Millisecond :: duration where "Millisecond = 1000000"
definition Second :: duration where "Second = 1000 * Millisecond"
definition Minute :: duration where "Minute = 60 * Second"

text \<open>Readings of a time against the Unix epoch, 62135596800 seconds after Go's zero time; \<open>Unix\<close> and
  \<open>UnixMilli\<close> round down.\<close>

definition UnixNano :: "time \<Rightarrow> int" where "UnixNano t = t - 62135596800 * Second"
definition Unix :: "time \<Rightarrow> int" where "Unix t = UnixNano t div Second"
definition UnixMilli :: "time \<Rightarrow> int" where "UnixMilli t = UnixNano t div Millisecond"

text \<open>Go's division truncates towards zero, \<open>Duration.Milliseconds\<close> included.\<close>

definition go_div :: "int \<Rightarrow> int \<Rightarrow> int" where
  "go_div a b = sgn a * sgn b * (\<bar>a\<bar> div \<bar>b\<bar>)"

definition go_mod :: "int \<Rightarrow> int \<Rightarrow> int" where
  "go_mod a b = a - b * go_div a b"

lemma go_div_nonneg [simp]: "0 \<le> a \<Longrightarrow> 0 < b \<Longrightarrow> go_div a b = a div b"
  by (cases "a = 0") (auto simp: go_div_def sgn_if)

lemma go_mod_nonneg [simp]: "0 \<le> a \<Longrightarrow> 0 < b \<Longrightarrow> go_mod a b = a mod b"
  by (simp add: go_mod_def minus_mult_div_eq_mod)

lemma go_mod_neg: "a < 0 \<Longrightarrow> 0 < b \<Longrightarrow> go_mod a b = - ((- a) mod b)"
proof -
  assume a: "a < 0" and b: "0 < b"
  then have "go_div a b = - ((- a) div b)" by (simp add: go_div_def)
  then show ?thesis
    by (simp add: go_mod_def minus_mult_div_eq_mod [symmetric])
qed

lemma go_mod_abs_bound: "0 < b \<Longrightarrow> \<bar>go_mod a b\<bar> < b"
  by (cases "0 \<le> a") (simp_all add: go_mod_neg)

section \<open>Unsigned 64-bit counters\<close>

definition u64_max :: nat where "u64_max = 2 ^ 64 - 1"

definition u64_inc :: "nat \<Rightarrow> nat" where
  "u64_inc n = (n + 1) mod 2 ^ 64"

definition u64_sub :: "nat \<Rightarrow> nat \<Rightarrow> nat" where
  "u64_sub a b = nat ((int a - int b) mod 2 ^ 64)"

lemma u64_inc_Suc: "n < u64_max \<Longrightarrow> u64_inc n = Suc n"
  by (simp add: u64_inc_def u64_max_def)

lemma u64_sub_ge: "b \<le> a \<Longrightarrow> a < 2 ^ 64 \<Longrightarrow> u64_sub a b = a - b"
  by (simp add: u64_sub_def nat_mod_distrib of_nat_diff [symmetric] del: of_nat_diff)

lemma u64_sub_underflow:
  assumes "a < b" and "b \<le> 2 ^ 64"
  shows "u64_sub a b = 2 ^ 64 - (b - a)"
proof -
  have "(int a - int b) mod 2 ^ 64 = (int a - int b + 2 ^ 64) mod 2 ^ 64" by simp
  also have "\<dots> = int a - int b + 2 ^ 64" using assms by (intro mod_pos_pos_trivial) auto
  finally show ?thesis using assms by (simp add: u64_sub_def)
qed

section \<open>Strings and numbers\<close>

definition digit_char :: "nat \<Rightarrow> char" where
  "digit_char d = char_of (48 + d)"

definition is_digit :: "char \<Rightarrow> bool" where
  "is_digit c \<longleftrightarrow> 48 \<le> (of_char c :: nat) \<and> (of_char c :: nat) \<le> 57"

definition digit_val :: "char \<Rightarrow> nat" where
  "digit_val c = of_char c - 48"

text \<open>\<open>%d\<close> of \<open>fmt.Sprintf\<close>.\<close>

fun nat_str :: "nat \<Rightarrow> string" where
  "nat_str n = (if n < 10 then [digit_char n] else nat_str (n div 10) @ [digit_char (n mod 10)])"

declare nat_str.simps [simp del]

definition itoa :: "int \<Rightarrow> string" where
  "itoa i = (if i < 0 then CHR ''-'' # nat_str (nat (- i)) else nat_str (nat i))"

text \<open>\<open>strconv.Atoi\<close> and \<open>strconv.ParseInt(s, 10, 64)\<close>: an optional sign, at least one digit,
  and the value in the range of a 64-bit integer.\<close>

fun digits_val :: "nat \<Rightarrow> string \<Rightarrow> nat option" where
  "digits_val acc [] = Some acc"
| "digits_val acc (c # cs) = (if is_digit c then digits_val (10 * acc + digit_val c) cs else None)"

definition int64_range :: "int \<Rightarrow> bool" where
  "int64_range i \<longleftrightarrow> - (2 ^ 63) \<le> i \<and> i < 2 ^ 63"

definition signed_val :: "bool \<Rightarrow> string \<Rightarrow> int option" where
  "signed_val neg ds =
     (if ds = [] then None
      else case digits_val 0 ds of
             None \<Rightarrow> None
           | Some n \<Rightarrow> (let v = (if neg then - int n else int n)
                        in if int64_range v then Some v else None))"

definition atoi :: "string \<Rightarrow> int option" where
  "atoi s = (case s of
       [] \<Rightarrow> None
     | c # cs \<Rightarrow> if c = CHR ''-'' then signed_val True cs
                 else if c = CHR ''+'' then signed_val False cs
                 else signed_val False s)"

lemma digit_char_digit: "d < 10 \<Longrightarrow> is_digit (digit_char d) \<and> digit_val (digit_char d) = d"
  by (simp add: is_digit_def digit_char_def digit_val_def)

lemma digits_val_append:
  "digits_val acc (xs @ ys) = Option.bind (digits_val acc xs) (\<lambda>a. digits_val a ys)"
  by (induction acc xs rule: digits_val.induct) auto

lemma digits_val_nat_str: "digits_val 0 (nat_str n) = Some n"
proof (induction n rule: nat_str.induct)
  case (1 n)
  show ?case
  proof (cases "n < 10")
    case True
    then show ?thesis by (simp add: nat_str.simps [of n] digit_char_digit)
  next
    case False
    with 1 show ?thesis
      by (simp add: nat_str.simps [of n] digits_val_append digit_char_digit)
  qed
qed

lemma nat_str_digits: "c \<in> set (nat_str n) \<Longrightarrow> is_digit c"
proof (induction n rule: nat_str.induct)
  case (1 n)
  then show ?case
    by (cases "n < 10") (auto simp: nat_str.simps [of n] digit_char_digit)
qed

lemma nat_str_nonempty [simp]: "nat_str n \<noteq> []"
  by (subst nat_str.simps) simp

lemma nat_str_inj: "nat_str m = nat_str n \<longleftrightarrow> m = n"
  using digits_val_nat_str by (metis option.inject)

lemma is_digit_signs [simp]:
  "\<not> is_digit (CHR ''-'')" "\<not> is_digit (CHR ''+'')" "\<not> is_digit (CHR ''/'')" "\<not> is_digit (CHR ''.'')"
  by (simp_all add: is_digit_def)

lemma itoa_nonempty [simp]: "itoa i \<noteq> []"
  by (simp add: itoa_def)

lemma itoa_chars: "c \<in> set (itoa i) \<Longrightarrow> is_digit c \<or> c = CHR ''-''"
  by (auto simp: itoa_def dest: nat_str_digits split: if_splits)

lemma itoa_nonneg_digits: "0 \<le> i \<Longrightarrow> c \<in> set (itoa i) \<Longrightarrow> is_digit c"
  by (auto simp: itoa_def dest: nat_str_digits)

lemma nat_str_no_sign: "nat_str n \<noteq> CHR ''-'' # xs" "nat_str n \<noteq> CHR ''+'' # xs"
  using nat_str_digits [of "CHR ''-''" n] nat_str_digits [of "CHR ''+''" n] by auto

lemma itoa_inj: "itoa i = itoa j \<longleftrightarrow> i = j"
  using nat_str_no_sign by (auto simp: itoa_def nat_str_inj) metis+

lemma atoi_itoa: "int64_range i \<Longrightarrow> atoi (itoa i) = Some i"
proof -
  assume r: "int64_range i"
  have f: "nat_str n = c # cs \<Longrightarrow> c \<noteq> CHR ''-'' \<and> c \<noteq> CHR ''+''" for n c cs
    using nat_str_no_sign by blast
  show ?thesis
  proof (cases "i < 0")
    case True
    with r show ?thesis by (simp add: atoi_def itoa_def signed_val_def digits_val_nat_str)
  next
    case False
    then obtain c cs where c: "nat_str (nat i) = c # cs"
      by (cases "nat_str (nat i)") auto
    with False f [OF c] have "atoi (itoa i) = signed_val False (nat_str (nat i))"
      by (simp add: atoi_def itoa_def)
    with False r show ?thesis by (simp add: signed_val_def digits_val_nat_str)
  qed
qed

text \<open>Two keys built with a separator agree only if their parts do, when the last part of both
  does not contain the separator.\<close>

lemma separated_inj:
  assumes "xs @ c # ys = xs' @ c # ys'" and "c \<notin> set ys" and "c \<notin> set ys'"
  shows "xs = xs' \<and> ys = ys'"
proof -
  have "rev ys @ c # rev xs = rev ys' @ c # rev xs'"
    using arg_cong [OF assms(1), of rev] by simp
  moreover have "takeWhile (\<lambda>x. x \<noteq> c) (rev ys @ c # rev xs) = rev ys"
    using assms(2) by (simp add: takeWhile_append)
  moreover have "takeWhile (\<lambda>x. x \<noteq> c) (rev ys' @ c # rev xs') = rev ys'"
    using assms(3) by (simp add: takeWhile_append)
  ultimately have "rev ys = rev ys'" by simp
  with assms(1) show ?thesis by simp
qed

section \<open>Bytes\<close>

type_synonym byte = "8 word"

definition bytes_of :: "string \<Rightarrow> byte list" where
  "bytes_of s = map (\<lambda>c. of_nat (of_char c)) s"

definition string_of :: "byte list \<Rightarrow> string" where
  "string_of bs = map (\<lambda>b. char_of (unat b)) bs"

lemma string_of_bytes_of [simp]: "string_of (bytes_of s) = s"
proof -
  have "char_of (unat (of_nat (of_char c) :: byte)) = c" for c
    by (simp add: unat_of_nat)
  then show ?thesis by (simp add: string_of_def bytes_of_def map_idI)
qed

lemma length_bytes_of [simp]: "length (bytes_of s) = length s"
  by (simp add: bytes_of_def)

text \<open>\<open>binary.BigEndian.PutUint16/32/64\<close> and \<open>Uint16/32/64\<close>: \<open>n\<close> bytes, most significant
  first.\<close>

fun put_be :: "nat \<Rightarrow> nat \<Rightarrow> byte list" where
  "put_be 0 v = []"
| "put_be (Suc n) v = put_be n (v div 256) @ [of_nat v]"

definition get_be :: "byte list \<Rightarrow> nat" where
  "get_be bs = foldl (\<lambda>a b. 256 * a + unat b) 0 bs"

text \<open>The conversions \<open>uint64(x)\<close>, \<open>int64(x)\<close>, \<open>uint32(x)\<close>, \<open>int32(x)\<close> keep the bits.\<close>

definition to_u :: "nat \<Rightarrow> int \<Rightarrow> nat" where
  "to_u w i = nat (i mod 2 ^ w)"

definition to_s :: "nat \<Rightarrow> nat \<Rightarrow> int" where
  "to_s w n = (let r = int n mod 2 ^ w in if r < 2 ^ (w - 1) then r else r - 2 ^ w)"

lemma length_put_be [simp]: "length (put_be n v) = n"
  by (induction n arbitrary: v) auto

lemma get_be_snoc: "get_be (bs @ [b]) = 256 * get_be bs + unat b"
  by (simp add: get_be_def)

lemma get_put_be: "get_be (put_be n v) = v mod 256 ^ n"
proof (induction n arbitrary: v)
  case 0
  then show ?case by (simp add: get_be_def)
next
  case (Suc n)
  have "get_be (put_be (Suc n) v) = 256 * (v div 256 mod 256 ^ n) + v mod 256"
    by (simp add: get_be_snoc Suc unat_of_nat)
  then show ?case by (simp add: mod_mult2_eq)
qed

lemma to_s_to_u:
  assumes "0 < w" and "- (2 ^ (w - 1)) \<le> i" and "i < 2 ^ (w - 1)"
  shows "to_s w (to_u w i) = i"
proof -
  have p: "(2::int) ^ w = 2 * 2 ^ (w - 1)"
    using assms(1) by (cases w) auto
  show ?thesis
  proof (cases "0 \<le> i")
    case True
    then have "i mod 2 ^ w = i" using assms p by (intro mod_pos_pos_trivial) auto
    with True assms show ?thesis by (simp add: to_s_def to_u_def)
  next
    case False
    have "i mod 2 ^ w = (i + 2 ^ w) mod 2 ^ w" by simp
    also have "\<dots> = i + 2 ^ w" using assms p False by (intro mod_pos_pos_trivial) auto
    finally show ?thesis using False assms p by (simp add: to_s_def to_u_def)
  qed
qed

lemma to_u_bound: "to_u w i < 2 ^ w"
  by (simp add: to_u_def nat_less_iff)

section \<open>Gob streams\<close>

text \<open>
  \<open>encoding/gob\<close>. A stream holds type descriptors and values; an encoder writes the descriptor of
  a type once, before the first value of that type. A decoder reads values until the first error: a
  value of a type it has no descriptor for, or a second descriptor for a type it knows already
  (\<open>gob: duplicate type received\<close>). The number is the type id the encoding process gave to the type.
\<close>

datatype 'a gob = GobType nat | GobValue nat 'a

definition gob_encode :: "nat \<Rightarrow> 'a list \<Rightarrow> 'a gob list" where
  "gob_encode tid xs = (if xs = [] then [] else GobType tid # map (GobValue tid) xs)"

fun gob_decode :: "nat list \<Rightarrow> 'a gob list \<Rightarrow> 'a list" where
  "gob_decode known [] = []"
| "gob_decode known (GobType tid # ts) =
     (if tid \<in> set known then [] else gob_decode (tid # known) ts)"
| "gob_decode known (GobValue tid x # ts) =
     (if tid \<in> set known then x # gob_decode known ts else [])"

lemma gob_decode_known:
  "tid \<in> set known \<Longrightarrow> gob_decode known (map (GobValue tid) xs @ ts) = xs @ gob_decode known ts"
  by (induction xs) auto

lemma gob_roundtrip: "gob_decode [] (gob_encode tid xs) = xs"
  using gob_decode_known [of tid "[tid]" xs "[]"] by (simp add: gob_encode_def)

section \<open>Evicting the oldest entry\<close>

text \<open>
  The loop \<open>for id, s := range m { if oldestTime.IsZero() || s.T.Before(oldestTime) { ... } }\<close>
  that three managers share; \<open>ts\<close> reads the timestamp of an entry.
\<close>

fun oldest_loop :: "('v \<Rightarrow> time) \<Rightarrow> 'k \<Rightarrow> time \<Rightarrow> ('k \<times> 'v) list \<Rightarrow> 'k \<times> time" where
  "oldest_loop ts oldest oldestTime [] = (oldest, oldestTime)"
| "oldest_loop ts oldest oldestTime ((k, v) # xs) =
     (if IsZero oldestTime \<or> ts v < oldestTime then oldest_loop ts k (ts v) xs
      else oldest_loop ts oldest oldestTime xs)"

lemma oldest_loop_keeps_min:
  assumes "0 < t" and "\<forall>(k, v) \<in> set xs. 0 < ts v"
  shows "snd (oldest_loop ts o' t xs) \<le> t \<and> 0 < snd (oldest_loop ts o' t xs)
    \<and> (\<forall>(k, v) \<in> set xs. snd (oldest_loop ts o' t xs) \<le> ts v)
    \<and> (oldest_loop ts o' t xs = (o', t)
       \<or> (\<exists>v. (fst (oldest_loop ts o' t xs), v) \<in> set xs \<and> snd (oldest_loop ts o' t xs) = ts v))"
  using assms
proof (induction xs arbitrary: o' t)
  case Nil
  then show ?case by simp
next
  case (Cons a xs)
  obtain k v where a: "a = (k, v)" by (cases a)
  show ?case
  proof (cases "ts v < t")
    case True
    with Cons.prems have "0 < ts v" by (simp add: a)
    from Cons.IH [OF this, of k] Cons.prems(2) True show ?thesis
      by (fastforce simp: a)
  next
    case False
    from Cons.IH [OF Cons.prems(1), of o'] Cons.prems False show ?thesis
      by (fastforce simp: a)
  qed
qed

text \<open>On a non-empty map whose timestamps were taken from the clock, the loop finds an entry no
  other entry is older than.\<close>

lemma oldest_loop_oldest:
  assumes "xs \<noteq> []" and "\<forall>(k, v) \<in> set xs. 0 < ts v"
  shows "\<exists>v. (fst (oldest_loop ts o' 0 xs), v) \<in> set xs \<and> (\<forall>(k', v') \<in> set xs. ts v \<le> ts v')"
proof -
  obtain k v ys where xs: "xs = (k, v) # ys" using assms(1) by (cases xs) auto
  with assms(2) have "0 < ts v" "\<forall>(k, v) \<in> set ys. 0 < ts v" by auto
  from oldest_loop_keeps_min [OF this, of k] show ?thesis
    by (fastforce simp: xs)
qed

text \<open>\<open>delete(m, oldest)\<close> after the loop; \<open>zero\<close> is the zero value \<open>oldest\<close> starts with.\<close>

definition evict_oldest ::
    "('v \<Rightarrow> time) \<Rightarrow> 'k \<Rightarrow> (('k \<times> 'v) list \<Rightarrow> ('k \<times> 'v) list) \<Rightarrow> ('k, 'v) gomap \<Rightarrow> ('k, 'v) gomap" where
  "evict_oldest ts zero ord m = del (fst (oldest_loop ts zero 0 (ord m))) m"

lemma gm_ok_evict [go_ok, simp]: "gm_ok m \<Longrightarrow> gm_ok (evict_oldest ts zero ord m)"
  by (simp add: evict_oldest_def)

lemma evict_oldest_subset: "set (evict_oldest ts zero ord m) \<subseteq> set m"
  by (auto simp: evict_oldest_def dest: set_delete_subset)

lemma length_evict_oldest:
  assumes "gm_ok m" and "range_order ord" and "m \<noteq> []" and "\<forall>(k, v) \<in> set m. 0 < ts v"
  shows "Suc (length (evict_oldest ts zero ord m)) = length m"
proof -
  have s: "set (ord m) = set m" using assms(2) by (rule range_order_set)
  moreover have "ord m \<noteq> []" using s assms(3) by (metis set_empty)
  ultimately obtain v where "(fst (oldest_loop ts zero 0 (ord m)), v) \<in> set m"
    using oldest_loop_oldest [of "ord m" ts zero] assms(4) by auto
  with assms(1) show ?thesis
    by (simp add: evict_oldest_def length_del_present)
qed

text \<open>Evicting before an insertion keeps the table within its bound, one entry at least.\<close>

lemma length_evict_put:
  assumes "gm_ok m" and "range_order ord" and "\<forall>(k, v) \<in> set m. 0 < ts v" and "length m \<le> max 1 (nat cap)"
  shows "length (put k v (if cap \<le> int (length m) then evict_oldest ts zero ord m else m)) \<le> max 1 (nat cap)"
proof -
  let ?m = "if cap \<le> int (length m) then evict_oldest ts zero ord m else m"
  have "Suc (length ?m) \<le> max 1 (nat cap)"
  proof (cases "m = []")
    case False
    then have "Suc (length (evict_oldest ts zero ord m)) = length m"
      by (rule length_evict_oldest [OF assms(1,2) _ assms(3)])
    with assms(4) show ?thesis by auto
  qed (auto simp: evict_oldest_def)
  then show ?thesis by (rule le_trans [OF length_put_le])
qed

section \<open>Interfaces\<close>

text \<open>A component whose operations keep an invariant; \<open>ok\<close> says which operations the runtime can
  issue (a legal iteration order, a clock that has started).\<close>

locale machine =
  fixes step :: "'s \<Rightarrow> 'op \<Rightarrow> 's" and inv :: "'s \<Rightarrow> bool" and ok :: "'op \<Rightarrow> bool"
  assumes inv_step: "inv s \<Longrightarrow> ok a \<Longrightarrow> inv (step s a)"
begin

lemma inv_run: "inv s \<Longrightarrow> list_all ok as \<Longrightarrow> inv (foldl step s as)"
  by (induction as arbitrary: s) (auto intro: inv_step)

end

text \<open>A machine that stores entries and evicts one when its capacity is reached.\<close>

locale bounded_machine = machine step inv ok
  for step :: "'s \<Rightarrow> 'op \<Rightarrow> 's" and inv :: "'s \<Rightarrow> bool" and ok :: "'op \<Rightarrow> bool" +
  fixes entries :: "'s \<Rightarrow> nat" and cap :: "'s \<Rightarrow> nat"
  assumes cap_step: "cap (step s a) = cap s"
    and entries_step:
      "inv s \<Longrightarrow> ok a \<Longrightarrow> entries s \<le> max 1 (cap s) \<Longrightarrow> entries (step s a) \<le> max 1 (cap s)"
begin

lemma cap_run: "cap (foldl step s as) = cap s"
  by (induction as arbitrary: s) (simp_all add: cap_step)

lemma entries_run:
  "inv s \<Longrightarrow> list_all ok as \<Longrightarrow> entries s \<le> max 1 (cap s) \<Longrightarrow>
   entries (foldl step s as) \<le> max 1 (cap s)"
proof (induction as arbitrary: s)
  case Nil
  then show ?case by simp
next
  case (Cons a as)
  then have "entries (step s a) \<le> max 1 (cap s)" "inv (step s a)"
    using entries_step inv_step by simp_all
  with Cons.IH [of "step s a"] Cons.prems show ?case by (simp add: cap_step)
qed

end

text \<open>A machine whose objects move through states; \<open>le\<close> is the order of the states.\<close>

locale lifecycle_machine = machine step inv ok
  for step :: "'s \<Rightarrow> 'op \<Rightarrow> 's" and inv :: "'s \<Rightarrow> bool" and ok :: "'op \<Rightarrow> bool" +
  fixes status :: "'s \<Rightarrow> 'id \<Rightarrow> 'st option" and le :: "'st \<Rightarrow> 'st \<Rightarrow> bool"
  assumes le_refl: "le x x"
    and le_trans: "le x y \<Longrightarrow> le y z \<Longrightarrow> le x z"
    and status_step:
      "inv s \<Longrightarrow> ok a \<Longrightarrow> status s i = Some x \<Longrightarrow> \<exists>y. status (step s a) i = Some y \<and> le x y"
begin

lemma status_run:
  "inv s \<Longrightarrow> list_all ok as \<Longrightarrow> status s i = Some x \<Longrightarrow>
   \<exists>y. status (foldl step s as) i = Some y \<and> le x y"
proof (induction as arbitrary: s x)
  case Nil
  then show ?case by (auto intro: le_refl)
next
  case (Cons a as)
  then obtain y where y: "status (step s a) i = Some y" "le x y"
    using status_step by fastforce
  moreover from Cons.prems have "inv (step s a)" by (auto intro: inv_step)
  ultimately obtain z where "status (foldl step (step s a) as) i = Some z" "le y z"
    using Cons by fastforce
  with y show ?case by (auto intro: le_trans)
qed

end

text \<open>A codec of fixed width: what a reader relies on when it takes \<open>width\<close> bytes off a stream.\<close>

locale fixed_codec =
  fixes enc :: "'a \<Rightarrow> byte list" and dec :: "byte list \<Rightarrow> 'a" and width :: nat and valid :: "'a \<Rightarrow> bool"
  assumes length_enc: "length (enc x) = width"
    and dec_enc: "valid x \<Longrightarrow> dec (enc x) = x"
begin

lemma take_enc: "take width (enc x @ rest) = enc x"
  by (simp add: length_enc)

lemma drop_enc: "drop width (enc x @ rest) = rest"
  by (simp add: length_enc)

lemma dec_take: "valid x \<Longrightarrow> dec (take width (enc x @ rest)) = x"
  by (simp add: length_enc dec_enc)

lemma enc_inj: "valid x \<Longrightarrow> valid y \<Longrightarrow> enc x = enc y \<longleftrightarrow> x = y"
  by (metis dec_enc)

end

interpretation be16: fixed_codec "put_be 2" get_be 2 "\<lambda>n. n < 2 ^ 16"
  by unfold_locales (simp_all add: get_put_be)

interpretation be32: fixed_codec "put_be 4" get_be 4 "\<lambda>n. n < 2 ^ 32"
  by unfold_locales (simp_all add: get_put_be)

interpretation be64: fixed_codec "put_be 8" get_be 8 "\<lambda>n. n < 2 ^ 64"
  by unfold_locales (simp_all add: get_put_be)

interpretation be_int64: fixed_codec "\<lambda>i. put_be 8 (to_u 64 i)" "\<lambda>bs. to_s 64 (get_be bs)" 8 int64_range
proof unfold_locales
  fix i assume "int64_range i"
  then have "to_s 64 (to_u 64 i) = i" by (intro to_s_to_u) (auto simp: int64_range_def)
  moreover have "to_u 64 i < 256 ^ 8" using to_u_bound [of 64 i] by simp
  ultimately show "to_s 64 (get_be (put_be 8 (to_u 64 i))) = i" by (simp only: get_put_be mod_less)
qed simp

interpretation be_int32: fixed_codec "\<lambda>i. put_be 4 (to_u 32 i)" "\<lambda>bs. to_s 32 (get_be bs)" 4
    "\<lambda>i. - (2 ^ 31) \<le> i \<and> i < 2 ^ 31"
proof unfold_locales
  fix i :: int assume "- (2 ^ 31) \<le> i \<and> i < 2 ^ 31"
  then have "to_s 32 (to_u 32 i) = i" by (intro to_s_to_u) auto
  moreover have "to_u 32 i < 256 ^ 4" using to_u_bound [of 32 i] by simp
  ultimately show "to_s 32 (get_be (put_be 4 (to_u 32 i))) = i" by (simp only: get_put_be mod_less)
qed simp

end
