(* ===== verification/Raft_Node.thy ===== *)
theory Raft_Node
  imports Go_Prelude
begin

text \<open>
  The Raft node, \<open>src/cluster/go/raft/raft.go\<close>: its state as the record \<open>RaftNode\<close> and one
  definition per method. The message types come from \<open>src/cluster/go/raft/raft.proto\<close>.

  A method that takes \<open>r.mu\<close> is one atomic step; a method that gives the mutex up in the middle
  (\<open>startElection\<close> waiting for votes, \<open>sendAppendEntries\<close> waiting for a reply,
  \<open>applyCommittedEntries\<close> sending on \<open>applyCh\<close>) is one definition per critical section. A
  \<open>go\<close> statement puts a \<open>goroutine\<close> into the field \<open>goroutines\<close>. A helper that takes the
  mutex itself has a first argument that says whether its caller holds it already, and is
  \<open>Deadlock\<close> then. Timers, sockets and log output carry no state of the protocol and are left
  out; when a timer fires is up to the environment.
\<close>

section \<open>Data\<close>

datatype NodeState = Follower | Candidate | Leader

datatype ConfigState = ConfigStable | ConfigJoint

datatype EntryType = DATA | CONF_CHANGE | JOINT_CONSENSUS

record ConfigEntry =
  OldPeers :: "string list"
  NewPeers :: "string list"

record LogEntry =
  le_Term :: nat
  le_Index :: nat
  le_Type :: EntryType
  le_Topic :: string
  le_Partition :: int
  le_Data :: "byte list"
  le_Config :: "ConfigEntry option"

record RequestVoteArgs =
  rv_Term :: nat
  rv_CandidateId :: string
  rv_LastLogIndex :: nat
  rv_LastLogTerm :: nat

record RequestVoteReply =
  rvr_Term :: nat
  rvr_VoteGranted :: bool

record AppendEntriesArgs =
  ae_Term :: nat
  ae_LeaderId :: string
  ae_PrevLogIndex :: nat
  ae_PrevLogTerm :: nat
  ae_Entries :: "LogEntry list"
  ae_LeaderCommit :: nat

record AppendEntriesReply =
  aer_Term :: nat
  aer_Success :: bool
  aer_ConflictIndex :: nat
  aer_LastLogIndex :: nat

record InstallSnapshotArgs =
  is_Term :: nat
  is_LeaderId :: string
  is_LastIncludedIndex :: nat
  is_LastIncludedTerm :: nat
  is_Data :: "LogEntry gob list"

record InstallSnapshotReply =
  isr_Term :: nat
  isr_Success :: bool

record Peer =
  peer_addr :: string
  peer_learner :: bool

text \<open>What \<open>saveState\<close> writes to \<open>raft_state.dat\<close>, and the two files of the data directory.\<close>

record PersistentState =
  ps_CurrentTerm :: nat
  ps_VotedFor :: string
  ps_CommitIndex :: nat
  ps_LastApplied :: nat
  ps_LogLength :: nat
  ps_ConfigState :: ConfigState
  ps_CurrentConfig :: "(string, bool) gomap"
  ps_NewConfig :: "(string, bool) gomap option"
  ps_PersistedIndex :: nat

text \<open>What the next write of the log file does: it succeeds, the file cannot be opened, or the write is cut off after some of the stream.\<close>

datatype raft_log_io = RaftLogOk | RaftLogClosed | RaftLogTorn nat

record RaftDisk =
  stateFile :: "PersistentState option"
  logFile :: "LogEntry gob list"
  stateWritable :: bool
  logIo :: raft_log_io

text \<open>The variables of one call of \<open>startElection\<close> that its goroutines share.\<close>

record Election =
  el_votes :: nat
  el_oldConfigVotes :: nat
  el_newConfigVotes :: nat
  el_configState :: ConfigState
  el_oldConfigCount :: nat
  el_newConfigCount :: nat
  el_nonLearnerPeers :: nat

datatype goroutine =
    GoRequestVote string RequestVoteArgs nat
  | GoAwaitVotes nat
  | GoSendAppendEntries string
  | GoSendSnapshot string
  | GoApplyCommittedEntries
  | GoAppendStableConfig
  | GoISRTicker

text \<open>
  \<open>pendingCommit\<close> maps a log index to a channel; channels are numbered, \<open>chanCount\<close> have been
  made and \<open>closedChans\<close> are closed. \<open>applied\<close> is what has been sent on \<open>applyCh\<close>.
  \<open>gobTypeId\<close> is the type id of \<open>LogEntry\<close> in this process.
\<close>

record RaftNode =
  state :: NodeState
  currentTerm :: nat
  votedFor :: string
  log :: "LogEntry list"
  commitIndex :: nat
  lastApplied :: nat
  nextIndex :: "(string, nat) gomap"
  matchIndex :: "(string, nat) gomap"
  peers :: "(string, Peer) gomap"
  selfAddr :: string
  applyCh :: bool
  applied :: "LogEntry list"
  dataDir :: string
  pendingCommit :: "(nat, nat) gomap"
  chanCount :: nat
  closedChans :: "nat list"
  isr :: "(string, bool) gomap"
  maxLag :: nat
  currentConfig :: "(string, bool) gomap"
  newConfig :: "(string, bool) gomap option"
  configState :: ConfigState
  persistedIndex :: nat
  elections :: "(nat, Election) gomap"
  goroutines :: "goroutine list"
  disk :: RaftDisk
  gobTypeId :: nat

datatype raft_error =
    NotLeader
  | AlreadyInCluster string
  | NotInCluster string
  | CannotRemoveOnlyNode
  | ConfigChangeInProgress

abbreviation spawn :: "goroutine list \<Rightarrow> RaftNode \<Rightarrow> RaftNode" where
  "spawn gs r \<equiv> r\<lparr>goroutines := goroutines r @ gs\<rparr>"

text \<open>Reading a \<open>map[string]bool\<close> and a \<open>map[string]uint64\<close>; a nil map reads as empty.\<close>

definition cfg_in :: "(string, bool) gomap \<Rightarrow> string \<Rightarrow> bool" where
  "cfg_in m a \<longleftrightarrow> map_of m a = Some True"

definition idx_at :: "(string, nat) gomap \<Rightarrow> string \<Rightarrow> nat" where
  "idx_at m a = (case map_of m a of None \<Rightarrow> 0 | Some n \<Rightarrow> n)"

definition nil_map :: "('k, 'v) gomap option \<Rightarrow> ('k, 'v) gomap" where
  "nil_map m = (case m of None \<Rightarrow> [] | Some m' \<Rightarrow> m')"

definition config_of :: "string list \<Rightarrow> (string, bool) gomap" where
  "config_of addrs = fold (\<lambda>a. put a True) addrs []"

section \<open>Persistence\<close>

text \<open>\<open>appendLogEntries\<close>: a new encoder for every call, appended to the log file. The error of the write is
  dropped, and \<open>persistedIndex\<close> moves on all the same.\<close>

definition appendLogEntries :: "RaftNode \<Rightarrow> RaftNode" where
  "appendLogEntries r =
     (if dataDir r = [] then r
      else if logIo (disk r) = RaftLogClosed then r
      else let startIdx = persistedIndex r + 1;
               toks = gob_encode (gobTypeId r) (drop startIdx (log r));
               written = (case logIo (disk r) of RaftLogTorn n \<Rightarrow> take n toks | _ \<Rightarrow> toks)
           in r\<lparr>disk := (disk r)\<lparr>logFile := logFile (disk r) @ written\<rparr>,
                persistedIndex := length (log r) - 1\<rparr>)"

definition saveState :: "RaftNode \<Rightarrow> RaftNode" where
  "saveState r =
     (if dataDir r = [] then r
      else if \<not> stateWritable (disk r) then r
      else let st = \<lparr>ps_CurrentTerm = currentTerm r, ps_VotedFor = votedFor r,
                     ps_CommitIndex = commitIndex r, ps_LastApplied = lastApplied r,
                     ps_LogLength = length (log r), ps_ConfigState = configState r,
                     ps_CurrentConfig = currentConfig r, ps_NewConfig = newConfig r,
                     ps_PersistedIndex = persistedIndex r\<rparr>
           in appendLogEntries (r\<lparr>disk := (disk r)\<lparr>stateFile := Some st\<rparr>\<rparr>))"

definition getLastPersistedLogIndex :: "RaftNode \<Rightarrow> nat" where
  "getLastPersistedLogIndex r = persistedIndex r"

definition loadLogEntries :: "nat \<Rightarrow> RaftNode \<Rightarrow> RaftNode" where
  "loadLogEntries expectedLength r =
     (if dataDir r = [] then r
      else if logFile (disk r) = [] then r
      else r\<lparr>log := take 1 (log r) @ gob_decode [] (logFile (disk r))\<rparr>)"

definition loadState :: "RaftNode \<Rightarrow> RaftNode" where
  "loadState r =
     (if dataDir r = [] then r
      else case stateFile (disk r) of
             None \<Rightarrow> r
           | Some st \<Rightarrow>
               loadLogEntries (ps_LogLength st)
                 (r\<lparr>currentTerm := ps_CurrentTerm st, votedFor := ps_VotedFor st,
                    commitIndex := ps_CommitIndex st, lastApplied := ps_LastApplied st,
                    configState := ps_ConfigState st, currentConfig := ps_CurrentConfig st,
                    newConfig := ps_NewConfig st, persistedIndex := ps_PersistedIndex st\<rparr>))"

definition sentinel :: LogEntry where
  "sentinel = \<lparr>le_Term = 0, le_Index = 0, le_Type = DATA, le_Topic = [], le_Partition = 0,
               le_Data = [], le_Config = None\<rparr>"

fun add_peers :: "string list \<Rightarrow> RaftNode \<Rightarrow> RaftNode" where
  "add_peers [] r = r"
| "add_peers (addr # addrs) r =
     add_peers addrs
       (if addr \<noteq> selfAddr r
        then r\<lparr>peers := put addr \<lparr>peer_addr = addr, peer_learner = False\<rparr> (peers r),
               currentConfig := put addr True (currentConfig r),
               isr := put addr True (isr r)\<rparr>
        else r)"

definition NewRaftNode :: "string \<Rightarrow> string list \<Rightarrow> bool \<Rightarrow> string \<Rightarrow> RaftDisk \<Rightarrow> nat \<Rightarrow> RaftNode" where
  "NewRaftNode self addrs ch dir d tid =
     loadState (add_peers addrs
       \<lparr>state = Follower, currentTerm = 0, votedFor = [], log = [sentinel], commitIndex = 0,
        lastApplied = 0, nextIndex = [], matchIndex = [], peers = [], selfAddr = self,
        applyCh = ch, applied = [], dataDir = dir, pendingCommit = [], chanCount = 0,
        closedChans = [], isr = [], maxLag = 10000, currentConfig = [(self, True)],
        newConfig = None, configState = ConfigStable, persistedIndex = 0, elections = [],
        goroutines = [], disk = d, gobTypeId = tid\<rparr>)"

section \<open>Elections\<close>

definition getQuorumSize :: "RaftNode \<Rightarrow> nat" where
  "getQuorumSize r =
     (if configState r = ConfigJoint
      then (length (currentConfig r) div 2 + 1) + (length (nil_map (newConfig r)) div 2 + 1)
      else length (currentConfig r) div 2 + 1)"

definition close_pending :: "RaftNode \<Rightarrow> RaftNode" where
  "close_pending r = r\<lparr>closedChans := closedChans r @ map snd (pendingCommit r), pendingCommit := []\<rparr>"

definition sendHeartbeats :: "RaftNode \<Rightarrow> RaftNode" where
  "sendHeartbeats r = spawn (map (\<lambda>(k, p). GoSendAppendEntries (peer_addr p)) (peers r)) r"

fun leader_indexes :: "(string \<times> Peer) list \<Rightarrow> RaftNode \<Rightarrow> RaftNode" where
  "leader_indexes [] r = r"
| "leader_indexes ((peerAddr, p) # ps) r =
     leader_indexes ps
       (r\<lparr>nextIndex := put peerAddr (length (log r)) (nextIndex r),
          matchIndex := put peerAddr 0 (matchIndex r),
          isr := put peerAddr True (isr r)\<rparr>)"

definition becomeLeader :: "RaftNode \<Rightarrow> RaftNode" where
  "becomeLeader r =
     spawn [GoISRTicker] (sendHeartbeats (close_pending (leader_indexes (peers r) (r\<lparr>state := Leader\<rparr>))))"

definition becomeFollower :: "nat \<Rightarrow> RaftNode \<Rightarrow> RaftNode" where
  "becomeFollower term r =
     saveState (close_pending (r\<lparr>state := Follower, currentTerm := term, votedFor := []\<rparr>))"

definition nonLearnerPeers :: "RaftNode \<Rightarrow> Peer list" where
  "nonLearnerPeers r = filter (\<lambda>p. \<not> peer_learner p) (map snd (peers r))"

text \<open>The part of \<open>startElection\<close> that runs under the mutex, up to \<open>saveState\<close>.\<close>

definition startElection :: "RaftNode \<Rightarrow> RaftNode" where
  "startElection r =
     (let r1 = r\<lparr>state := Candidate, currentTerm := u64_inc (currentTerm r), votedFor := selfAddr r\<rparr>;
          args = \<lparr>rv_Term = currentTerm r1, rv_CandidateId = selfAddr r,
                  rv_LastLogIndex = length (log r) - 1, rv_LastLogTerm = le_Term (last (log r))\<rparr>
      in if peers r1 = [] then saveState (becomeLeader r1)
         else let el = \<lparr>el_votes = 1, el_oldConfigVotes = 1, el_newConfigVotes = 0,
                        el_configState = configState r, el_oldConfigCount = length (currentConfig r),
                        el_newConfigCount = length (nil_map (newConfig r)),
                        el_nonLearnerPeers = length (nonLearnerPeers r)\<rparr>;
                  gs = map (\<lambda>p. GoRequestVote (peer_addr p) args (currentTerm r1)) (nonLearnerPeers r)
                       @ [GoAwaitVotes (currentTerm r1)]
              in saveState (spawn gs (r1\<lparr>elections := put (currentTerm r1) el (elections r1)\<rparr>)))"

text \<open>The goroutine of one peer after \<open>requestVote\<close> returned \<open>reply\<close>.\<close>

definition count_vote :: "string \<Rightarrow> RaftNode \<Rightarrow> Election \<Rightarrow> Election" where
  "count_vote addr r el =
     (let el1 = el\<lparr>el_votes := el_votes el + 1\<rparr>
      in if el_configState el = ConfigJoint
         then el1\<lparr>el_oldConfigVotes := el_oldConfigVotes el + (if cfg_in (currentConfig r) addr then 1 else 0),
                  el_newConfigVotes := el_newConfigVotes el + (if cfg_in (nil_map (newConfig r)) addr then 1 else 0)\<rparr>
         else el1)"

definition election_won :: "Election \<Rightarrow> bool" where
  "election_won el =
     (if el_configState el = ConfigJoint
      then el_oldConfigCount el div 2 + 1 \<le> el_oldConfigVotes el \<and>
           el_newConfigCount el div 2 + 1 \<le> el_newConfigVotes el
      else (el_nonLearnerPeers el + 1) div 2 < el_votes el)"

definition handleVoteReply :: "string \<Rightarrow> nat \<Rightarrow> RequestVoteReply \<Rightarrow> RaftNode \<Rightarrow> RaftNode" where
  "handleVoteReply addr term reply r =
     (if currentTerm r < rvr_Term reply then becomeFollower (rvr_Term reply) r
      else if state r = Candidate \<and> currentTerm r = term \<and> rvr_VoteGranted reply
      then (case map_of (elections r) term of
              None \<Rightarrow> r
            | Some el \<Rightarrow>
                let el' = count_vote addr r el;
                    r' = r\<lparr>elections := put term el' (elections r)\<rparr>
                in if election_won el' then becomeLeader r' else r')
      else r)"

text \<open>The goroutine that waits for all replies and starts over.\<close>

definition awaitVotes :: "nat \<Rightarrow> RaftNode \<Rightarrow> RaftNode" where
  "awaitVotes term r =
     (if state r = Candidate \<and> currentTerm r = term then startElection r else r)"

text \<open>The two timer branches of \<open>run\<close>.\<close>

definition onElectionTimer :: "RaftNode \<Rightarrow> RaftNode" where
  "onElectionTimer r = (if state r = Leader then r else startElection r)"

definition onHeartbeatTimer :: "RaftNode \<Rightarrow> RaftNode" where
  "onHeartbeatTimer r = (if state r = Leader then sendHeartbeats r else r)"

definition isLogUpToDate :: "nat \<Rightarrow> nat \<Rightarrow> RaftNode \<Rightarrow> bool" where
  "isLogUpToDate lastLogIndex lastLogTerm r =
     (let lastIndex = length (log r) - 1; lastTerm = le_Term (log r ! lastIndex)
      in if lastLogTerm < lastTerm then True
         else if lastTerm = lastLogTerm \<and> lastLogIndex < lastIndex then True
         else False)"

definition RequestVote :: "RequestVoteArgs \<Rightarrow> RaftNode \<Rightarrow> RequestVoteReply \<times> RaftNode" where
  "RequestVote args r =
     (if rv_Term args < currentTerm r
      then (\<lparr>rvr_Term = currentTerm r, rvr_VoteGranted = False\<rparr>, r)
      else let r1 = (if currentTerm r < rv_Term args then becomeFollower (rv_Term args) r else r)
           in if (votedFor r1 = [] \<or> votedFor r1 = rv_CandidateId args) \<and>
                 isLogUpToDate (rv_LastLogIndex args) (rv_LastLogTerm args) r1
              then let r2 = saveState (r1\<lparr>votedFor := rv_CandidateId args\<rparr>)
                   in (\<lparr>rvr_Term = currentTerm r2, rvr_VoteGranted = True\<rparr>, r2)
              else (\<lparr>rvr_Term = currentTerm r1, rvr_VoteGranted = False\<rparr>, r1))"

text \<open>\<open>requestVote\<close>, \<open>appendEntries\<close> and \<open>installSnapshot\<close> turn a failed call into a refusal
  in the caller's own term.\<close>

definition requestVote :: "RequestVoteReply option \<Rightarrow> RaftNode \<Rightarrow> RequestVoteReply" where
  "requestVote rpc r =
     (case rpc of None \<Rightarrow> \<lparr>rvr_Term = currentTerm r, rvr_VoteGranted = False\<rparr> | Some reply \<Rightarrow> reply)"

definition appendEntries :: "AppendEntriesReply option \<Rightarrow> RaftNode \<Rightarrow> AppendEntriesReply" where
  "appendEntries rpc r =
     (case rpc of
        None \<Rightarrow> \<lparr>aer_Term = currentTerm r, aer_Success = False, aer_ConflictIndex = 0, aer_LastLogIndex = 0\<rparr>
      | Some reply \<Rightarrow> reply)"

definition installSnapshot :: "InstallSnapshotReply option \<Rightarrow> RaftNode \<Rightarrow> InstallSnapshotReply" where
  "installSnapshot rpc r =
     (case rpc of None \<Rightarrow> \<lparr>isr_Term = currentTerm r, isr_Success = False\<rparr> | Some reply \<Rightarrow> reply)"

section \<open>Membership\<close>

text \<open>\<open>applyConfigChangeLocked\<close>. The joint branch adds the new peers as learners.\<close>

fun add_learners :: "string list \<Rightarrow> RaftNode \<Rightarrow> RaftNode" where
  "add_learners [] r = r"
| "add_learners (addr # addrs) r =
     add_learners addrs
       (if \<not> has (peers r) addr \<and> addr \<noteq> selfAddr r
        then r\<lparr>peers := put addr \<lparr>peer_addr = addr, peer_learner = True\<rparr> (peers r),
               isr := put addr True (isr r),
               nextIndex := put addr (length (log r)) (nextIndex r),
               matchIndex := put addr 0 (matchIndex r)\<rparr>
        else r)"

fun drop_peers :: "string list \<Rightarrow> RaftNode \<Rightarrow> RaftNode" where
  "drop_peers [] r = r"
| "drop_peers (addr # addrs) r =
     drop_peers addrs
       (if \<not> cfg_in (currentConfig r) addr
        then r\<lparr>peers := del addr (peers r), isr := del addr (isr r),
               nextIndex := del addr (nextIndex r), matchIndex := del addr (matchIndex r)\<rparr>
        else r)"

definition applyConfigChangeLocked :: "LogEntry \<Rightarrow> RaftNode \<Rightarrow> RaftNode" where
  "applyConfigChangeLocked entry r =
     (case le_Config entry of
        None \<Rightarrow> r
      | Some cfg \<Rightarrow>
          if le_Type entry = JOINT_CONSENSUS
          then let r1 = add_learners (NewPeers cfg)
                          (r\<lparr>currentConfig := config_of (OldPeers cfg),
                             newConfig := Some (config_of (NewPeers cfg)),
                             configState := ConfigJoint\<rparr>)
               in if state r1 = Leader then spawn [GoAppendStableConfig] r1 else r1
          else if le_Type entry = CONF_CHANGE
          then let r1 = r\<lparr>currentConfig := config_of (NewPeers cfg), newConfig := None,
                          configState := ConfigStable\<rparr>
               in drop_peers (map fst (peers r1)) r1
          else r)"

definition appendStableConfig ::
    "((string \<times> bool) list \<Rightarrow> (string \<times> bool) list) \<Rightarrow> RaftNode \<Rightarrow> RaftNode" where
  "appendStableConfig ord r =
     (if state r \<noteq> Leader \<or> configState r \<noteq> ConfigJoint then r
      else let entry = \<lparr>le_Term = currentTerm r, le_Index = length (log r), le_Type = CONF_CHANGE,
                        le_Topic = [], le_Partition = 0, le_Data = [],
                        le_Config = Some \<lparr>OldPeers = [], NewPeers = map fst (ord (nil_map (newConfig r)))\<rparr>\<rparr>
           in sendHeartbeats (saveState (r\<lparr>log := log r @ [entry]\<rparr>)))"

text \<open>\<open>changeConfig\<close> ranges over the two configurations to list them; \<open>ordOld\<close> and \<open>ordNew\<close> are
  the orders the runtime picks.\<close>

type_synonym cfg_order = "(string \<times> bool) list \<Rightarrow> (string \<times> bool) list"

definition changeConfig :: "cfg_order \<Rightarrow> cfg_order \<Rightarrow> string \<Rightarrow> bool \<Rightarrow> RaftNode \<Rightarrow> RaftNode" where
  "changeConfig ordOld ordNew nodeAddr add r =
     (let base = config_of (map fst (currentConfig r));
          nc = (if add then put nodeAddr True base else del nodeAddr base);
          entry = \<lparr>le_Term = currentTerm r, le_Index = length (log r), le_Type = JOINT_CONSENSUS,
                   le_Topic = [], le_Partition = 0, le_Data = [],
                   le_Config = Some \<lparr>OldPeers = map fst (ordOld (currentConfig r)),
                                     NewPeers = map fst (ordNew nc)\<rparr>\<rparr>
      in saveState (r\<lparr>newConfig := Some nc, configState := ConfigJoint, log := log r @ [entry]\<rparr>))"

text \<open>\<open>AddNode\<close> and \<open>RemoveNode\<close>; the mutex is given up between the checks and
  \<open>changeConfig\<close>, and the definitions are the run in which nothing happens in between.\<close>

definition AddNode :: "cfg_order \<Rightarrow> cfg_order \<Rightarrow> string \<Rightarrow> RaftNode \<Rightarrow> (raft_error + unit) \<times> RaftNode" where
  "AddNode ordOld ordNew nodeAddr r =
     (if state r \<noteq> Leader then (Inl NotLeader, r)
      else if cfg_in (currentConfig r) nodeAddr then (Inl (AlreadyInCluster nodeAddr), r)
      else if configState r = ConfigJoint then (Inl ConfigChangeInProgress, r)
      else (Inr (), changeConfig ordOld ordNew nodeAddr True r))"

definition RemoveNode :: "cfg_order \<Rightarrow> cfg_order \<Rightarrow> string \<Rightarrow> RaftNode \<Rightarrow> (raft_error + unit) \<times> RaftNode" where
  "RemoveNode ordOld ordNew nodeAddr r =
     (if state r \<noteq> Leader then (Inl NotLeader, r)
      else if \<not> cfg_in (currentConfig r) nodeAddr then (Inl (NotInCluster nodeAddr), r)
      else if nodeAddr = selfAddr r \<and> length (currentConfig r) = 1 then (Inl CannotRemoveOnlyNode, r)
      else if configState r = ConfigJoint then (Inl ConfigChangeInProgress, r)
      else (Inr (), changeConfig ordOld ordNew nodeAddr False r))"

definition getConfigSize :: "RaftNode \<Rightarrow> nat" where
  "getConfigSize r = length (currentConfig r)"

section \<open>Applying committed entries\<close>

text \<open>
  The loop of \<open>applyCommittedEntries\<close>, \<open>commitIndex - lastApplied\<close> rounds. The mutex is given up
  while an entry is sent on \<open>applyCh\<close>; this is the run in which no other goroutine intervenes.
\<close>

definition is_config_entry :: "LogEntry \<Rightarrow> bool" where
  "is_config_entry e \<longleftrightarrow> le_Type e = JOINT_CONSENSUS \<or> le_Type e = CONF_CHANGE"

fun apply_rounds :: "nat \<Rightarrow> RaftNode \<Rightarrow> RaftNode go" where
  "apply_rounds 0 r = Ret r"
| "apply_rounds (Suc k) r =
     (let i = lastApplied r + 1; r1 = r\<lparr>lastApplied := i\<rparr>
      in if length (log r1) \<le> i then Panic
         else let entry = log r1 ! i
              in if is_config_entry entry then apply_rounds k (applyConfigChangeLocked entry r1)
                 else if applyCh r1 then apply_rounds k (r1\<lparr>applied := applied r1 @ [entry]\<rparr>)
                 else apply_rounds k r1)"

definition applyCommittedEntries :: "bool \<Rightarrow> RaftNode \<Rightarrow> RaftNode go" where
  "applyCommittedEntries held r =
     (if held then Deadlock else apply_rounds (commitIndex r - lastApplied r) r)"

section \<open>Replication, leader side\<close>

definition snapshotThreshold :: nat where "snapshotThreshold = 1000"

datatype send_plan =
    SendNothing
  | SendSnapshot
  | SendEntries AppendEntriesArgs

text \<open>\<open>sendAppendEntries\<close> up to the call, under the mutex.\<close>

definition sendAppendEntries_plan :: "string \<Rightarrow> RaftNode \<Rightarrow> (send_plan \<times> RaftNode) go" where
  "sendAppendEntries_plan peerAddr r =
     (if state r \<noteq> Leader then Ret (SendNothing, r)
      else let r1 = (if idx_at (nextIndex r) peerAddr = 0
                     then r\<lparr>nextIndex := put peerAddr 1 (nextIndex r)\<rparr> else r);
               nextIdx = (if idx_at (nextIndex r) peerAddr = 0 then 1 else idx_at (nextIndex r) peerAddr);
               logLen = length (log r)
           in if nextIdx < u64_sub logLen snapshotThreshold
              then Ret (SendSnapshot, spawn [GoSendSnapshot peerAddr] r1)
              else let prevLogIndex = nextIdx - 1;
                       prevLogTerm = (if 0 < prevLogIndex \<and> prevLogIndex < length (log r)
                                      then le_Term (log r ! prevLogIndex) else 0)
                   in if length (log r) < prevLogIndex + 1 then Panic
                      else Ret (SendEntries
                             \<lparr>ae_Term = currentTerm r, ae_LeaderId = selfAddr r,
                              ae_PrevLogIndex = prevLogIndex, ae_PrevLogTerm = prevLogTerm,
                              ae_Entries = drop (prevLogIndex + 1) (log r),
                              ae_LeaderCommit = commitIndex r\<rparr>, r1))"

text \<open>\<open>updateCommitIndex\<close>: the quorum test for index \<open>n\<close> and the loop over \<open>n\<close>.\<close>

definition oldCount :: "nat \<Rightarrow> RaftNode \<Rightarrow> nat" where
  "oldCount n r = 1 + length (filter (\<lambda>(peerAddr, idx). n \<le> idx \<and> cfg_in (currentConfig r) peerAddr) (matchIndex r))"

definition newCount :: "nat \<Rightarrow> RaftNode \<Rightarrow> nat" where
  "newCount n r = 1 + length (filter (\<lambda>(peerAddr, idx). n \<le> idx \<and> newConfig r \<noteq> None \<and>
                                        cfg_in (nil_map (newConfig r)) peerAddr) (matchIndex r))"

definition quorum_at :: "nat \<Rightarrow> RaftNode \<Rightarrow> bool" where
  "quorum_at n r =
     (let oldQuorum = length (currentConfig r) div 2 + 1;
          newQuorum = length (nil_map (newConfig r)) div 2 + 1
      in if configState r = ConfigJoint then oldQuorum \<le> oldCount n r \<and> newQuorum \<le> newCount n r
         else oldQuorum \<le> oldCount n r)"

definition commit_at :: "nat \<Rightarrow> RaftNode \<Rightarrow> RaftNode" where
  "commit_at n r =
     (let r1 = r\<lparr>commitIndex := n\<rparr>
      in case map_of (pendingCommit r1) n of
           None \<Rightarrow> r1
         | Some ch \<Rightarrow> r1\<lparr>closedChans := closedChans r1 @ [ch], pendingCommit := del n (pendingCommit r1)\<rparr>)"

lemma commit_at_log [simp]: "log (commit_at n r) = log r"
  by (simp add: commit_at_def Let_def split: option.split)

function commit_loop :: "nat \<Rightarrow> RaftNode \<Rightarrow> RaftNode" where
  "commit_loop n r =
     (if n < length (log r)
      then if le_Term (log r ! n) \<noteq> currentTerm r then r
           else if quorum_at n r then commit_loop (n + 1) (commit_at n r)
           else r
      else r)"
  by pat_completeness auto
termination
  by (relation "measure (\<lambda>(n, r). length (log r) - n)") auto

declare commit_loop.simps [simp del]

definition updateCommitIndex :: "RaftNode \<Rightarrow> RaftNode" where
  "updateCommitIndex r = spawn [GoApplyCommittedEntries] (commit_loop (commitIndex r + 1) r)"

text \<open>\<open>sendAppendEntries\<close> after the call returned \<open>reply\<close>; \<open>prevLogIndex\<close> and \<open>n\<close>, the number
  of entries sent, are the variables of the first part.\<close>

definition handleAppendReply :: "string \<Rightarrow> nat \<Rightarrow> nat \<Rightarrow> AppendEntriesReply \<Rightarrow> RaftNode \<Rightarrow> RaftNode" where
  "handleAppendReply peerAddr prevLogIndex n reply r =
     (if currentTerm r < aer_Term reply then becomeFollower (aer_Term reply) r
      else if state r \<noteq> Leader then r
      else if aer_Success reply
      then updateCommitIndex
             (r\<lparr>nextIndex := put peerAddr (prevLogIndex + n + 1) (nextIndex r),
                matchIndex := put peerAddr (prevLogIndex + n) (matchIndex r)\<rparr>)
      else if 1 < idx_at (nextIndex r) peerAddr
      then spawn [GoSendAppendEntries peerAddr]
             (r\<lparr>nextIndex := put peerAddr (idx_at (nextIndex r) peerAddr - 1) (nextIndex r)\<rparr>)
      else r)"

definition SubmitCommand ::
    "string \<Rightarrow> int \<Rightarrow> byte list \<Rightarrow> RaftNode \<Rightarrow> ((raft_error + nat \<times> nat) \<times> RaftNode) go" where
  "SubmitCommand topic part data r =
     (if state r \<noteq> Leader then Ret (Inl NotLeader, r)
      else let entryIndex = length (log r);
               entry = \<lparr>le_Term = currentTerm r, le_Index = entryIndex, le_Type = DATA,
                        le_Topic = topic, le_Partition = part, le_Data = data, le_Config = None\<rparr>;
               r1 = saveState (r\<lparr>log := log r @ [entry]\<rparr>)
           in if peers r1 = []
              then go_bind (applyCommittedEntries True (r1\<lparr>commitIndex := entryIndex\<rparr>))
                     (\<lambda>r2. Ret (Inr (entryIndex, chanCount r2),
                                r2\<lparr>chanCount := chanCount r2 + 1, closedChans := closedChans r2 @ [chanCount r2]\<rparr>))
              else let ch = chanCount r1
                   in Ret (Inr (entryIndex, ch),
                           sendHeartbeats (r1\<lparr>chanCount := ch + 1,
                                              pendingCommit := put entryIndex ch (pendingCommit r1)\<rparr>)))"

definition GetState :: "RaftNode \<Rightarrow> NodeState \<times> nat" where
  "GetState r = (state r, currentTerm r)"

text \<open>In-sync replicas. \<open>commitIndex - matchIndex[peer]\<close> is a subtraction of \<open>uint64\<close> values.\<close>

fun isr_loop :: "(string \<times> Peer) list \<Rightarrow> RaftNode \<Rightarrow> RaftNode" where
  "isr_loop [] r = r"
| "isr_loop ((peerAddr, p) # ps) r =
     (let replicaLag = u64_sub (commitIndex r) (idx_at (matchIndex r) peerAddr)
      in isr_loop ps
           (if maxLag r < replicaLag then r\<lparr>isr := put peerAddr False (isr r)\<rparr>
            else r\<lparr>isr := put peerAddr True (isr r)\<rparr>))"

definition checkISR :: "RaftNode \<Rightarrow> RaftNode" where
  "checkISR r = (if state r \<noteq> Leader then r else isr_loop (peers r) r)"

definition getISRSize :: "RaftNode \<Rightarrow> nat" where
  "getISRSize r = 1 + length (filter snd (isr r))"

section \<open>Replication, follower side\<close>

text \<open>The loop over \<open>args.Entries\<close>; \<open>index\<close> is \<open>PrevLogIndex + 1 + i\<close>.\<close>

fun merge_entries :: "nat \<Rightarrow> LogEntry list \<Rightarrow> LogEntry list \<Rightarrow> LogEntry list" where
  "merge_entries index [] l = l"
| "merge_entries index (entry # entries) l =
     merge_entries (index + 1) entries
       (if length l \<le> index then l @ [entry]
        else if le_Term (l ! index) \<noteq> le_Term entry then take index l @ [entry]
        else l)"

definition AppendEntries :: "AppendEntriesArgs \<Rightarrow> RaftNode \<Rightarrow> (AppendEntriesReply \<times> RaftNode) go" where
  "AppendEntries args r =
     (let lastLogIndex = length (log r) - 1
      in if ae_Term args < currentTerm r
         then Ret (\<lparr>aer_Term = currentTerm r, aer_Success = False, aer_ConflictIndex = 0,
                    aer_LastLogIndex = lastLogIndex\<rparr>, r)
         else let r1 = (if currentTerm r < ae_Term args then becomeFollower (ae_Term args) r else r)
              in if length (log r1) \<le> ae_PrevLogIndex args
                 then Ret (\<lparr>aer_Term = currentTerm r1, aer_Success = False,
                            aer_ConflictIndex = length (log r1), aer_LastLogIndex = lastLogIndex\<rparr>, r1)
                 else if 0 < ae_PrevLogIndex args \<and>
                         le_Term (log r1 ! ae_PrevLogIndex args) \<noteq> ae_PrevLogTerm args
                 then Ret (\<lparr>aer_Term = currentTerm r1, aer_Success = False,
                            aer_ConflictIndex = ae_PrevLogIndex args, aer_LastLogIndex = lastLogIndex\<rparr>, r1)
                 else let r2 = r1\<lparr>log := merge_entries (ae_PrevLogIndex args + 1) (ae_Entries args) (log r1)\<rparr>
                      in go_bind
                           (if commitIndex r2 < ae_LeaderCommit args
                            then applyCommittedEntries True
                                   (r2\<lparr>commitIndex := min (ae_LeaderCommit args) (length (log r2) - 1)\<rparr>)
                            else Ret r2)
                           (\<lambda>r3. let r4 = saveState r3
                                 in Ret (\<lparr>aer_Term = currentTerm r4, aer_Success = True, aer_ConflictIndex = 0,
                                          aer_LastLogIndex = length (log r3) - 1\<rparr>, r4)))"

section \<open>Snapshots\<close>

definition createSnapshot :: "bool \<Rightarrow> RaftNode \<Rightarrow> LogEntry gob list go" where
  "createSnapshot held r = (if held then Deadlock else Ret (gob_encode (gobTypeId r) (log r)))"

text \<open>\<open>sendSnapshot\<close> up to the call; it holds \<open>r.mu\<close> when it calls \<open>createSnapshot\<close>.\<close>

definition sendSnapshot_plan :: "string \<Rightarrow> RaftNode \<Rightarrow> InstallSnapshotArgs option go" where
  "sendSnapshot_plan peerAddr r =
     (if state r \<noteq> Leader then Ret None
      else let lastIndex = length (log r) - 1; lastTerm = le_Term (log r ! lastIndex)
           in go_bind (createSnapshot True r)
                (\<lambda>data. Ret (Some \<lparr>is_Term = currentTerm r, is_LeaderId = selfAddr r,
                                   is_LastIncludedIndex = lastIndex, is_LastIncludedTerm = lastTerm,
                                   is_Data = data\<rparr>)))"

definition handleSnapshotReply :: "string \<Rightarrow> nat \<Rightarrow> InstallSnapshotReply \<Rightarrow> RaftNode \<Rightarrow> RaftNode" where
  "handleSnapshotReply peerAddr lastIndex reply r =
     (if currentTerm r < isr_Term reply then becomeFollower (isr_Term reply) r
      else if isr_Success reply
      then r\<lparr>nextIndex := put peerAddr (lastIndex + 1) (nextIndex r),
             matchIndex := put peerAddr lastIndex (matchIndex r)\<rparr>
      else r)"

definition InstallSnapshot :: "InstallSnapshotArgs \<Rightarrow> RaftNode \<Rightarrow> InstallSnapshotReply \<times> RaftNode" where
  "InstallSnapshot args r =
     (if is_Term args < currentTerm r then (\<lparr>isr_Term = currentTerm r, isr_Success = False\<rparr>, r)
      else let r1 = (if currentTerm r < is_Term args then becomeFollower (is_Term args) r else r)
           in if is_LastIncludedIndex args \<le> commitIndex r1
              then (\<lparr>isr_Term = currentTerm r1, isr_Success = True\<rparr>, r1)
              else let r2 = saveState
                         (r1\<lparr>log := take 1 (log r1) @ gob_decode [] (is_Data args),
                             lastApplied := is_LastIncludedIndex args,
                             commitIndex := is_LastIncludedIndex args,
                             persistedIndex := is_LastIncludedIndex args\<rparr>)
                   in (\<lparr>isr_Term = currentTerm r2, isr_Success = True\<rparr>, r2))"

end
