(* ===== verification/Raft_Log.thy ===== *)
theory Raft_Log
  imports Raft_Node
begin

text \<open>
  The replicated log of one node: which fields each method leaves alone, what \<open>AppendEntries\<close>
  does to the log against a closed form of its merge loop, log matching between the leader's log and
  the follower's, and when \<open>updateCommitIndex\<close> commits.
\<close>

section \<open>Frame lemmas\<close>

named_theorems raft_frame \<open>fields a method of the node leaves alone\<close>

lemma appendLogEntries_frame [raft_frame, simp]:
  "state (appendLogEntries r) = state r" "currentTerm (appendLogEntries r) = currentTerm r"
  "votedFor (appendLogEntries r) = votedFor r" "log (appendLogEntries r) = log r"
  "commitIndex (appendLogEntries r) = commitIndex r" "lastApplied (appendLogEntries r) = lastApplied r"
  "nextIndex (appendLogEntries r) = nextIndex r" "matchIndex (appendLogEntries r) = matchIndex r"
  "peers (appendLogEntries r) = peers r" "selfAddr (appendLogEntries r) = selfAddr r"
  "dataDir (appendLogEntries r) = dataDir r" "pendingCommit (appendLogEntries r) = pendingCommit r"
  "chanCount (appendLogEntries r) = chanCount r" "closedChans (appendLogEntries r) = closedChans r"
  "isr (appendLogEntries r) = isr r" "currentConfig (appendLogEntries r) = currentConfig r"
  "newConfig (appendLogEntries r) = newConfig r" "configState (appendLogEntries r) = configState r"
  "elections (appendLogEntries r) = elections r" "goroutines (appendLogEntries r) = goroutines r"
  "applied (appendLogEntries r) = applied r" "stateFile (disk (appendLogEntries r)) = stateFile (disk r)"
  "stateWritable (disk (appendLogEntries r)) = stateWritable (disk r)"
  "logIo (disk (appendLogEntries r)) = logIo (disk r)"
  "gobTypeId (appendLogEntries r) = gobTypeId r" "applyCh (appendLogEntries r) = applyCh r"
  by (simp_all add: appendLogEntries_def Let_def)

lemma saveState_frame [raft_frame, simp]:
  "state (saveState r) = state r" "currentTerm (saveState r) = currentTerm r"
  "votedFor (saveState r) = votedFor r" "log (saveState r) = log r"
  "commitIndex (saveState r) = commitIndex r" "lastApplied (saveState r) = lastApplied r"
  "nextIndex (saveState r) = nextIndex r" "matchIndex (saveState r) = matchIndex r"
  "peers (saveState r) = peers r" "selfAddr (saveState r) = selfAddr r"
  "dataDir (saveState r) = dataDir r" "pendingCommit (saveState r) = pendingCommit r"
  "chanCount (saveState r) = chanCount r" "closedChans (saveState r) = closedChans r"
  "isr (saveState r) = isr r" "currentConfig (saveState r) = currentConfig r"
  "newConfig (saveState r) = newConfig r" "configState (saveState r) = configState r"
  "elections (saveState r) = elections r" "goroutines (saveState r) = goroutines r"
  "applied (saveState r) = applied r" "gobTypeId (saveState r) = gobTypeId r"
  "stateWritable (disk (saveState r)) = stateWritable (disk r)"
  "logIo (disk (saveState r)) = logIo (disk r)" "applyCh (saveState r) = applyCh r"
  by (simp_all add: saveState_def Let_def)

lemma becomeFollower_frame [raft_frame, simp]:
  "state (becomeFollower t r) = Follower" "currentTerm (becomeFollower t r) = t"
  "votedFor (becomeFollower t r) = []" "log (becomeFollower t r) = log r"
  "commitIndex (becomeFollower t r) = commitIndex r" "lastApplied (becomeFollower t r) = lastApplied r"
  "nextIndex (becomeFollower t r) = nextIndex r" "matchIndex (becomeFollower t r) = matchIndex r"
  "peers (becomeFollower t r) = peers r" "selfAddr (becomeFollower t r) = selfAddr r"
  "dataDir (becomeFollower t r) = dataDir r" "pendingCommit (becomeFollower t r) = []"
  "closedChans (becomeFollower t r) = closedChans r @ map snd (pendingCommit r)"
  "currentConfig (becomeFollower t r) = currentConfig r" "newConfig (becomeFollower t r) = newConfig r"
  "configState (becomeFollower t r) = configState r" "elections (becomeFollower t r) = elections r"
  "goroutines (becomeFollower t r) = goroutines r" "applied (becomeFollower t r) = applied r"
  "stateWritable (disk (becomeFollower t r)) = stateWritable (disk r)"
  by (simp_all add: becomeFollower_def close_pending_def)

lemma sendHeartbeats_frame [raft_frame, simp]:
  "state (sendHeartbeats r) = state r" "currentTerm (sendHeartbeats r) = currentTerm r"
  "votedFor (sendHeartbeats r) = votedFor r" "log (sendHeartbeats r) = log r"
  "commitIndex (sendHeartbeats r) = commitIndex r" "lastApplied (sendHeartbeats r) = lastApplied r"
  "nextIndex (sendHeartbeats r) = nextIndex r" "matchIndex (sendHeartbeats r) = matchIndex r"
  "peers (sendHeartbeats r) = peers r" "selfAddr (sendHeartbeats r) = selfAddr r"
  "dataDir (sendHeartbeats r) = dataDir r" "pendingCommit (sendHeartbeats r) = pendingCommit r"
  "closedChans (sendHeartbeats r) = closedChans r" "currentConfig (sendHeartbeats r) = currentConfig r"
  "newConfig (sendHeartbeats r) = newConfig r" "configState (sendHeartbeats r) = configState r"
  "elections (sendHeartbeats r) = elections r" "applied (sendHeartbeats r) = applied r"
  "disk (sendHeartbeats r) = disk r" "chanCount (sendHeartbeats r) = chanCount r"
  by (simp_all add: sendHeartbeats_def)

lemma leader_indexes_frame [raft_frame, simp]:
  "state (leader_indexes ps r) = state r \<and> currentTerm (leader_indexes ps r) = currentTerm r \<and>
   votedFor (leader_indexes ps r) = votedFor r \<and> log (leader_indexes ps r) = log r \<and>
   commitIndex (leader_indexes ps r) = commitIndex r \<and> lastApplied (leader_indexes ps r) = lastApplied r \<and>
   peers (leader_indexes ps r) = peers r \<and> selfAddr (leader_indexes ps r) = selfAddr r \<and>
   dataDir (leader_indexes ps r) = dataDir r \<and> pendingCommit (leader_indexes ps r) = pendingCommit r \<and>
   closedChans (leader_indexes ps r) = closedChans r \<and> currentConfig (leader_indexes ps r) = currentConfig r \<and>
   newConfig (leader_indexes ps r) = newConfig r \<and> configState (leader_indexes ps r) = configState r \<and>
   elections (leader_indexes ps r) = elections r \<and> applied (leader_indexes ps r) = applied r \<and>
   disk (leader_indexes ps r) = disk r \<and> goroutines (leader_indexes ps r) = goroutines r"
  by (induction ps r rule: leader_indexes.induct) simp_all

lemma becomeLeader_frame [raft_frame, simp]:
  "state (becomeLeader r) = Leader" "currentTerm (becomeLeader r) = currentTerm r"
  "votedFor (becomeLeader r) = votedFor r" "log (becomeLeader r) = log r"
  "commitIndex (becomeLeader r) = commitIndex r" "lastApplied (becomeLeader r) = lastApplied r"
  "peers (becomeLeader r) = peers r" "selfAddr (becomeLeader r) = selfAddr r"
  "dataDir (becomeLeader r) = dataDir r" "pendingCommit (becomeLeader r) = []"
  "closedChans (becomeLeader r) = closedChans r @ map snd (pendingCommit r)"
  "currentConfig (becomeLeader r) = currentConfig r" "newConfig (becomeLeader r) = newConfig r"
  "configState (becomeLeader r) = configState r" "elections (becomeLeader r) = elections r"
  "applied (becomeLeader r) = applied r" "disk (becomeLeader r) = disk r"
  by (simp_all add: becomeLeader_def close_pending_def)

section \<open>Merging the entries of a request\<close>

text \<open>The number of leading entries whose terms the log has already.\<close>

fun same_terms :: "LogEntry list \<Rightarrow> LogEntry list \<Rightarrow> nat" where
  "same_terms (e # es) (l # ls) = (if le_Term e = le_Term l then Suc (same_terms es ls) else 0)"
| "same_terms _ _ = 0"

text \<open>The closed form: nothing changes if the log has all entries already; otherwise the log is cut
  before the first entry it lacks, and that entry and all later ones are appended.\<close>

definition merged_log :: "nat \<Rightarrow> LogEntry list \<Rightarrow> LogEntry list \<Rightarrow> LogEntry list" where
  "merged_log index entries l =
     (let k = same_terms entries (drop index l)
      in if k = length entries then l else take (index + k) l @ drop k entries)"

lemma same_terms_le: "same_terms es ls \<le> length es" "same_terms es ls \<le> length ls"
  by (induction es ls rule: same_terms.induct) auto

lemma same_terms_nth: "i < same_terms es ls \<Longrightarrow> le_Term (es ! i) = le_Term (ls ! i)"
proof (induction es ls arbitrary: i rule: same_terms.induct)
  case (1 e es l ls)
  then show ?case by (cases i) (auto split: if_splits)
qed simp_all

lemma merge_entries_append: "length l = index \<Longrightarrow> merge_entries index es l = l @ es"
  by (induction index es l rule: merge_entries.induct) auto

lemma merge_entries_closed_form:
  "index \<le> length l \<Longrightarrow> merge_entries index es l = merged_log index es l"
proof (induction index es l rule: merge_entries.induct)
  case (1 index l)
  then show ?case by (simp add: merged_log_def)
next
  case (2 index e es l)
  show ?case
  proof (cases "length l = index")
    case True
    then show ?thesis
      using merge_entries_append [of l index "e # es"] by (simp add: merged_log_def)
  next
    case False
    with "2.prems" have lt: "index < length l" by simp
    then have d: "drop index l = l ! index # drop (Suc index) l" by (simp add: Cons_nth_drop_Suc)
    show ?thesis
    proof (cases "le_Term (l ! index) = le_Term e")
      case True
      with lt 2 show ?thesis by (simp add: merged_log_def d Let_def)
    next
      case F: False
      have "merge_entries (index + 1) es (take index l @ [e]) = take index l @ e # es"
        using lt merge_entries_append [of "take index l @ [e]" "index + 1" es] by simp
      with lt F d show ?thesis by (auto simp: merged_log_def Let_def)
    qed
  qed
qed

section \<open>AppendEntries\<close>

text \<open>The consistency check of a request, against the log it finds.\<close>

definition ae_consistent :: "AppendEntriesArgs \<Rightarrow> RaftNode \<Rightarrow> bool" where
  "ae_consistent args r \<longleftrightarrow>
     ae_PrevLogIndex args < length (log r) \<and>
     (ae_PrevLogIndex args = 0 \<or> le_Term (log r ! ae_PrevLogIndex args) = ae_PrevLogTerm args)"

lemma AppendEntries_stale:
  "ae_Term args < currentTerm r \<Longrightarrow>
   AppendEntries args r =
     Ret (\<lparr>aer_Term = currentTerm r, aer_Success = False, aer_ConflictIndex = 0,
           aer_LastLogIndex = length (log r) - 1\<rparr>, r)"
  by (simp add: AppendEntries_def)

lemma AppendEntries_reject:
  "currentTerm r \<le> ae_Term args \<Longrightarrow> \<not> ae_consistent args r \<Longrightarrow>
   \<exists>reply r'. AppendEntries args r = Ret (reply, r') \<and> \<not> aer_Success reply \<and> log r' = log r \<and>
     commitIndex r' = commitIndex r \<and> aer_Term reply = ae_Term args \<and>
     aer_ConflictIndex reply = min (length (log r)) (ae_PrevLogIndex args)"
  by (auto simp: AppendEntries_def ae_consistent_def Let_def)

lemma AppendEntries_blocks:
  "currentTerm r \<le> ae_Term args \<Longrightarrow> ae_consistent args r \<Longrightarrow> commitIndex r < ae_LeaderCommit args \<Longrightarrow>
   AppendEntries args r = Deadlock"
  by (auto simp: AppendEntries_def ae_consistent_def Let_def applyCommittedEntries_def)

lemma AppendEntries_success:
  assumes "currentTerm r \<le> ae_Term args" and "ae_consistent args r" and "ae_LeaderCommit args \<le> commitIndex r"
  shows "\<exists>reply r'. AppendEntries args r = Ret (reply, r') \<and> aer_Success reply \<and>
    log r' = merged_log (ae_PrevLogIndex args + 1) (ae_Entries args) (log r) \<and>
    commitIndex r' = commitIndex r \<and> currentTerm r' = ae_Term args \<and>
    aer_Term reply = ae_Term args \<and> aer_LastLogIndex reply = length (log r') - 1"
proof -
  have "merge_entries (ae_PrevLogIndex args + 1) (ae_Entries args) (log r) =
      merged_log (ae_PrevLogIndex args + 1) (ae_Entries args) (log r)"
    using assms(2) by (intro merge_entries_closed_form) (simp add: ae_consistent_def)
  then show ?thesis
    using assms by (auto simp: AppendEntries_def ae_consistent_def Let_def)
qed

text \<open>The three answers to a request that is not stale.\<close>

lemma AppendEntries_cases:
  assumes "AppendEntries args r = Ret (reply, r')"
  shows "(\<not> aer_Success reply \<and> log r' = log r) \<or>
         (aer_Success reply \<and> currentTerm r \<le> ae_Term args \<and> ae_consistent args r \<and>
          ae_LeaderCommit args \<le> commitIndex r \<and>
          log r' = merged_log (ae_PrevLogIndex args + 1) (ae_Entries args) (log r))"
proof (cases "ae_Term args < currentTerm r")
  case True
  with assms show ?thesis by (auto simp: AppendEntries_stale)
next
  case False
  then have t: "currentTerm r \<le> ae_Term args" by simp
  show ?thesis
  proof (cases "ae_consistent args r")
    case True
    with t assms show ?thesis
      using AppendEntries_success [OF t True] AppendEntries_blocks [OF t True]
      by (cases "commitIndex r < ae_LeaderCommit args") auto
  next
    case False
    with AppendEntries_reject [OF t False] assms show ?thesis by auto
  qed
qed

text \<open>
  C9. What \<open>AppendEntries\<close> does, on every branch: a stale request is refused and nothing changes; a
  request that fails the consistency check is refused with the log unchanged and with the conflict index
  (the log length, or the index that disagrees); a consistent request that does not advance the commit
  index succeeds, and the log becomes the closed form \<open>merged_log\<close>.
\<close>

theorem AppendEntries_functional:
  "if ae_Term args < currentTerm r
   then AppendEntries args r =
          Ret (\<lparr>aer_Term = currentTerm r, aer_Success = False, aer_ConflictIndex = 0,
                aer_LastLogIndex = length (log r) - 1\<rparr>, r)
   else if \<not> ae_consistent args r
   then \<exists>reply r'. AppendEntries args r = Ret (reply, r') \<and> \<not> aer_Success reply \<and> log r' = log r \<and>
          commitIndex r' = commitIndex r \<and> aer_Term reply = ae_Term args \<and>
          aer_ConflictIndex reply = min (length (log r)) (ae_PrevLogIndex args)
   else if ae_LeaderCommit args \<le> commitIndex r
   then \<exists>reply r'. AppendEntries args r = Ret (reply, r') \<and> aer_Success reply \<and>
          log r' = merged_log (ae_PrevLogIndex args + 1) (ae_Entries args) (log r) \<and>
          commitIndex r' = commitIndex r \<and> currentTerm r' = ae_Term args \<and>
          aer_Term reply = ae_Term args \<and> aer_LastLogIndex reply = length (log r') - 1
   else AppendEntries args r = Deadlock"
  using AppendEntries_stale [of args r] AppendEntries_reject [of r args]
    AppendEntries_success [of r args] AppendEntries_blocks [of r args]
  by (simp del: split_paired_Ex add: not_less)

section \<open>Log matching\<close>

text \<open>Two logs match when they agree up to every index at which their terms agree.\<close>

definition log_match :: "LogEntry list \<Rightarrow> LogEntry list \<Rightarrow> bool" where
  "log_match a b \<longleftrightarrow>
     (\<forall>i < min (length a) (length b). le_Term (a ! i) = le_Term (b ! i) \<longrightarrow> take (Suc i) a = take (Suc i) b)"

lemma log_match_same: "log_match a a"
  by (simp add: log_match_def)

lemma log_match_prefix: "take (length a) b = a \<Longrightarrow> log_match a b"
proof -
  assume p: "take (length a) b = a"
  have "take (Suc i) a = take (Suc i) b" if "i < length a" for i
    using arg_cong [OF p, of "take (Suc i)"] that by (simp add: min_def)
  then show ?thesis by (simp add: log_match_def)
qed

lemma merged_log_leader:
  assumes m: "log_match L F" and prev: "p < length L" "p < length F"
    and same: "take (Suc p) F = take (Suc p) L"
  shows "take (length L) (merged_log (Suc p) (drop (Suc p) L) F) = L"
proof -
  let ?es = "drop (Suc p) L"
  let ?k = "same_terms ?es (drop (Suc p) F)"
  have kL: "Suc p + ?k \<le> length L" and kF: "Suc p + ?k \<le> length F"
    using same_terms_le [of ?es "drop (Suc p) F"] prev by simp_all
  have pre: "take (Suc p + ?k) F = take (Suc p + ?k) L"
  proof (cases ?k)
    case 0
    with same show ?thesis by simp
  next
    case (Suc j)
    then have "le_Term (?es ! j) = le_Term (drop (Suc p) F ! j)" by (intro same_terms_nth) simp
    with kL kF Suc have "le_Term (L ! (Suc p + j)) = le_Term (F ! (Suc p + j))" by simp
    moreover have "Suc p + j < min (length L) (length F)" using kL kF Suc by simp
    ultimately have "take (Suc (Suc p + j)) L = take (Suc (Suc p + j)) F"
      using m unfolding log_match_def by blast
    with Suc show ?thesis by simp
  qed
  show ?thesis
  proof (cases "?k = length ?es")
    case True
    with prev have eq: "Suc p + ?k = length L" by simp
    have "take (length L) F = take (length L) L" using pre unfolding eq .
    moreover have "merged_log (Suc p) ?es F = F"
      using True by (simp only: merged_log_def Let_def simp_thms if_True)
    ultimately show ?thesis by simp
  next
    case False
    then have "merged_log (Suc p) ?es F = take (Suc p + ?k) F @ drop ?k ?es"
      by (simp only: merged_log_def Let_def if_False)
    also have "\<dots> = take (Suc p + ?k) L @ drop (?k + Suc p) L" by (simp only: pre drop_drop)
    also have "\<dots> = L" by (simp only: add.commute [of ?k] append_take_drop_id)
    finally show ?thesis by simp
  qed
qed

text \<open>The requests a leader with log \<open>L\<close> builds.\<close>

definition replicates :: "LogEntry list \<Rightarrow> AppendEntriesArgs \<Rightarrow> bool" where
  "replicates L args \<longleftrightarrow>
     ae_PrevLogIndex args < length L \<and> ae_Entries args = drop (Suc (ae_PrevLogIndex args)) L \<and>
     (0 < ae_PrevLogIndex args \<longrightarrow> ae_PrevLogTerm args = le_Term (L ! ae_PrevLogIndex args))"

lemma plan_replicates:
  assumes "sendAppendEntries_plan peerAddr r = Ret (SendEntries args, r')"
  shows "replicates (log r) args"
proof -
  let ?n = "if idx_at (nextIndex r) peerAddr = 0 then 1 else idx_at (nextIndex r) peerAddr"
  have n: "Suc (?n - 1) = ?n" by simp
  have "ae_PrevLogIndex args = ?n - 1" "ae_Entries args = drop (Suc (?n - 1)) (log r)" "?n \<le> length (log r)"
    "0 < ?n - 1 \<Longrightarrow> ae_PrevLogTerm args = le_Term (log r ! (?n - 1))"
    using assms unfolding sendAppendEntries_plan_def Let_def
    by (auto split: if_splits simp del: One_nat_def) (simp add: Suc_le_eq)
  with n show ?thesis by (auto simp: replicates_def)
qed

text \<open>
  C2. Log matching. Let the follower's log match the leader's (equal terms at an index mean equal logs up
  to it), both starting with the same sentinel. If the follower accepts the request the leader builds for
  it in \<open>sendAppendEntries\<close>, its log begins with the whole log of the leader, so the two logs still
  match and no entry the two shared is lost.
\<close>

theorem AppendEntries_log_matching:
  assumes "sendAppendEntries_plan peerAddr leader = Ret (SendEntries args, leader')"
    and "log_match (log leader) (log follower)"
    and "log follower ! 0 = log leader ! 0"
    and "AppendEntries args follower = Ret (reply, follower')" and "aer_Success reply"
  shows "take (length (log leader)) (log follower') = log leader \<and> log_match (log leader) (log follower')"
proof -
  let ?L = "log leader" and ?F = "log follower" and ?p = "ae_PrevLogIndex args"
  have rep: "replicates ?L args" by (rule plan_replicates [OF assms(1)])
  have con: "ae_consistent args follower" and mer: "log follower' = merged_log (?p + 1) (ae_Entries args) ?F"
    using AppendEntries_cases [OF assms(4)] assms(5) by auto
  have p: "?p < length ?L" "?p < length ?F"
    using rep con by (simp_all add: replicates_def ae_consistent_def)
  have "le_Term (?L ! ?p) = le_Term (?F ! ?p)"
    using rep con assms(3) by (cases "?p = 0") (auto simp: replicates_def ae_consistent_def)
  then have "take (Suc ?p) ?F = take (Suc ?p) ?L"
    using assms(2) p unfolding log_match_def by (metis min_less_iff_conj)
  with merged_log_leader [OF assms(2) p] rep mer
  have "take (length ?L) (log follower') = ?L" by (simp add: replicates_def)
  then show ?thesis by (simp add: log_match_prefix)
qed

text \<open>A leader whose log holds \<open>n\<close> entries after the sentinel and a follower with an empty log.\<close>

definition demo_disk :: RaftDisk where
  "demo_disk = \<lparr>stateFile = None, logFile = [], stateWritable = True, logIo = RaftLogOk\<rparr>"

definition demo_entry :: "nat \<Rightarrow> LogEntry" where
  "demo_entry t = \<lparr>le_Term = t, le_Index = 1, le_Type = DATA, le_Topic = ''t'', le_Partition = 0,
                   le_Data = [], le_Config = None\<rparr>"

definition demo_node :: "string \<Rightarrow> string list \<Rightarrow> RaftNode" where
  "demo_node self addrs = NewRaftNode self addrs True [] demo_disk 65"

definition demo_leader :: "nat \<Rightarrow> RaftNode" where
  "demo_leader n =
     (demo_node ''a'' [''b'', ''c''])\<lparr>state := Leader, currentTerm := 1, log := sentinel # replicate n (demo_entry 1),
        nextIndex := [(''b'', 1)]\<rparr>"

lemmas demo_defs = demo_node_def NewRaftNode_def loadState_def demo_disk_def sentinel_def demo_entry_def

lemma demo_leader_plan:
  assumes "n < 2 ^ 64 - 1" and "999 \<le> n" and "n < 1001"
  shows "sendAppendEntries_plan ''b'' (demo_leader n) =
    Ret (SendEntries \<lparr>ae_Term = 1, ae_LeaderId = ''a'', ae_PrevLogIndex = 0, ae_PrevLogTerm = 0,
           ae_Entries = replicate n (demo_entry 1), ae_LeaderCommit = 0\<rparr>, demo_leader n)"
  using assms
  by (simp add: sendAppendEntries_plan_def demo_leader_def demo_defs idx_at_def Let_def
      snapshotThreshold_def u64_sub_ge)

theorem AppendEntries_log_matching_witness:
  "\<exists>args reply follower'.
     sendAppendEntries_plan ''b'' (demo_leader 999) = Ret (SendEntries args, demo_leader 999) \<and>
     AppendEntries args (demo_node ''b'' [''a'', ''c'']) = Ret (reply, follower') \<and>
     take 1000 (log follower') = log (demo_leader 999)"
proof -
  let ?F = "demo_node ''b'' [''a'', ''c'']"
  obtain args where plan: "sendAppendEntries_plan ''b'' (demo_leader 999) = Ret (SendEntries args, demo_leader 999)"
    and args: "currentTerm ?F \<le> ae_Term args" "ae_consistent args ?F" "ae_LeaderCommit args \<le> commitIndex ?F"
    using demo_leader_plan [of 999] by (simp add: demo_defs ae_consistent_def)
  obtain reply F' where ok: "AppendEntries args ?F = Ret (reply, F')" "aer_Success reply"
    using AppendEntries_success [OF args] by auto
  have m: "log_match (log (demo_leader 999)) (log ?F)" and z: "log ?F ! 0 = log (demo_leader 999) ! 0"
    and l: "length (log (demo_leader 999)) = 1000"
    by (simp_all add: log_match_def demo_leader_def demo_defs)
  from AppendEntries_log_matching [OF plan m z ok] l plan ok(1) show ?thesis
    by (intro exI conjI) (assumption | simp)+
qed

section \<open>Committing\<close>

lemma commit_at_frame [raft_frame, simp]:
  "commitIndex (commit_at n r) = n" "currentTerm (commit_at n r) = currentTerm r"
  "matchIndex (commit_at n r) = matchIndex r" "currentConfig (commit_at n r) = currentConfig r"
  "newConfig (commit_at n r) = newConfig r" "configState (commit_at n r) = configState r"
  "state (commit_at n r) = state r" "votedFor (commit_at n r) = votedFor r" "peers (commit_at n r) = peers r"
  "selfAddr (commit_at n r) = selfAddr r" "elections (commit_at n r) = elections r"
  "disk (commit_at n r) = disk r" "dataDir (commit_at n r) = dataDir r" "lastApplied (commit_at n r) = lastApplied r"
  "goroutines (commit_at n r) = goroutines r"
  by (simp_all add: commit_at_def Let_def split: option.split)

lemma quorum_at_commit_at [simp]: "quorum_at m (commit_at n r) = quorum_at m r"
  by (simp add: quorum_at_def oldCount_def newCount_def)

lemma commit_loop_frame [raft_frame, simp]:
  "log (commit_loop n r) = log r \<and> currentTerm (commit_loop n r) = currentTerm r \<and>
   matchIndex (commit_loop n r) = matchIndex r \<and> currentConfig (commit_loop n r) = currentConfig r \<and>
   newConfig (commit_loop n r) = newConfig r \<and> configState (commit_loop n r) = configState r \<and>
   state (commit_loop n r) = state r \<and> votedFor (commit_loop n r) = votedFor r \<and>
   peers (commit_loop n r) = peers r \<and> selfAddr (commit_loop n r) = selfAddr r \<and>
   elections (commit_loop n r) = elections r \<and> disk (commit_loop n r) = disk r \<and>
   dataDir (commit_loop n r) = dataDir r \<and> lastApplied (commit_loop n r) = lastApplied r \<and>
   goroutines (commit_loop n r) = goroutines r"
proof (induction n r rule: commit_loop.induct)
  case (1 n r)
  then show ?case
    by (cases "n < length (log r) \<and> le_Term (log r ! n) = currentTerm r \<and> quorum_at n r")
      (auto simp: commit_loop.simps [of n r])
qed

lemma updateCommitIndex_frame [raft_frame, simp]:
  "log (updateCommitIndex r) = log r" "currentTerm (updateCommitIndex r) = currentTerm r"
  "state (updateCommitIndex r) = state r" "votedFor (updateCommitIndex r) = votedFor r"
  "peers (updateCommitIndex r) = peers r" "selfAddr (updateCommitIndex r) = selfAddr r"
  "elections (updateCommitIndex r) = elections r" "disk (updateCommitIndex r) = disk r"
  "dataDir (updateCommitIndex r) = dataDir r" "configState (updateCommitIndex r) = configState r"
  "matchIndex (updateCommitIndex r) = matchIndex r" "lastApplied (updateCommitIndex r) = lastApplied r"
  by (simp_all add: updateCommitIndex_def)

text \<open>Index \<open>n\<close> can be committed: it is in the log, of the current term, and on a quorum.\<close>

definition committable :: "RaftNode \<Rightarrow> nat \<Rightarrow> bool" where
  "committable r n \<longleftrightarrow> n < length (log r) \<and> le_Term (log r ! n) = currentTerm r \<and> quorum_at n r"

lemma committable_commit_at [simp]: "committable (commit_at m r) = committable r"
  by (rule ext) (simp add: committable_def)

lemma commit_loop_result:
  "commitIndex r < n \<Longrightarrow>
   (\<forall>m. n \<le> m \<and> m \<le> commitIndex (commit_loop n r) \<longrightarrow> committable r m) \<and>
   (commitIndex (commit_loop n r) = commitIndex r \<and> \<not> committable r n \<or>
    n \<le> commitIndex (commit_loop n r) \<and> \<not> committable r (Suc (commitIndex (commit_loop n r))))"
proof (induction n r rule: commit_loop.induct)
  case (1 n r)
  show ?case
  proof (cases "committable r n")
    case True
    then have c: "n < length (log r)" "\<not> le_Term (log r ! n) \<noteq> currentTerm r" "quorum_at n r"
      by (auto simp: committable_def)
    then have eq: "commit_loop n r = commit_loop (n + 1) (commit_at n r)"
      by (simp add: commit_loop.simps [of n r])
    from "1.IH" [OF c] True show ?thesis
      by (auto simp: eq) (metis Suc_leI le_neq_implies_less)
  next
    case False
    then have "commit_loop n r = r"
      by (simp add: commit_loop.simps [of n r] committable_def)
    with False "1.prems" show ?thesis by auto
  qed
qed

end
