(* ===== verification/Quorums.thy ===== *)
theory Quorums
  imports Go_Prelude
begin

text \<open>
  Majorities, the interface between the counting code of the Raft node (\<open>startElection\<close>,
  \<open>updateCommitIndex\<close>) and the arguments about two decisions of one configuration: what the
  clients need is that two quorums of the same configuration share a member.
\<close>

locale quorum_system =
  fixes quorum :: "'c \<Rightarrow> 'a set \<Rightarrow> bool"
  assumes quorum_intersect: "quorum c A \<Longrightarrow> quorum c B \<Longrightarrow> A \<inter> B \<noteq> {}"
begin

lemma quorum_nonempty: "quorum c A \<Longrightarrow> A \<noteq> {}"
  using quorum_intersect [of c A A] by auto

text \<open>If the members of a quorum all chose \<open>x\<close>, those of another all \<open>y\<close>, and nobody chooses
  twice, the choices agree.\<close>

lemma choice_unique:
  assumes "quorum c A" and "quorum c B"
    and "\<And>v. v \<in> A \<Longrightarrow> chose v x" and "\<And>v. v \<in> B \<Longrightarrow> chose v y"
    and "\<And>v a b. chose v a \<Longrightarrow> chose v b \<Longrightarrow> a = b"
  shows "x = y"
proof -
  obtain v where "v \<in> A" "v \<in> B" using quorum_intersect [OF assms(1,2)] by auto
  then show ?thesis using assms(3-5) by blast
qed

end

text \<open>The quorums the code counts: more than half of a finite set of addresses.\<close>

definition majority :: "'a set \<Rightarrow> 'a set \<Rightarrow> bool" where
  "majority members A \<longleftrightarrow> finite members \<and> A \<subseteq> members \<and> card members < 2 * card A"

interpretation maj: quorum_system majority
proof unfold_locales
  fix M A B :: "'a set" assume "majority M A" "majority M B"
  then have fin: "finite M" and sub: "A \<subseteq> M" "B \<subseteq> M"
    and c: "card M < 2 * card A" "card M < 2 * card B"
    by (auto simp: majority_def)
  show "A \<inter> B \<noteq> {}"
  proof
    assume "A \<inter> B = {}"
    then have "card (A \<union> B) = card A + card B"
      using fin sub by (intro card_Un_disjoint) (auto intro: finite_subset)
    moreover have "card (A \<union> B) \<le> card M" using fin sub by (intro card_mono) auto
    ultimately show False using c by linarith
  qed
qed

text \<open>Counting the entries of a map that satisfy a predicate is counting its keys.\<close>

lemma length_filter_keys:
  assumes "gm_ok m"
  shows "length (filter (\<lambda>(k, v). P k v) m) = card {k. \<exists>v. map_of m k = Some v \<and> P k v}"
proof -
  let ?f = "filter (\<lambda>(k, v). P k v) m"
  have d: "distinct (map fst ?f)" using assms by (rule distinct_map_filter)
  then have "length ?f = card (set (map fst ?f))" by (metis distinct_card length_map)
  also have "set (map fst ?f) = {k. \<exists>v. map_of m k = Some v \<and> P k v}"
    using assms by (force simp: image_iff)
  finally show ?thesis .
qed

end
