(* ===== verification/Raft_Commit.thy ===== *)
theory Raft_Commit
  imports Raft_Log Quorums
begin

text \<open>
  When a leader commits (\<open>updateCommitIndex\<close>): only entries of its own term that a majority of the
  configuration holds, without gaps; and when it never commits.
\<close>

definition cfg_members :: "(string, bool) gomap \<Rightarrow> string set" where
  "cfg_members m = {a. cfg_in m a}"

text \<open>The other members that hold index \<open>n\<close> according to \<open>matchIndex\<close>, and those with the leader.\<close>

definition followers_with :: "(string, bool) gomap \<Rightarrow> RaftNode \<Rightarrow> nat \<Rightarrow> string set" where
  "followers_with cfg r n = {p. n \<le> idx_at (matchIndex r) p \<and> has (matchIndex r) p \<and> cfg_in cfg p}"

definition holders :: "(string, bool) gomap \<Rightarrow> RaftNode \<Rightarrow> nat \<Rightarrow> string set" where
  "holders cfg r n = insert (selfAddr r) (followers_with cfg r n)"

text \<open>How the code builds its maps: members are mapped to true, and the node keeps an index for others only.\<close>

definition cfg_sound :: "(string, bool) gomap \<Rightarrow> RaftNode \<Rightarrow> bool" where
  "cfg_sound cfg r \<longleftrightarrow> gm_ok cfg \<and> (\<forall>(a, b) \<in> set cfg. b) \<and> gm_ok (matchIndex r) \<and> \<not> has (matchIndex r) (selfAddr r)"

text \<open>The code counts the leader whether it is a member or not.\<close>

definition enough :: "(string, bool) gomap \<Rightarrow> RaftNode \<Rightarrow> nat \<Rightarrow> bool" where
  "enough cfg r n \<longleftrightarrow>
     (if cfg_in cfg (selfAddr r) then majority (cfg_members cfg) (holders cfg r n)
      else length cfg div 2 \<le> card (followers_with cfg r n))"

lemma cfg_members_card:
  assumes "gm_ok cfg" and "\<forall>(a, b) \<in> set cfg. b"
  shows "finite (cfg_members cfg) \<and> card (cfg_members cfg) = length cfg"
proof -
  have "map_of cfg a = Some True" if "a \<in> fst ` set cfg" for a
    using that assms(2) map_of_is_SomeI [OF assms(1)] by fastforce
  moreover have "a \<in> fst ` set cfg" if "map_of cfg a = Some True" for a
    using map_of_SomeD [OF that] by force
  ultimately have "cfg_members cfg = set (map fst cfg)"
    by (auto simp: cfg_members_def cfg_in_def)
  then show ?thesis using assms(1) by (metis distinct_card finite_set length_map)
qed

lemma count_followers:
  assumes "gm_ok (matchIndex r)"
  shows "length (filter (\<lambda>(p, idx). n \<le> idx \<and> cfg_in cfg p) (matchIndex r)) = card (followers_with cfg r n) \<and> finite (followers_with cfg r n)"
proof -
  let ?S = "{p. \<exists>idx. map_of (matchIndex r) p = Some idx \<and> n \<le> idx \<and> cfg_in cfg p}"
  have "followers_with cfg r n = ?S" by (auto simp: followers_with_def idx_at_def split: option.splits)
  moreover have "finite ?S" by (rule finite_subset [of _ "fst ` set (matchIndex r)"]) (force dest: map_of_SomeD)+
  ultimately show ?thesis using length_filter_keys [OF assms] by simp
qed

lemma count_enough:
  assumes ok: "cfg_sound cfg r"
    and q: "length cfg div 2 + 1 \<le> 1 + length (filter (\<lambda>(p, idx). n \<le> idx \<and> cfg_in cfg p) (matchIndex r))"
  shows "enough cfg r n"
proof -
  have c: "length cfg div 2 \<le> card (followers_with cfg r n)" "finite (followers_with cfg r n)"
    using q count_followers [of r n cfg] ok by (simp_all add: cfg_sound_def)
  have "majority (cfg_members cfg) (holders cfg r n)" if "cfg_in cfg (selfAddr r)"
  proof -
    have "finite (cfg_members cfg)" "card (cfg_members cfg) = length cfg"
      using cfg_members_card ok by (auto simp: cfg_sound_def)
    moreover have "holders cfg r n \<subseteq> cfg_members cfg"
      using that by (auto simp: holders_def followers_with_def cfg_members_def)
    moreover have "selfAddr r \<notin> followers_with cfg r n" using ok by (auto simp: cfg_sound_def followers_with_def)
    then have "length cfg div 2 + 1 \<le> card (holders cfg r n)" using c by (simp add: holders_def)
    ultimately show ?thesis by (simp add: majority_def)
  qed
  with c show ?thesis by (simp add: enough_def)
qed

lemma quorum_at_enough: "cfg_sound (currentConfig r) r \<Longrightarrow> quorum_at n r \<Longrightarrow> enough (currentConfig r) r n"
  by (rule count_enough) (auto simp: quorum_at_def oldCount_def Let_def split: if_splits)

lemma quorum_at_enough_joint:
  assumes "configState r = ConfigJoint" and "newConfig r = Some nc" and "cfg_sound nc r" and "quorum_at n r"
  shows "enough nc r n"
  using assms by (intro count_enough) (auto simp: quorum_at_def newCount_def nil_map_def Let_def)

lemma committed_enough:
  assumes "cfg_sound (currentConfig r) r"
    and "commitIndex r < n" and "n \<le> commitIndex (updateCommitIndex r)"
  shows "n < length (log r) \<and> le_Term (log r ! n) = currentTerm r \<and> enough (currentConfig r) r n \<and>
    (\<forall>nc. configState r = ConfigJoint \<and> newConfig r = Some nc \<and> cfg_sound nc r \<longrightarrow> enough nc r n)"
proof -
  have "n \<le> commitIndex (commit_loop (Suc (commitIndex r)) r)"
    using assms(3) by (simp add: updateCommitIndex_def)
  with commit_loop_result [of r "Suc (commitIndex r)"] assms(2) have c: "committable r n" by auto
  then have q: "quorum_at n r" by (simp add: committable_def)
  show ?thesis
    using c quorum_at_enough [OF assms(1) q] quorum_at_enough_joint [OF _ _ _ q]
    by (auto simp: committable_def)
qed

lemma updateCommitIndex_mono: "commitIndex r \<le> commitIndex (updateCommitIndex r)"
  using commit_loop_result [of r "Suc (commitIndex r)"] by (auto simp: updateCommitIndex_def)


definition commit_demo :: RaftNode where
  "commit_demo = (demo_leader 2)\<lparr>matchIndex := [(''b'', 2), (''c'', 0)]\<rparr>"


text \<open>A majority that holds a committed index and a majority that elects a leader of the same
  configuration share a node.\<close>

lemma commit_quorum_meets_vote_quorum:
  assumes "cfg_sound (currentConfig r) r" and "cfg_in (currentConfig r) (selfAddr r)"
    and "commitIndex r < n" and "n \<le> commitIndex (updateCommitIndex r)"
    and "majority (cfg_members (currentConfig r)) voters"
  shows "\<exists>v \<in> voters. v = selfAddr r \<or> n \<le> idx_at (matchIndex r) v"
proof -
  have "majority (cfg_members (currentConfig r)) (holders (currentConfig r) r n)"
    using committed_enough [OF assms(1,3,4)] assms(2) by (simp add: enough_def)
  from maj.quorum_intersect [OF this assms(5)] show ?thesis by (auto simp: holders_def followers_with_def)
qed

section \<open>A leader that removes itself\<close>

text \<open>
  C31. A leader that removes itself commits without a majority. In a joint configuration whose new members do not include the leader, take the entry behind the commit index: it
  is of the current term, the counted majority of the old members holds it, and exactly half of the new members (rounded down) do. Then \<open>updateCommitIndex\<close> commits it,
  although no majority of the new members holds it: the leader counts itself among them.
\<close>

theorem removed_leader_commits_without_majority:
  assumes "configState r = ConfigJoint" and "newConfig r = Some nc" and "cfg_sound nc r" and "\<not> cfg_in nc (selfAddr r)"
    and "n = Suc (commitIndex r)" and "n < length (log r)" and "le_Term (log r ! n) = currentTerm r"
    and "length (currentConfig r) div 2 + 1 \<le> oldCount n r" and "card (followers_with nc r n) = length nc div 2"
  shows "n \<le> commitIndex (updateCommitIndex r) \<and> \<not> majority (cfg_members nc) (followers_with nc r n) \<and>
    \<not> majority (cfg_members nc) (holders nc r n \<inter> cfg_members nc)"
proof -
  have c: "finite (cfg_members nc)" "card (cfg_members nc) = length nc" using cfg_members_card assms(3) by (auto simp: cfg_sound_def)
  have "newCount n r = 1 + length nc div 2"
    using count_followers [of r n nc] assms(2,3,9) by (simp add: newCount_def nil_map_def cfg_sound_def)
  then have "quorum_at n r" using assms(1,2,8) by (simp add: quorum_at_def nil_map_def Let_def)
  then have "commit_loop n r = commit_loop (n + 1) (commit_at n r)" using assms(6,7) by (subst commit_loop.simps) simp
  moreover have "commitIndex (commit_at n r) = n" by (simp add: commit_at_def Let_def split: option.split)
  ultimately have "n \<le> commitIndex (commit_loop n r)" using commit_loop_result [of "commit_at n r" "n + 1"] by auto
  then have "n \<le> commitIndex (updateCommitIndex r)" using assms(5) by (simp add: updateCommitIndex_def)
  moreover have "holders nc r n \<inter> cfg_members nc = followers_with nc r n"
    using assms(4) by (auto simp: holders_def cfg_members_def followers_with_def)
  moreover have "\<not> length nc < 2 * (length nc div 2)" by simp
  ultimately show ?thesis using c assms(9) by (simp add: majority_def)
qed

text \<open>The leader \<open>a\<close> of \<open>a\<close>, \<open>b\<close> and \<open>c\<close> is asked to remove itself; only \<open>b\<close> has its log.\<close>

definition removing_itself :: RaftNode where
  "removing_itself = snd (RemoveNode id id ''a'' ((demo_leader 2)\<lparr>matchIndex := [(''b'', 3), (''c'', 0)]\<rparr>))"

theorem removed_leader_commits_without_majority_witness:
  "map fst (nil_map (newConfig removing_itself)) = [''b'', ''c''] \<and> commitIndex removing_itself = 0 \<and>
   1 \<le> commitIndex (updateCommitIndex removing_itself) \<and>
   \<not> majority (cfg_members (nil_map (newConfig removing_itself))) (followers_with (nil_map (newConfig removing_itself)) removing_itself 1)"
proof -
  let ?nc = "[(''b'', True), (''c'', True)]"
  have r: "configState removing_itself = ConfigJoint" "newConfig removing_itself = Some ?nc" "commitIndex removing_itself = 0"
    "selfAddr removing_itself = ''a''" "matchIndex removing_itself = [(''b'', 3), (''c'', 0)]"
    "1 < length (log removing_itself)" "le_Term (log removing_itself ! 1) = currentTerm removing_itself"
    "length (currentConfig removing_itself) div 2 + 1 \<le> oldCount 1 removing_itself"
    by (simp_all add: removing_itself_def RemoveNode_def changeConfig_def demo_leader_def demo_defs cfg_in_def config_of_def oldCount_def Let_def nth_append)
  have "followers_with ?nc removing_itself 1 = {''b''}"
    using r(5) by (auto simp: followers_with_def idx_at_def cfg_in_def split: option.splits if_splits)
  then have "card (followers_with ?nc removing_itself 1) = length ?nc div 2" by simp
  moreover have "cfg_sound ?nc removing_itself" "\<not> cfg_in ?nc (selfAddr removing_itself)"
    using r(4,5) by (simp_all add: cfg_sound_def cfg_in_def)
  ultimately show ?thesis
    using removed_leader_commits_without_majority [OF r(1,2) _ _ _ r(6-8), of] r(2,3) by (simp add: nil_map_def)
qed

end
