(* ===== verification/Raft_Hazards.thy ===== *)
theory Raft_Hazards
  imports Raft_Commit
begin

text \<open>
  Exact statements of where the node departs from the Raft protocol: the vote condition, commit progress
  after a change of term, the in-sync set, the choice between entries and snapshot, the methods that block
  on the node's own mutex, and what a snapshot does to the log.
\<close>

section \<open>Votes\<close>

text \<open>The voter's log is ahead of the candidate's: a later last term, or the same and a longer log.\<close>

definition voter_ahead :: "RequestVoteArgs \<Rightarrow> RaftNode \<Rightarrow> bool" where
  "voter_ahead args r \<longleftrightarrow>
     rv_LastLogTerm args < le_Term (log r ! (length (log r) - 1)) \<or>
     rv_LastLogTerm args = le_Term (log r ! (length (log r) - 1)) \<and> rv_LastLogIndex args < length (log r) - 1"

lemma isLogUpToDate_iff: "isLogUpToDate (rv_LastLogIndex args) (rv_LastLogTerm args) r \<longleftrightarrow> voter_ahead args r"
  by (auto simp: isLogUpToDate_def voter_ahead_def Let_def)

text \<open>
  C30. A vote is granted exactly when the request is not stale, the voter has not voted for somebody else in
  that term, and the voter's own log is strictly ahead of the candidate's. The Raft protocol asks for the
  opposite: the candidate's log must be at least as up to date as the voter's.
\<close>

theorem RequestVote_granted_iff:
  "rvr_VoteGranted (fst (RequestVote args r)) \<longleftrightarrow>
     currentTerm r \<le> rv_Term args \<and>
     (currentTerm r < rv_Term args \<or> votedFor r = [] \<or> votedFor r = rv_CandidateId args) \<and>
     voter_ahead args r"
  by (auto simp: RequestVote_def Let_def isLogUpToDate_iff voter_ahead_def)

lemma voter_ahead_equal:
  "rv_LastLogIndex args = length (log r) - 1 \<Longrightarrow>
   rv_LastLogTerm args = le_Term (log r ! (length (log r) - 1)) \<Longrightarrow> \<not> voter_ahead args r"
  by (simp add: voter_ahead_def)

section \<open>Commit progress\<close>

text \<open>The things that can happen to a leader while it serves its term.\<close>

datatype leader_op =
    LReply string nat nat AppendEntriesReply
  | LSnapshotReply string nat InstallSnapshotReply
  | LSubmit string int "byte list"
  | LHeartbeat
  | LCheckISR
  | LAddNode cfg_order cfg_order string
  | LRemoveNode cfg_order cfg_order string
  | LStableConfig cfg_order
  | LSend string
  | LApply

fun leader_step :: "RaftNode \<Rightarrow> leader_op \<Rightarrow> RaftNode" where
  "leader_step r (LReply p prev n reply) = handleAppendReply p prev n reply r"
| "leader_step r (LSnapshotReply p idx reply) = handleSnapshotReply p idx reply r"
| "leader_step r (LSubmit topic part data) =
     (case SubmitCommand topic part data r of Ret (_, r') \<Rightarrow> r' | _ \<Rightarrow> r)"
| "leader_step r LHeartbeat = onHeartbeatTimer r"
| "leader_step r LCheckISR = checkISR r"
| "leader_step r (LAddNode ordOld ordNew addr) = snd (AddNode ordOld ordNew addr r)"
| "leader_step r (LRemoveNode ordOld ordNew addr) = snd (RemoveNode ordOld ordNew addr r)"
| "leader_step r (LStableConfig ord) = appendStableConfig ord r"
| "leader_step r (LSend p) = (case sendAppendEntries_plan p r of Ret (_, r') \<Rightarrow> r' | _ \<Rightarrow> r)"
| "leader_step r LApply = (case applyCommittedEntries False r of Ret r' \<Rightarrow> r' | _ \<Rightarrow> r)"

lemma isr_loop_frame [raft_frame, simp]:
  "state (isr_loop ps r) = state r \<and> currentTerm (isr_loop ps r) = currentTerm r \<and>
   votedFor (isr_loop ps r) = votedFor r \<and> log (isr_loop ps r) = log r \<and>
   commitIndex (isr_loop ps r) = commitIndex r \<and> peers (isr_loop ps r) = peers r \<and>
   selfAddr (isr_loop ps r) = selfAddr r \<and> configState (isr_loop ps r) = configState r \<and>
   elections (isr_loop ps r) = elections r \<and> goroutines (isr_loop ps r) = goroutines r \<and>
   disk (isr_loop ps r) = disk r \<and> dataDir (isr_loop ps r) = dataDir r \<and>
   matchIndex (isr_loop ps r) = matchIndex r \<and> maxLag (isr_loop ps r) = maxLag r"
  by (induction ps r rule: isr_loop.induct) (simp_all add: Let_def)

lemma checkISR_frame [raft_frame, simp]:
  "state (checkISR r) = state r" "currentTerm (checkISR r) = currentTerm r"
  "votedFor (checkISR r) = votedFor r" "log (checkISR r) = log r" "commitIndex (checkISR r) = commitIndex r"
  "peers (checkISR r) = peers r" "selfAddr (checkISR r) = selfAddr r"
  "configState (checkISR r) = configState r" "elections (checkISR r) = elections r"
  "goroutines (checkISR r) = goroutines r" "disk (checkISR r) = disk r" "dataDir (checkISR r) = dataDir r"
  by (simp_all add: checkISR_def)

lemma SubmitCommand_Ret:
  assumes "SubmitCommand topic part data r = Ret (res, r')" and "state r = Leader"
  shows "\<exists>entry. log r' = log r @ [entry] \<and> le_Term entry = currentTerm r \<and> le_Data entry = data \<and>
    le_Topic entry = topic \<and> le_Partition entry = part \<and> le_Index entry = length (log r) \<and>
    le_Type entry = DATA \<and> commitIndex r' = commitIndex r \<and> state r' = state r \<and> currentTerm r' = currentTerm r \<and>
    peers r' = peers r \<and> peers r \<noteq> [] \<and> res = Inr (length (log r), chanCount r)"
  using assms by (auto simp: SubmitCommand_def Let_def applyCommittedEntries_def split: if_splits)

text \<open>The first uncommitted entry is of an earlier term.\<close>

definition commit_stuck :: "RaftNode \<Rightarrow> bool" where
  "commit_stuck r \<longleftrightarrow>
     Suc (commitIndex r) < length (log r) \<and>
     (state r = Leader \<longrightarrow> le_Term (log r ! Suc (commitIndex r)) \<noteq> currentTerm r)"

lemma updateCommitIndex_stuck:
  assumes "Suc (commitIndex r) < length (log r)" and "le_Term (log r ! Suc (commitIndex r)) \<noteq> currentTerm r"
  shows "commitIndex (updateCommitIndex r) = commitIndex r"
  using commit_loop_result [of r "Suc (commitIndex r)"] assms
  by (auto simp: updateCommitIndex_def committable_def)

lemma add_learners_keeps [simp]:
  "state (add_learners as q) = state q \<and> currentTerm (add_learners as q) = currentTerm q \<and> log (add_learners as q) = log q \<and>
   commitIndex (add_learners as q) = commitIndex q"
  by (induction as q rule: add_learners.induct) simp_all

lemma drop_peers_keeps [simp]:
  "state (drop_peers as q) = state q \<and> currentTerm (drop_peers as q) = currentTerm q \<and> log (drop_peers as q) = log q \<and>
   commitIndex (drop_peers as q) = commitIndex q"
  by (induction as q rule: drop_peers.induct) simp_all

lemma apply_rounds_keep:
  "apply_rounds k r = Ret r' \<Longrightarrow> state r' = state r \<and> currentTerm r' = currentTerm r \<and> log r' = log r \<and> commitIndex r' = commitIndex r"
proof (induction k arbitrary: r)
  case (Suc k)
  have "state (applyConfigChangeLocked e q) = state q \<and> currentTerm (applyConfigChangeLocked e q) = currentTerm q \<and>
    log (applyConfigChangeLocked e q) = log q \<and> commitIndex (applyConfigChangeLocked e q) = commitIndex q" for e q
    by (simp add: applyConfigChangeLocked_def Let_def split: option.split)
  with Suc show ?case by (auto simp: Let_def split: if_splits)
qed simp

lemma leader_step_stuck:
  assumes "commit_stuck r"
  shows "commit_stuck (leader_step r a) \<and> commitIndex (leader_step r a) = commitIndex r"
proof (cases a)
  case (LReply p prev n reply)
  with assms show ?thesis
    using updateCommitIndex_stuck [of "r\<lparr>nextIndex := nx, matchIndex := mx\<rparr>" for nx mx]
    by (auto simp: commit_stuck_def handleAppendReply_def)
next
  case (LSubmit topic part data)
  show ?thesis
  proof (cases "state r = Leader")
    case True
    with assms LSubmit show ?thesis
      by (auto simp: commit_stuck_def nth_append split: go.splits dest!: SubmitCommand_Ret)
  next
    case False
    with assms LSubmit show ?thesis by (simp add: SubmitCommand_def)
  qed
next
  case LApply
  then show ?thesis using assms by (auto simp: commit_stuck_def applyCommittedEntries_def split: go.splits dest!: apply_rounds_keep)
next
  case (LSend p)
  then show ?thesis using assms
    by (auto simp: commit_stuck_def sendAppendEntries_plan_def Let_def split: go.splits if_splits)
qed (use assms in \<open>auto simp: commit_stuck_def handleSnapshotReply_def onHeartbeatTimer_def AddNode_def RemoveNode_def changeConfig_def
      appendStableConfig_def nth_append Let_def\<close>)

lemma commit_stuck_run:
  "commit_stuck r \<Longrightarrow> commit_stuck (foldl leader_step r ops) \<and> commitIndex (foldl leader_step r ops) = commitIndex r"
proof (induction ops arbitrary: r)
  case Nil
  then show ?case by simp
next
  case (Cons a ops)
  from Cons.IH [of "leader_step r a"] leader_step_stuck [OF Cons.prems, of a] show ?case by simp
qed

text \<open>
  C32. A leader whose first uncommitted entry is of an earlier term never commits anything again: whatever
  replies it gets, whatever it is asked to append, its commit index stays where it is. (Raft lets the leader
  skip such entries and commit them with the first entry of its own term; the code leaves the loop.)
\<close>

theorem leader_never_commits_past_old_term:
  assumes "state r = Leader" and "Suc (commitIndex r) < length (log r)"
    and "le_Term (log r ! Suc (commitIndex r)) \<noteq> currentTerm r"
  shows "commitIndex (foldl leader_step r ops) = commitIndex r"
  using assms commit_stuck_run [of r ops] by (simp add: commit_stuck_def)

theorem leader_never_commits_past_old_term_witness:
  "let r = (demo_leader 1)\<lparr>currentTerm := 2, matchIndex := [(''b'', 1), (''c'', 1)]\<rparr>
   in le_Term (log r ! 1) = 1 \<and> quorum_at 1 r \<and> commitIndex (updateCommitIndex r) = 0 \<and>
      commitIndex (foldl leader_step r
        [LSubmit ''t'' 0 [], LReply ''b'' 1 1 \<lparr>aer_Term = 2, aer_Success = True, aer_ConflictIndex = 0,
           aer_LastLogIndex = 2\<rparr>]) = commitIndex r"
proof -
  let ?r = "(demo_leader 1)\<lparr>currentTerm := 2, matchIndex := [(''b'', 1), (''c'', 1)]\<rparr>"
  have a: "state ?r = Leader" "Suc (commitIndex ?r) < length (log ?r)"
    "le_Term (log ?r ! Suc (commitIndex ?r)) \<noteq> currentTerm ?r"
    by (simp_all add: demo_leader_def demo_defs)
  have b: "quorum_at 1 ?r" "le_Term (log ?r ! 1) = 1" "commitIndex (updateCommitIndex ?r) = 0"
    by code_simp+
  show ?thesis
    unfolding Let_def using leader_never_commits_past_old_term [OF a] b by blast
qed

section \<open>In-sync replicas\<close>

lemma isr_loop_other: "p \<notin> fst ` set ps \<Longrightarrow> map_of (isr (isr_loop ps r)) p = map_of (isr r) p"
  by (induction ps r rule: isr_loop.induct) (auto simp: Let_def)

lemma isr_loop_at:
  "distinct (map fst ps) \<Longrightarrow> p \<in> fst ` set ps \<Longrightarrow>
   map_of (isr (isr_loop ps r)) p =
     Some (u64_sub (commitIndex r) (idx_at (matchIndex r) p) \<le> maxLag r)"
proof (induction ps r rule: isr_loop.induct)
  case (2 peerAddr q ps r)
  then show ?case
    by (cases "p = peerAddr") (auto simp: Let_def isr_loop_other)
qed simp

text \<open>
  What \<open>checkISR\<close> decides for a peer of a leader: a peer at or behind the commit index is in the
  in-sync set exactly if it lags by at most \<open>maxLag\<close>; a peer ahead of the commit index (it holds entries
  that are not committed yet) is thrown out, because the unsigned difference wraps around.
\<close>

theorem checkISR_decision:
  assumes "state r = Leader" and "gm_ok (peers r)" and "has (peers r) p"
    and "commitIndex r < 2 ^ 63" and "idx_at (matchIndex r) p < 2 ^ 63" and "maxLag r < 2 ^ 63"
  shows "map_of (isr (checkISR r)) p =
    Some (idx_at (matchIndex r) p \<le> commitIndex r \<and> commitIndex r - idx_at (matchIndex r) p \<le> maxLag r)"
proof -
  have "p \<in> fst ` set (peers r)" using assms(3) by (simp add: dom_map_of_conv_image_fst [symmetric] domIff)
  from isr_loop_at [OF assms(2) this, of r] assms(1)
  have "map_of (isr (checkISR r)) p = Some (u64_sub (commitIndex r) (idx_at (matchIndex r) p) \<le> maxLag r)"
    by (simp add: checkISR_def)
  then show ?thesis
    using assms(4-6) by (cases "idx_at (matchIndex r) p \<le> commitIndex r") (simp_all add: u64_sub_ge u64_sub_underflow)
qed

theorem checkISR_decision_witness:
  "let r = (demo_leader 2)\<lparr>matchIndex := [(''b'', 1), (''c'', 0)]\<rparr>
   in map_of (isr (checkISR r)) ''b'' = Some False \<and> map_of (isr (checkISR r)) ''c'' = Some True"
proof -
  let ?r = "(demo_leader 2)\<lparr>matchIndex := [(''b'', 1), (''c'', 0)]\<rparr>"
  have "state ?r = Leader" "gm_ok (peers ?r)" "has (peers ?r) ''b''" "has (peers ?r) ''c''"
    "commitIndex ?r < 2 ^ 63" "idx_at (matchIndex ?r) ''b'' < 2 ^ 63" "idx_at (matchIndex ?r) ''c'' < 2 ^ 63"
    "maxLag ?r < 2 ^ 63"
    by (simp_all add: demo_leader_def demo_defs idx_at_def)
  note h = this
  show ?thesis
    using checkISR_decision [OF h(1,2,3,5,6,8)] checkISR_decision [OF h(1,2,4,5,7,8)]
    by (simp add: Let_def idx_at_def demo_leader_def demo_defs)
qed

section \<open>Methods that wait for their own mutex\<close>

lemma sendSnapshot_plan_Leader: "state r = Leader \<Longrightarrow> sendSnapshot_plan peerAddr r = Deadlock"
  by (simp add: sendSnapshot_plan_def createSnapshot_def Let_def)

text \<open>
  While its log is shorter than \<open>snapshotThreshold\<close> (1000 entries), a leader never sends the entries a
  follower lacks: \<open>logLen - snapshotThreshold\<close> wraps around, so \<open>sendAppendEntries\<close> starts
  \<open>sendSnapshot\<close> instead, and \<open>sendSnapshot\<close> waits for ever, because \<open>createSnapshot\<close> takes the
  read lock of the mutex its caller holds.
\<close>

theorem short_log_leader_blocks:
  assumes "state r = Leader" and "length (log r) < snapshotThreshold"
    and "idx_at (nextIndex r) peerAddr \<le> length (log r)"
  shows "\<exists>r'. sendAppendEntries_plan peerAddr r = Ret (SendSnapshot, r') \<and>
    GoSendSnapshot peerAddr \<in> set (goroutines r') \<and> sendSnapshot_plan peerAddr r' = Deadlock"
proof -
  have "u64_sub (length (log r)) snapshotThreshold = 2 ^ 64 - (1000 - length (log r))"
    using assms(2) by (simp add: u64_sub_underflow snapshotThreshold_def)
  with assms(2,3) have "(if idx_at (nextIndex r) peerAddr = 0 then 1 else idx_at (nextIndex r) peerAddr)
      < u64_sub (length (log r)) snapshotThreshold"
    by (simp add: snapshotThreshold_def)
  with assms(1) show ?thesis
    by (simp add: sendAppendEntries_plan_def Let_def sendSnapshot_plan_Leader)
qed

theorem short_log_leader_blocks_witness:
  "\<exists>r'. sendAppendEntries_plan ''b'' (demo_leader 2) = Ret (SendSnapshot, r') \<and>
     sendSnapshot_plan ''b'' r' = Deadlock"
proof -
  have "state (demo_leader 2) = Leader" "length (log (demo_leader 2)) < snapshotThreshold"
    "idx_at (nextIndex (demo_leader 2)) ''b'' \<le> length (log (demo_leader 2))"
    by (simp_all add: demo_leader_def demo_defs snapshotThreshold_def idx_at_def)
  from short_log_leader_blocks [OF this] show ?thesis by blast
qed

section \<open>Pending commits\<close>

text \<open>
  When a node steps down it closes the channels of all commands it has accepted and not committed, the
  very signal \<open>updateCommitIndex\<close> uses for a committed command, and the commit index does not move: a
  producer that waits for \<open>acks = -1\<close> is told its message is committed when it is not.
\<close>

theorem step_down_signals_uncommitted:
  assumes "map_of (pendingCommit r) n = Some ch" and "commitIndex r < n" and "currentTerm r < aer_Term reply"
  shows "ch \<in> set (closedChans (handleAppendReply p prev k reply r)) \<and>
    commitIndex (handleAppendReply p prev k reply r) < n \<and>
    state (handleAppendReply p prev k reply r) = Follower"
  using assms map_of_SomeD [OF assms(1)] by (force simp: handleAppendReply_def)

theorem step_down_signals_uncommitted_witness:
  "\<exists>r' reply.
     SubmitCommand ''t'' 0 [1] (demo_leader 0) = Ret (Inr (1, 0), r') \<and>
     closedChans r' = [] \<and>
     0 \<in> set (closedChans (handleAppendReply ''b'' 0 0 reply r')) \<and>
     commitIndex (handleAppendReply ''b'' 0 0 reply r') < 1"
proof -
  let ?reply = "\<lparr>aer_Term = 7, aer_Success = False, aer_ConflictIndex = 0, aer_LastLogIndex = 0\<rparr>"
  obtain r' where r': "SubmitCommand ''t'' 0 [1] (demo_leader 0) = Ret (Inr (1, 0), r')"
    "closedChans r' = []" "map_of (pendingCommit r') 1 = Some 0" "commitIndex r' < 1"
    "currentTerm r' < aer_Term ?reply"
    by (simp add: SubmitCommand_def demo_leader_def demo_defs Let_def saveState_def sendHeartbeats_def)
  from step_down_signals_uncommitted [OF r'(3-5)] r' show ?thesis by blast
qed

section \<open>Snapshots\<close>

text \<open>
  Installing the snapshot a leader makes of its log shifts the log by one: the snapshot starts with the
  leader's sentinel entry and is appended after the follower's own, so the entry at index \<open>i\<close> of the
  leader ends up at index \<open>i + 1\<close>, while the commit index is set to the leader's last index.
\<close>

theorem InstallSnapshot_shifts_log:
  assumes "createSnapshot False leader = Ret data" and "log follower \<noteq> []"
    and "currentTerm follower \<le> is_Term args" and "is_Data args = data"
    and "is_LastIncludedIndex args = length (log leader) - 1"
    and "commitIndex follower < is_LastIncludedIndex args"
  shows "log (snd (InstallSnapshot args follower)) = hd (log follower) # log leader \<and>
    (\<forall>i < length (log leader). log (snd (InstallSnapshot args follower)) ! Suc i = log leader ! i) \<and>
    commitIndex (snd (InstallSnapshot args follower)) = length (log leader) - 1"
proof -
  have "gob_decode [] (is_Data args) = log leader"
    using assms(1,4) gob_roundtrip [of "gobTypeId leader" "log leader"] by (simp add: createSnapshot_def)
  with assms show ?thesis
    by (cases "log follower") (auto simp: InstallSnapshot_def Let_def)
qed

theorem InstallSnapshot_shifts_log_witness:
  "\<exists>data args. createSnapshot False (demo_leader 2) = Ret data \<and> is_Data args = data \<and>
     log (snd (InstallSnapshot args (demo_node ''b'' [''a'']))) =
       [sentinel, sentinel, demo_entry 1, demo_entry 1]"
proof -
  let ?F = "demo_node ''b'' [''a'']"
  let ?args = "\<lparr>is_Term = 1, is_LeaderId = ''a'', is_LastIncludedIndex = 2, is_LastIncludedTerm = 1,
                is_Data = gob_encode (gobTypeId (demo_leader 2)) (log (demo_leader 2))\<rparr>"
  have l: "log (demo_leader 2) = [sentinel, demo_entry 1, demo_entry 1]"
    by (simp add: demo_leader_def numeral_2_eq_2)
  have c: "createSnapshot False (demo_leader 2) = Ret (is_Data ?args)" by (simp add: createSnapshot_def)
  have "log ?F \<noteq> []" "currentTerm ?F \<le> is_Term ?args" "is_Data ?args = is_Data ?args"
    "is_LastIncludedIndex ?args = length (log (demo_leader 2)) - 1" "commitIndex ?F < is_LastIncludedIndex ?args"
    "hd (log ?F) = sentinel"
    by (simp_all add: demo_defs l)
  with InstallSnapshot_shifts_log [OF c] l c show ?thesis
    by (intro exI [of _ "is_Data ?args"] exI [of _ ?args]) (simp del: createSnapshot_def)
qed

end
