(* ===== verification/Raft_Persist.thy ===== *)
theory Raft_Persist
  imports Raft_Hazards
begin

text \<open>
  Persistence (\<open>saveState\<close>, \<open>appendLogEntries\<close>, \<open>loadState\<close>, \<open>loadLogEntries\<close>): what a
  restarted node knows. The term and the vote always survive; the log survives the first write of a
  process and loses every later one.
\<close>

section \<open>Restart\<close>

text \<open>A process is started again with the same arguments on the files the old one left; \<open>tid\<close> is the
  type id the new process gives to \<open>LogEntry\<close>.\<close>

definition restart :: "string list \<Rightarrow> nat \<Rightarrow> RaftNode \<Rightarrow> RaftNode" where
  "restart addrs tid r = NewRaftNode (selfAddr r) addrs (applyCh r) (dataDir r) (disk r) tid"

lemma add_peers_frame [simp]:
  "state (add_peers as r) = state r \<and> currentTerm (add_peers as r) = currentTerm r \<and>
   votedFor (add_peers as r) = votedFor r \<and> log (add_peers as r) = log r \<and>
   commitIndex (add_peers as r) = commitIndex r \<and> lastApplied (add_peers as r) = lastApplied r \<and>
   selfAddr (add_peers as r) = selfAddr r \<and> dataDir (add_peers as r) = dataDir r \<and>
   disk (add_peers as r) = disk r \<and> configState (add_peers as r) = configState r \<and>
   newConfig (add_peers as r) = newConfig r \<and> persistedIndex (add_peers as r) = persistedIndex r \<and>
   elections (add_peers as r) = elections r \<and> goroutines (add_peers as r) = goroutines r \<and>
   gobTypeId (add_peers as r) = gobTypeId r \<and> applyCh (add_peers as r) = applyCh r"
  by (induction as r rule: add_peers.induct) simp_all

lemma loadLogEntries_frame [simp]:
  "state (loadLogEntries n r) = state r" "currentTerm (loadLogEntries n r) = currentTerm r"
  "votedFor (loadLogEntries n r) = votedFor r" "commitIndex (loadLogEntries n r) = commitIndex r"
  "lastApplied (loadLogEntries n r) = lastApplied r" "peers (loadLogEntries n r) = peers r"
  "selfAddr (loadLogEntries n r) = selfAddr r" "dataDir (loadLogEntries n r) = dataDir r"
  "disk (loadLogEntries n r) = disk r" "configState (loadLogEntries n r) = configState r"
  "currentConfig (loadLogEntries n r) = currentConfig r" "newConfig (loadLogEntries n r) = newConfig r"
  "persistedIndex (loadLogEntries n r) = persistedIndex r" "elections (loadLogEntries n r) = elections r"
  "goroutines (loadLogEntries n r) = goroutines r" "gobTypeId (loadLogEntries n r) = gobTypeId r"
  by (simp_all add: loadLogEntries_def)

text \<open>The state file holds the term, the vote and the configuration state of the node; no file means it
  never voted.\<close>

definition vote_file_ok :: "PersistentState option \<Rightarrow> nat \<Rightarrow> string \<Rightarrow> ConfigState \<Rightarrow> bool" where
  "vote_file_ok f term vote cfg \<longleftrightarrow>
     (case f of None \<Rightarrow> term = 0 \<and> vote = [] \<and> cfg = ConfigStable
      | Some st \<Rightarrow> ps_CurrentTerm st = term \<and> ps_VotedFor st = vote \<and> ps_ConfigState st = cfg)"

definition vote_persisted :: "RaftNode \<Rightarrow> bool" where
  "vote_persisted r \<longleftrightarrow> vote_file_ok (stateFile (disk r)) (currentTerm r) (votedFor r) (configState r)"

definition durable :: "RaftNode \<Rightarrow> bool" where
  "durable r \<longleftrightarrow> dataDir r \<noteq> [] \<and> stateWritable (disk r)"

lemma stateFile_saveState:
  "durable r \<Longrightarrow> stateFile (disk (saveState r)) =
     Some \<lparr>ps_CurrentTerm = currentTerm r, ps_VotedFor = votedFor r, ps_CommitIndex = commitIndex r,
           ps_LastApplied = lastApplied r, ps_LogLength = length (log r), ps_ConfigState = configState r,
           ps_CurrentConfig = currentConfig r, ps_NewConfig = newConfig r, ps_PersistedIndex = persistedIndex r\<rparr>"
  by (simp add: durable_def saveState_def Let_def)

lemma vote_persisted_saveState: "durable r \<Longrightarrow> vote_persisted (saveState r)"
  by (simp add: vote_persisted_def vote_file_ok_def stateFile_saveState)

lemma durable_saveState [simp]: "durable (saveState r) = durable r"
  by (simp add: durable_def)

lemma restart_vote:
  assumes "durable r" and "vote_persisted r"
  shows "currentTerm (restart addrs tid r) = currentTerm r \<and> votedFor (restart addrs tid r) = votedFor r \<and>
    configState (restart addrs tid r) = configState r \<and> state (restart addrs tid r) = Follower \<and> durable (restart addrs tid r) \<and>
    vote_persisted (restart addrs tid r) \<and> selfAddr (restart addrs tid r) = selfAddr r \<and>
    elections (restart addrs tid r) = [] \<and> goroutines (restart addrs tid r) = []"
  using assms
  by (auto simp: restart_def NewRaftNode_def loadState_def durable_def vote_persisted_def vote_file_ok_def split: option.splits)

section \<open>The log file\<close>

lemma restart_log:
  assumes "durable r" and "stateFile (disk r) = Some st" and "logFile (disk r) \<noteq> []"
  shows "log (restart addrs tid r) = sentinel # gob_decode [] (logFile (disk r))"
  using assms by (simp add: restart_def NewRaftNode_def loadState_def durable_def loadLogEntries_def)

lemma logFile_saveState:
  "durable r \<Longrightarrow> logIo (disk r) = RaftLogOk \<Longrightarrow>
   logFile (disk (saveState r)) = logFile (disk r) @ gob_encode (gobTypeId r) (drop (persistedIndex r + 1) (log r))"
  by (simp add: durable_def saveState_def appendLogEntries_def Let_def)

lemma persistedIndex_saveState:
  "durable r \<Longrightarrow> logIo (disk r) = RaftLogOk \<Longrightarrow> persistedIndex (saveState r) = length (log r) - 1"
  by (simp add: durable_def saveState_def appendLogEntries_def Let_def)

lemma gob_decode_second_stream:
  assumes "xs \<noteq> []"
  shows "gob_decode [] (gob_encode tid xs @ gob_encode tid ys) = xs"
proof (cases "ys = []")
  case True
  then show ?thesis using gob_roundtrip [of tid xs] by (simp add: gob_encode_def)
next
  case False
  with assms show ?thesis
    using gob_decode_known [of tid "[tid]" xs "GobType tid # map (GobValue tid) ys"]
    by (simp add: gob_encode_def)
qed

text \<open>
  C33. First write. A node that saves its state on an empty data directory is restored by a restart: term,
  vote, log, commit index, applied index and configuration are what they were.
\<close>

theorem save_restart_roundtrip:
  assumes "durable r" and "logIo (disk r) = RaftLogOk" and "logFile (disk r) = []" and "persistedIndex r = 0"
    and "log r = sentinel # es" and "es \<noteq> []"
  shows "let r' = restart addrs tid (saveState r)
    in currentTerm r' = currentTerm r \<and> votedFor r' = votedFor r \<and> log r' = log r \<and>
       commitIndex r' = commitIndex r \<and> lastApplied r' = lastApplied r \<and>
       configState r' = configState r \<and> currentConfig r' = currentConfig r \<and> newConfig r' = newConfig r"
proof -
  have f: "logFile (disk (saveState r)) = gob_encode (gobTypeId r) es"
    using assms by (simp add: logFile_saveState)
  have "log (restart addrs tid (saveState r)) = sentinel # gob_decode [] (gob_encode (gobTypeId r) es)"
    using restart_log [of "saveState r"] assms f by (simp add: stateFile_saveState gob_encode_def)
  then have "log (restart addrs tid (saveState r)) = log r" by (simp add: gob_roundtrip assms(5))
  then show ?thesis
    using assms(1) stateFile_saveState [OF assms(1)]
    by (simp add: Let_def restart_def NewRaftNode_def loadState_def durable_def)
qed

text \<open>
  Second write. Every later write of the same process is lost: \<open>appendLogEntries\<close> opens a new gob
  encoder, which repeats the type descriptor, and the one decoder of \<open>loadLogEntries\<close> stops there. A
  leader that accepts a command after its first write has forgotten it after a restart.
\<close>

theorem later_entries_lost_on_restart:
  assumes "durable r" and "logIo (disk r) = RaftLogOk"
    and "logFile (disk r) = gob_encode (gobTypeId r) es" and "es \<noteq> []"
    and "log r = sentinel # es" and "persistedIndex r = length es"
    and "SubmitCommand topic part data r = Ret (Inr (idx, ch), r')"
  shows "log r' ! idx \<notin> set (drop idx (log (restart addrs tid r'))) \<and> idx < length (log r') \<and>
    log (restart addrs tid r') = log r"
proof -
  let ?e = "\<lparr>le_Term = currentTerm r, le_Index = length (log r), le_Type = DATA, le_Topic = topic,
             le_Partition = part, le_Data = data, le_Config = None\<rparr>"
  let ?r1 = "r\<lparr>log := log r @ [?e]\<rparr>"
  have lead: "state r = Leader" using assms(7) by (auto simp: SubmitCommand_def split: if_splits)
  have d: "disk r' = disk (saveState ?r1)" and l: "log r' = log r @ [?e]" and i: "idx = length (log r)"
    and same: "selfAddr r' = selfAddr r" "dataDir r' = dataDir r" "applyCh r' = applyCh r"
    using assms(7) lead
    by (auto simp: SubmitCommand_def Let_def applyCommittedEntries_def sendHeartbeats_def split: if_splits)
  have dur1: "durable ?r1" using assms(1) by (simp add: durable_def)
  have "logFile (disk (saveState ?r1)) = gob_encode (gobTypeId r) es @ gob_encode (gobTypeId r) [?e]"
    using logFile_saveState [OF dur1] assms(2,3,5,6) by simp
  moreover have "durable r'"
    using assms(1) d same by (simp add: durable_def)
  ultimately have "log (restart addrs tid r') = sentinel # gob_decode [] (gob_encode (gobTypeId r) es @ gob_encode (gobTypeId r) [?e])"
    using restart_log [of r'] stateFile_saveState [OF dur1] d assms(4) by (simp add: gob_encode_def)
  then have "log (restart addrs tid r') = log r"
    using assms(4,5) by (simp add: gob_decode_second_stream)
  then show ?thesis using i l by simp
qed

definition saved_leader :: RaftNode where
  "saved_leader =
     saveState ((demo_node ''a'' [''b''])\<lparr>dataDir := ''d'', state := Leader, currentTerm := 1,
                   log := [sentinel, demo_entry 1]\<rparr>)"

lemma saved_leader_facts:
  "durable saved_leader" "logIo (disk saved_leader) = RaftLogOk" "log saved_leader = [sentinel, demo_entry 1]"
  "logFile (disk saved_leader) = gob_encode (gobTypeId saved_leader) [demo_entry 1]"
  "persistedIndex saved_leader = length [demo_entry 1]"
  by (simp_all add: saved_leader_def durable_def demo_node_def NewRaftNode_def loadState_def demo_disk_def
      saveState_def appendLogEntries_def Let_def)

theorem save_restart_roundtrip_witness:
  "let r = (demo_node ''a'' [''b''])\<lparr>dataDir := ''d'', currentTerm := 3, votedFor := ''b'',
              log := [sentinel, demo_entry 1]\<rparr>
   in log (restart [''b''] 65 (saveState r)) = [sentinel, demo_entry 1] \<and>
      votedFor (restart [''b''] 65 (saveState r)) = ''b''"
proof -
  let ?r = "(demo_node ''a'' [''b''])\<lparr>dataDir := ''d'', currentTerm := 3, votedFor := ''b'',
              log := [sentinel, demo_entry 1]\<rparr>"
  have "durable ?r" "logIo (disk ?r) = RaftLogOk" "logFile (disk ?r) = []" "persistedIndex ?r = 0"
    "log ?r = sentinel # [demo_entry 1]" "[demo_entry 1] \<noteq> []"
    by (simp_all add: durable_def demo_node_def NewRaftNode_def loadState_def demo_disk_def)
  from save_restart_roundtrip [OF this, of "[''b'']" 65] show ?thesis by (simp add: Let_def)
qed

theorem later_entries_lost_on_restart_witness:
  "\<exists>r'. SubmitCommand ''t'' 0 [1] saved_leader = Ret (Inr (2, 0), r') \<and> length (log r') = 3 \<and>
     log (restart [''b''] 65 r') = [sentinel, demo_entry 1]"
proof -
  have f: "state saved_leader = Leader" "peers saved_leader \<noteq> []" "chanCount saved_leader = 0"
    by (simp_all add: saved_leader_def demo_node_def NewRaftNode_def loadState_def demo_disk_def)
  then obtain r' where r': "SubmitCommand ''t'' 0 [1] saved_leader = Ret (Inr (2, 0), r')"
    "length (log r') = 3"
    by (simp add: SubmitCommand_def Let_def saved_leader_facts(3))
  from later_entries_lost_on_restart [OF saved_leader_facts(1,2,4) _ _ saved_leader_facts(5) r'(1), of "[''b'']" 65] r'
  show ?thesis by (simp add: saved_leader_facts(3))
qed

end
