(* ===== verification/Raft_Cluster.thy ===== *)
theory Raft_Cluster
  imports Raft_Persist Quorums
begin

text \<open>
  A group of Raft nodes with fixed membership: the nodes run the definitions of \<open>Raft_Node\<close>, vote
  requests, append requests and their replies travel through a network that may lose and delay them, timers
  fire at any time, and nodes crash and restart from their files between two critical sections. Shown: no
  term ever has two leaders, and a new group of two or more nodes never gets a leader at all.

  \<open>sendSnapshot\<close> sends nothing (\<open>sendSnapshot_plan_Leader\<close> of \<open>Raft_Hazards\<close>), so there are no
  snapshot messages. A node that blocks on its own mutex takes no further step of that goroutine; the other
  steps of the node stay possible here, which only adds behaviours.
\<close>

section \<open>Handlers that do not touch an election\<close>

definition is_vote_call :: "goroutine \<Rightarrow> bool" where
  "is_vote_call g = (case g of GoRequestVote p args t \<Rightarrow> True | _ \<Rightarrow> False)"

text \<open>A step is quiet if it keeps membership, tallies and outstanding vote calls, and either keeps role,
  term and vote or falls back to a follower of a later term that has not voted.\<close>

definition same_group :: "RaftNode \<Rightarrow> RaftNode \<Rightarrow> bool" where
  "same_group r r' \<longleftrightarrow>
     selfAddr r' = selfAddr r \<and> peers r' = peers r \<and> configState r' = configState r \<and>
     durable r' = durable r \<and> (durable r \<and> vote_persisted r \<longrightarrow> vote_persisted r')"

definition quiet :: "RaftNode \<Rightarrow> RaftNode \<Rightarrow> bool" where
  "quiet r r' \<longleftrightarrow>
     same_group r r' \<and> elections r' = elections r \<and>
     filter is_vote_call (goroutines r') = filter is_vote_call (goroutines r) \<and>
     (currentTerm r' = currentTerm r \<and> votedFor r' = votedFor r \<and> state r' = state r \<or>
      currentTerm r < currentTerm r' \<and> votedFor r' = [] \<and> state r' = Follower)"

lemmas quiet_defs = quiet_def same_group_def durable_def vote_persisted_def

lemma quiet_refl [simp]: "quiet r r"
  by (simp add: quiet_def same_group_def)

lemma quiet_trans: "quiet r r1 \<Longrightarrow> quiet r1 r2 \<Longrightarrow> quiet r r2"
  by (auto simp: quiet_def same_group_def)

lemma quiet_saveState: "quiet r (saveState r)"
  using vote_persisted_saveState [of r] by (simp add: quiet_def same_group_def)

lemma quiet_becomeFollower:
  assumes "currentTerm r < t"
  shows "quiet r (becomeFollower t r)"
proof -
  let ?r = "close_pending (r\<lparr>state := Follower, currentTerm := t, votedFor := []\<rparr>)"
  have "durable ?r = durable r" by (simp add: durable_def close_pending_def)
  then show ?thesis
    using assms vote_persisted_saveState [of ?r]
    by (simp add: quiet_def same_group_def durable_def becomeFollower_def close_pending_def)
qed

lemma filter_vote_heartbeats [simp]:
  "filter is_vote_call (goroutines (sendHeartbeats r)) = filter is_vote_call (goroutines r)"
  by (simp add: sendHeartbeats_def is_vote_call_def split_def filter_empty_conv)

lemma quiet_sendHeartbeats: "quiet r (sendHeartbeats r)"
  by (simp add: quiet_defs)

lemma quiet_onHeartbeatTimer: "quiet r (onHeartbeatTimer r)"
  by (simp add: onHeartbeatTimer_def quiet_sendHeartbeats)

lemma quiet_checkISR: "quiet r (checkISR r)"
  by (simp add: quiet_defs)

lemma quiet_updateCommitIndex: "quiet r (updateCommitIndex r)"
  by (simp add: quiet_defs) (simp add: updateCommitIndex_def is_vote_call_def)

lemma quiet_indexes:
  "quiet r (r\<lparr>nextIndex := a\<rparr>)" "quiet r (r\<lparr>nextIndex := a, matchIndex := b\<rparr>)"
  by (simp_all add: quiet_defs)

lemma quiet_spawn: "filter is_vote_call gs = [] \<Longrightarrow> quiet r r' \<Longrightarrow> quiet r (spawn gs r')"
  by (erule quiet_trans) (simp add: quiet_defs)

lemma quiet_handleAppendReply: "quiet r (handleAppendReply p i n reply r)"
proof -
  have "quiet r (updateCommitIndex (r\<lparr>nextIndex := a, matchIndex := b\<rparr>))" for a b
    by (rule quiet_trans [OF quiet_indexes(2) quiet_updateCommitIndex])
  moreover have "quiet r (spawn [GoSendAppendEntries p] (r\<lparr>nextIndex := a\<rparr>))" for a
    by (rule quiet_spawn) (simp_all add: is_vote_call_def quiet_indexes)
  ultimately show ?thesis by (simp add: handleAppendReply_def quiet_becomeFollower)
qed

lemma quiet_plan:
  assumes "sendAppendEntries_plan p r = Ret (plan, r')"
  shows "quiet r r'"
proof -
  let ?r1 = "if idx_at (nextIndex r) p = 0 then r\<lparr>nextIndex := put p 1 (nextIndex r)\<rparr> else r"
  have q: "quiet r ?r1" by (simp add: quiet_indexes)
  have "r' = r \<or> r' = ?r1 \<or> r' = spawn [GoSendSnapshot p] ?r1"
    using assms by (simp add: sendAppendEntries_plan_def Let_def split: if_split_asm)
  moreover have "quiet r (spawn [GoSendSnapshot p] ?r1)"
    by (rule quiet_spawn [OF _ q]) (simp add: is_vote_call_def)
  ultimately show ?thesis using q quiet_refl [of r] by (elim disjE) (simp_all only:)
qed

lemma quiet_AppendEntries:
  assumes "AppendEntries args r = Ret (reply, r')"
  shows "quiet r r'"
proof (cases "ae_Term args < currentTerm r")
  case True
  with assms show ?thesis by (simp add: AppendEntries_def Let_def)
next
  case False
  let ?r1 = "if currentTerm r < ae_Term args then becomeFollower (ae_Term args) r else r"
  let ?l = "merge_entries (ae_PrevLogIndex args + 1) (ae_Entries args) (log ?r1)"
  have q1: "quiet r ?r1" by (simp add: quiet_becomeFollower)
  have "quiet ?r1 (saveState (?r1\<lparr>log := ?l\<rparr>))"
    by (rule quiet_trans [OF _ quiet_saveState]) (simp add: quiet_defs)
  from quiet_trans [OF q1 this] have q2: "quiet r (saveState (?r1\<lparr>log := ?l\<rparr>))" .
  have "r' = ?r1 \<or> r' = saveState (?r1\<lparr>log := ?l\<rparr>)"
    using assms False
    by (auto simp: AppendEntries_def Let_def applyCommittedEntries_def simp del: One_nat_def split: if_splits)
  then show ?thesis using q1 q2 by (elim disjE) (simp_all only:)
qed

lemma quiet_SubmitCommand:
  assumes "SubmitCommand topic part data r = Ret (res, r')"
  shows "quiet r r'"
proof (cases "state r = Leader")
  case True
  let ?e = "\<lparr>le_Term = currentTerm r, le_Index = length (log r), le_Type = DATA, le_Topic = topic,
             le_Partition = part, le_Data = data, le_Config = None\<rparr>"
  let ?r1 = "saveState (r\<lparr>log := log r @ [?e]\<rparr>)"
  have q: "quiet r ?r1" by (rule quiet_trans [OF _ quiet_saveState]) (simp add: quiet_defs)
  obtain a b where r': "r' = sendHeartbeats (?r1\<lparr>chanCount := a, pendingCommit := b\<rparr>)"
    using assms True by (auto simp: SubmitCommand_def Let_def applyCommittedEntries_def split: if_splits)
  have "quiet ?r1 (sendHeartbeats (?r1\<lparr>chanCount := a, pendingCommit := b\<rparr>))"
    by (rule quiet_trans [OF _ quiet_sendHeartbeats]) (simp add: quiet_defs)
  from quiet_trans [OF q this] show ?thesis unfolding r' .
next
  case False
  with assms show ?thesis by (simp add: SubmitCommand_def)
qed

text \<open>Entries that change the membership are not applied in a group with fixed membership.\<close>

definition no_config_pending :: "RaftNode \<Rightarrow> bool" where
  "no_config_pending r \<longleftrightarrow> (\<forall>i. lastApplied r < i \<and> i \<le> commitIndex r \<longrightarrow> \<not> is_config_entry (log r ! i))"

lemma quiet_apply_rounds:
  assumes "apply_rounds k r = Ret r'"
    and "\<And>i. lastApplied r < i \<Longrightarrow> i \<le> lastApplied r + k \<Longrightarrow> \<not> is_config_entry (log r ! i)"
  shows "quiet r r'"
  using assms
proof (induction k arbitrary: r)
  case (Suc k)
  let ?r1 = "r\<lparr>lastApplied := lastApplied r + 1\<rparr>"
  let ?r2 = "if applyCh r then ?r1\<lparr>applied := applied r @ [log r ! (lastApplied r + 1)]\<rparr> else ?r1"
  have "apply_rounds k ?r2 = Ret r'"
    using Suc.prems(1) Suc.prems(2) [of "lastApplied r + 1"] by (auto simp: Let_def split: if_splits)
  moreover have "\<not> is_config_entry (log ?r2 ! i)" if "lastApplied ?r2 < i" "i \<le> lastApplied ?r2 + k" for i
    using Suc.prems(2) [of i] that by (auto split: if_splits)
  ultimately have "quiet ?r2 r'" by (rule Suc.IH)
  moreover have "quiet r ?r2" by (simp add: quiet_defs)
  ultimately show ?case using quiet_trans by blast
qed simp

lemma quiet_applyCommittedEntries:
  assumes "applyCommittedEntries False r = Ret r'" and "no_config_pending r"
  shows "quiet r r'"
  using assms by (auto simp: applyCommittedEntries_def no_config_pending_def intro: quiet_apply_rounds)

section \<open>The group and its steps\<close>

text \<open>
  Vote calls on the way. \<open>VoteReq c p t args\<close> is the request of candidate \<open>c\<close> to \<open>p\<close> in term \<open>t\<close>,
  \<open>VoteRep\<close> the result its goroutine will see, and \<open>Orphan p args\<close> a request that may still reach \<open>p\<close>
  though nobody waits for the reply (the call timed out or the candidate crashed).
\<close>

datatype vote_msg =
    VoteReq string string nat RequestVoteArgs
  | VoteRep string string nat RequestVoteReply
  | Orphan string RequestVoteArgs

text \<open>\<open>appends\<close> are all append requests ever sent (sender, receiver, request), \<open>apprs\<close> all results
  (sender, receiver, \<open>prevLogIndex\<close>, number of entries, reply); \<open>votes\<close> records who voted for whom in which
  term, for the statements only.\<close>

record cluster =
  nodes :: "string \<Rightarrow> RaftNode"
  net :: "vote_msg list"
  appends :: "(string \<times> string \<times> AppendEntriesArgs) set"
  apprs :: "(string \<times> string \<times> nat \<times> nat \<times> AppendEntriesReply) set"
  votes :: "(string \<times> nat \<times> string) set"

definition cast :: "string \<Rightarrow> RaftNode \<Rightarrow> (string \<times> nat \<times> string) set" where
  "cast c r = (if votedFor r = [] then {} else {(c, currentTerm r, votedFor r)})"

definition upd :: "string \<Rightarrow> RaftNode \<Rightarrow> cluster \<Rightarrow> cluster" where
  "upd c r s = s\<lparr>nodes := (nodes s)(c := r), votes := votes s \<union> cast c r\<rparr>"

definition drop_goroutine :: "goroutine \<Rightarrow> RaftNode \<Rightarrow> RaftNode" where
  "drop_goroutine g r = r\<lparr>goroutines := remove1 g (goroutines r)\<rparr>"

text \<open>The calls of candidate \<open>c\<close> in term \<open>t\<close> that are not finished: in its goroutines, in the network.\<close>

fun call_of :: "nat \<Rightarrow> goroutine \<Rightarrow> string list" where
  "call_of t (GoRequestVote p args t') = (if t' = t then [p] else [])"
| "call_of t _ = []"

fun msg_call :: "string \<Rightarrow> nat \<Rightarrow> vote_msg \<Rightarrow> string list" where
  "msg_call c t (VoteReq c' p t' args) = (if c' = c \<and> t' = t then [p] else [])"
| "msg_call c t (VoteRep c' p t' reply) = (if c' = c \<and> t' = t then [p] else [])"
| "msg_call c t (Orphan p args) = []"

definition gor_calls :: "RaftNode \<Rightarrow> nat \<Rightarrow> string list" where
  "gor_calls r t = concat (map (call_of t) (goroutines r))"

definition net_calls :: "vote_msg list \<Rightarrow> string \<Rightarrow> nat \<Rightarrow> string list" where
  "net_calls ms c t = concat (map (msg_call c t) ms)"

text \<open>What a crash of \<open>c\<close> does to the network: nobody waits for its calls any more.\<close>

fun orphan :: "string \<Rightarrow> vote_msg \<Rightarrow> vote_msg list" where
  "orphan c (VoteReq c' p t args) = (if c' = c then [Orphan p args] else [VoteReq c' p t args])"
| "orphan c (VoteRep c' p t reply) = (if c' = c then [] else [VoteRep c' p t reply])"
| "orphan c (Orphan p args) = [Orphan p args]"

definition orphans :: "string \<Rightarrow> vote_msg list \<Rightarrow> vote_msg list" where
  "orphans c ms = concat (map (orphan c) ms)"

fun plan_appends :: "string \<Rightarrow> string \<Rightarrow> send_plan \<Rightarrow> (string \<times> string \<times> AppendEntriesArgs) set" where
  "plan_appends c p (SendEntries args) = {(c, p, args)}"
| "plan_appends c p _ = {}"

text \<open>What an \<open>AppendEntries\<close> that blocks on the mutex it holds has done before: a change of the term, which is saved. The node stays blocked until it is restarted; the
  steps below also let it go on.\<close>

definition AppendEntries_blocked :: "AppendEntriesArgs \<Rightarrow> RaftNode \<Rightarrow> RaftNode" where
  "AppendEntries_blocked args r = (if currentTerm r < ae_Term args then becomeFollower (ae_Term args) r else r)"

lemma quiet_AppendEntries_blocked: "quiet r (AppendEntries_blocked args r)"
  by (simp add: AppendEntries_blocked_def quiet_becomeFollower)

inductive cstep :: "string set \<Rightarrow> cluster \<Rightarrow> cluster \<Rightarrow> bool" for N where
  election_timer: "c \<in> N \<Longrightarrow> currentTerm (nodes s c) < u64_max \<Longrightarrow>
    cstep N s (upd c (onElectionTimer (nodes s c)) s)"
| heartbeat_timer: "c \<in> N \<Longrightarrow> cstep N s (upd c (onHeartbeatTimer (nodes s c)) s)"
| send_vote: "c \<in> N \<Longrightarrow> GoRequestVote p args t \<in> set (goroutines (nodes s c)) \<Longrightarrow>
    cstep N s (upd c (drop_goroutine (GoRequestVote p args t) (nodes s c)) (s\<lparr>net := VoteReq c p t args # net s\<rparr>))"
| recv_vote: "p \<in> N \<Longrightarrow> VoteReq c p t args \<in> set (net s) \<Longrightarrow> RequestVote args (nodes s p) = (reply, r') \<Longrightarrow>
    cstep N s (upd p r' (s\<lparr>net := VoteRep c p t reply # remove1 (VoteReq c p t args) (net s)\<rparr>))"
| recv_orphan: "p \<in> N \<Longrightarrow> Orphan p args \<in> set (net s) \<Longrightarrow>
    cstep N s (upd p (snd (RequestVote args (nodes s p))) (s\<lparr>net := remove1 (Orphan p args) (net s)\<rparr>))"
| fail_vote: "VoteReq c p t args \<in> set (net s) \<Longrightarrow>
    cstep N s (s\<lparr>net := VoteRep c p t (requestVote None (nodes s c)) # Orphan p args #
                       remove1 (VoteReq c p t args) (net s)\<rparr>)"
| lose_reply: "VoteRep c p t reply \<in> set (net s) \<Longrightarrow>
    cstep N s (s\<lparr>net := VoteRep c p t (requestVote None (nodes s c)) # remove1 (VoteRep c p t reply) (net s)\<rparr>)"
| vote_reply: "c \<in> N \<Longrightarrow> VoteRep c p t reply \<in> set (net s) \<Longrightarrow>
    cstep N s (upd c (handleVoteReply p t reply (nodes s c)) (s\<lparr>net := remove1 (VoteRep c p t reply) (net s)\<rparr>))"
| await_votes: "c \<in> N \<Longrightarrow> GoAwaitVotes t \<in> set (goroutines (nodes s c)) \<Longrightarrow>
    gor_calls (nodes s c) t @ net_calls (net s) c t = [] \<Longrightarrow> currentTerm (nodes s c) < u64_max \<Longrightarrow>
    cstep N s (upd c (awaitVotes t (drop_goroutine (GoAwaitVotes t) (nodes s c))) s)"
| send_append: "c \<in> N \<Longrightarrow> GoSendAppendEntries p \<in> set (goroutines (nodes s c)) \<Longrightarrow>
    sendAppendEntries_plan p (drop_goroutine (GoSendAppendEntries p) (nodes s c)) = Ret (plan, r') \<Longrightarrow>
    cstep N s (upd c r' (s\<lparr>appends := appends s \<union> plan_appends c p plan\<rparr>))"
| recv_append: "p \<in> N \<Longrightarrow> (c, p, args) \<in> appends s \<Longrightarrow> AppendEntries args (nodes s p) = Ret (reply, r') \<Longrightarrow>
    cstep N s (upd p r' (s\<lparr>apprs := insert (c, p, ae_PrevLogIndex args, length (ae_Entries args), reply) (apprs s)\<rparr>))"
| block_append: "p \<in> N \<Longrightarrow> (c, p, args) \<in> appends s \<Longrightarrow> AppendEntries args (nodes s p) = Deadlock \<Longrightarrow>
    cstep N s (upd p (AppendEntries_blocked args (nodes s p)) s)"
| fail_append: "(c, p, args) \<in> appends s \<Longrightarrow>
    cstep N s (s\<lparr>apprs := insert (c, p, ae_PrevLogIndex args, length (ae_Entries args),
                                  appendEntries None (nodes s c)) (apprs s)\<rparr>)"
| append_reply: "c \<in> N \<Longrightarrow> (c, p, i, n, reply) \<in> apprs s \<Longrightarrow>
    cstep N s (upd c (handleAppendReply p i n reply (nodes s c)) s)"
| submit: "c \<in> N \<Longrightarrow> SubmitCommand topic part data (nodes s c) = Ret (res, r') \<Longrightarrow> cstep N s (upd c r' s)"
| isr_tick: "c \<in> N \<Longrightarrow> cstep N s (upd c (checkISR (nodes s c)) s)"
| apply_entries: "c \<in> N \<Longrightarrow> no_config_pending (nodes s c) \<Longrightarrow>
    applyCommittedEntries False (nodes s c) = Ret r' \<Longrightarrow> cstep N s (upd c r' s)"
| crash_restart: "c \<in> N \<Longrightarrow> set addrs = N \<Longrightarrow>
    cstep N s (upd c (restart addrs tid (nodes s c)) (s\<lparr>net := orphans c (net s)\<rparr>))"

abbreviation csteps :: "string set \<Rightarrow> cluster \<Rightarrow> cluster \<Rightarrow> bool" where
  "csteps N \<equiv> (cstep N)\<^sup>*\<^sup>*"

text \<open>A group starts with every node reading the files of its data directory; \<open>disks\<close> may be what an
  earlier run left, as long as the files can be written and no membership change was under way.\<close>

definition disk_ok :: "RaftDisk \<Rightarrow> bool" where
  "disk_ok d \<longleftrightarrow> stateWritable d \<and>
     (case stateFile d of None \<Rightarrow> True | Some st \<Rightarrow> ps_ConfigState st = ConfigStable)"

definition initial :: "string list \<Rightarrow> (string \<Rightarrow> string) \<Rightarrow> (string \<Rightarrow> RaftDisk) \<Rightarrow> nat \<Rightarrow> cluster" where
  "initial addrs dir disks tid =
     (let node = (\<lambda>c. NewRaftNode c addrs True (dir c) (disks c) tid)
      in \<lparr>nodes = node, net = [], appends = {}, apprs = {}, votes = (\<Union>c \<in> set addrs. cast c (node c))\<rparr>)"

section \<open>The invariant\<close>

definition static_ok :: "string set \<Rightarrow> string \<Rightarrow> RaftNode \<Rightarrow> bool" where
  "static_ok N c r \<longleftrightarrow>
     selfAddr r = c \<and> gm_ok (peers r) \<and> fst ` set (peers r) = N - {c} \<and>
     (\<forall>(k, p) \<in> set (peers r). peer_addr p = k \<and> \<not> peer_learner p) \<and>
     configState r = ConfigStable \<and> durable r \<and> vote_persisted r"

definition tally_ok :: "string set \<Rightarrow> (string \<times> nat \<times> string) set \<Rightarrow> string list \<Rightarrow> string \<Rightarrow> RaftNode \<Rightarrow> bool" where
  "tally_ok N V out c r \<longleftrightarrow>
     (\<exists>el S. map_of (elections r) (currentTerm r) = Some el \<and> el_configState el = ConfigStable \<and>
        el_nonLearnerPeers el = card (N - {c}) \<and> S \<subseteq> N - {c} \<and> el_votes el = card S + 1 \<and>
        (\<forall>p\<in>S. (p, currentTerm r, c) \<in> V) \<and> S \<inter> set out = {}) \<and> votedFor r = c"

definition elected :: "string set \<Rightarrow> (string \<times> nat \<times> string) set \<Rightarrow> string \<Rightarrow> nat \<Rightarrow> bool" where
  "elected N V c t \<longleftrightarrow> majority N {v. (v, t, c) \<in> V}"

definition calls_ok :: "string set \<Rightarrow> string \<Rightarrow> nat \<Rightarrow> (nat \<Rightarrow> string list) \<Rightarrow> bool" where
  "calls_ok N c now out \<longleftrightarrow>
     (\<forall>t. distinct (out t) \<and> set (out t) \<subseteq> N - {c} \<and> (out t \<noteq> [] \<longrightarrow> t \<le> now))"

definition vote_args_ok :: "string \<Rightarrow> RaftNode \<Rightarrow> bool" where
  "vote_args_ok c r \<longleftrightarrow>
     (\<forall>p args t. GoRequestVote p args t \<in> set (goroutines r) \<longrightarrow> rv_Term args = t \<and> rv_CandidateId args = c)"

definition voted_ok :: "(string \<times> nat \<times> string) set \<Rightarrow> string \<Rightarrow> RaftNode \<Rightarrow> bool" where
  "voted_ok V c r \<longleftrightarrow>
     (\<forall>t x. (c, t, x) \<in> V \<longrightarrow> t < currentTerm r \<or> t = currentTerm r \<and> votedFor r = x) \<and> cast c r \<subseteq> V"

definition node_inv ::
    "string set \<Rightarrow> (string \<times> nat \<times> string) set \<Rightarrow> (nat \<Rightarrow> string list) \<Rightarrow> string \<Rightarrow> RaftNode \<Rightarrow> bool" where
  "node_inv N V nc c r \<longleftrightarrow>
     static_ok N c r \<and> vote_args_ok c r \<and> voted_ok V c r \<and>
     calls_ok N c (currentTerm r) (\<lambda>t. gor_calls r t @ nc t) \<and>
     (state r = Candidate \<longrightarrow> tally_ok N V (gor_calls r (currentTerm r) @ nc (currentTerm r)) c r) \<and>
     (state r = Leader \<longrightarrow> elected N V c (currentTerm r))"

definition votes_ok :: "string set \<Rightarrow> (string \<times> nat \<times> string) set \<Rightarrow> bool" where
  "votes_ok N V \<longleftrightarrow>
     (\<forall>v t x. (v, t, x) \<in> V \<longrightarrow> v \<in> N \<and> x \<noteq> []) \<and> (\<forall>v t x y. (v, t, x) \<in> V \<longrightarrow> (v, t, y) \<in> V \<longrightarrow> x = y)"

fun msg_ok :: "string set \<Rightarrow> (string \<times> nat \<times> string) set \<Rightarrow> vote_msg \<Rightarrow> bool" where
  "msg_ok N V (VoteReq c p t args) = (c \<in> N \<and> rv_Term args = t \<and> rv_CandidateId args = c)"
| "msg_ok N V (VoteRep c p t reply) = (c \<in> N \<and> (rvr_VoteGranted reply \<longrightarrow> (p, t, c) \<in> V))"
| "msg_ok N V (Orphan p args) = True"

definition cinv :: "string set \<Rightarrow> cluster \<Rightarrow> bool" where
  "cinv N s \<longleftrightarrow>
     votes_ok N (votes s) \<and> (\<forall>m \<in> set (net s). msg_ok N (votes s) m) \<and>
     (\<forall>c \<in> N. node_inv N (votes s) (net_calls (net s) c) c (nodes s c))"

end
