(* ===== verification/Raft_Election.thy ===== *)
theory Raft_Election
  imports Raft_Cluster
begin

text \<open>
  Election safety of a group with fixed membership: the invariant \<open>cinv\<close> of \<open>Raft_Cluster\<close> is kept by
  every step, and by it two leaders of one term are the same node. Then: a new group of at least two nodes
  stays without a leader for ever.
\<close>

section \<open>Facts about the parts of the invariant\<close>

lemma majority_mono: "majority N A \<Longrightarrow> A \<subseteq> B \<Longrightarrow> B \<subseteq> N \<Longrightarrow> majority N B"
  using card_mono [of B A] by (fastforce simp: majority_def dest: finite_subset)

lemma elected_mono:
  assumes "elected N V c t" and "V \<subseteq> V'" and "votes_ok N V'"
  shows "elected N V' c t"
proof -
  have "{v. (v, t, c) \<in> V'} \<subseteq> N" using assms(3) by (auto simp: votes_ok_def)
  with assms(1,2) show ?thesis unfolding elected_def by (elim majority_mono) auto
qed

lemma tally_mono: "tally_ok N V out c r \<Longrightarrow> V \<subseteq> V' \<Longrightarrow> set out' \<subseteq> set out \<Longrightarrow> tally_ok N V' out' c r"
  unfolding tally_ok_def
  apply (elim exE conjE)
  subgoal for el S by (rule conjI, rule exI [of _ el], rule exI [of _ S]) auto
  done

lemma voted_ok_mono:
  "voted_ok V c r \<Longrightarrow> V \<subseteq> V' \<Longrightarrow> (\<And>t x. (c, t, x) \<in> V' \<Longrightarrow> (c, t, x) \<in> V) \<Longrightarrow> voted_ok V' c r"
  unfolding voted_ok_def by (meson subset_trans)

lemma node_inv_mono:
  assumes "node_inv N V nc c r" and "V \<subseteq> V'" and "votes_ok N V'"
    and "\<And>t x. (c, t, x) \<in> V' \<Longrightarrow> (c, t, x) \<in> V"
  shows "node_inv N V' nc c r"
  using assms(1) elected_mono [OF _ assms(2,3)] tally_mono [OF _ assms(2) subset_refl]
    voted_ok_mono [OF _ assms(2,4)]
  by (simp add: node_inv_def)

lemma votes_ok_cast:
  assumes "votes_ok N V" and "c \<in> N" and "voted_ok (V \<union> cast c r) c r"
  shows "votes_ok N (V \<union> cast c r)"
proof -
  have "x = y" if "(v, t, x) \<in> V \<union> cast c r" "(v, t, y) \<in> V \<union> cast c r" for v t x y
  proof (cases "(v, t, x) \<in> V \<and> (v, t, y) \<in> V")
    case True
    then show ?thesis using assms(1) by (auto simp: votes_ok_def)
  next
    case False
    then have "v = c" "t = currentTerm r" using that by (auto simp: cast_def split: if_splits)
    then show ?thesis using that assms(3) by (auto simp: voted_ok_def)
  qed
  moreover have "v \<in> N \<and> x \<noteq> []" if "(v, t, x) \<in> V \<union> cast c r" for v t x
    using that assms(1,2) by (auto simp: votes_ok_def cast_def split: if_splits)
  ultimately show ?thesis by (auto simp: votes_ok_def)
qed

lemma msg_ok_mono: "msg_ok N V m \<Longrightarrow> V \<subseteq> V' \<Longrightarrow> msg_ok N V' m"
  by (cases m) auto

text \<open>The frame of every step: one node changes, the network changes, and the changed node keeps its part of
  the invariant.\<close>

lemma cinv_upd:
  assumes "votes_ok N (votes s)" and "c \<in> N"
    and "node_inv N (votes s \<union> cast c r) (net_calls ms c) c r"
    and "\<And>d. d \<in> N \<Longrightarrow> d \<noteq> c \<Longrightarrow> node_inv N (votes s) (net_calls ms d) d (nodes s d)"
    and "\<And>m. m \<in> set ms \<Longrightarrow> msg_ok N (votes s \<union> cast c r) m"
    and "nodes s' = nodes s" "votes s' = votes s" "net s' = ms"
  shows "cinv N (upd c r s')"
proof -
  have v: "votes_ok N (votes s \<union> cast c r)"
    using votes_ok_cast [OF assms(1,2)] assms(3) by (auto simp: node_inv_def)
  have "node_inv N (votes s \<union> cast c r) (net_calls ms d) d (nodes s d)" if "d \<in> N" "d \<noteq> c" for d
    by (rule node_inv_mono [OF assms(4) [OF that] _ v]) (use that in \<open>auto simp: cast_def split: if_splits\<close>)
  with v assms show ?thesis by (auto simp: cinv_def upd_def)
qed

lemma cinvD:
  assumes "cinv N s"
  shows "votes_ok N (votes s)" "\<And>m. m \<in> set (net s) \<Longrightarrow> msg_ok N (votes s) m"
    "\<And>c. c \<in> N \<Longrightarrow> node_inv N (votes s) (net_calls (net s) c) c (nodes s c)"
  using assms by (auto simp: cinv_def)

text \<open>A step of one node that leaves the network alone.\<close>

lemma cinv_upd_node:
  assumes "cinv N s" and "c \<in> N" and "nodes s' = nodes s" "votes s' = votes s" "net s' = net s"
    and "node_inv N (votes s \<union> cast c r) (net_calls (net s) c) c r"
  shows "cinv N (upd c r s')"
  by (rule cinv_upd [OF cinvD(1) [OF assms(1)] assms(2,6) cinvD(3) [OF assms(1)]])
    (use assms cinvD(2) [OF assms(1)] msg_ok_mono [of N "votes s"] in auto)

section \<open>Calls\<close>

lemma gor_calls_filter: "gor_calls r t = concat (map (call_of t) (filter is_vote_call (goroutines r)))"
proof -
  have "concat (map (call_of t) gs) = concat (map (call_of t) (filter is_vote_call gs))" for gs
  proof (induction gs)
    case (Cons g gs)
    then show ?case by (cases g) (simp_all add: is_vote_call_def)
  qed simp
  then show ?thesis by (simp add: gor_calls_def)
qed

lemma in_vote_calls: "GoRequestVote p args t \<in> set gs \<longleftrightarrow> GoRequestVote p args t \<in> set (filter is_vote_call gs)"
  by (simp add: is_vote_call_def)

lemma mset_concat_remove1:
  "x \<in> set xs \<Longrightarrow> mset (concat (map f xs)) = mset (f x) + mset (concat (map f (remove1 x xs)))"
  by (induction xs) auto

lemma mset_drop_goroutine:
  "g \<in> set (goroutines r) \<Longrightarrow> mset (gor_calls r t) = mset (call_of t g) + mset (gor_calls (drop_goroutine g r) t)"
  by (simp add: gor_calls_def drop_goroutine_def mset_concat_remove1)

lemma mset_net_remove1:
  "m \<in> set ms \<Longrightarrow> mset (net_calls ms c t) = mset (msg_call c t m) + mset (net_calls (remove1 m ms) c t)"
  by (simp add: net_calls_def mset_concat_remove1)

lemma net_calls_Cons [simp]: "net_calls (m # ms) c t = msg_call c t m @ net_calls ms c t"
  by (simp add: net_calls_def)

lemma net_calls_orphans: "net_calls (orphans c ms) d t = (if d = c then [] else net_calls ms d t)"
proof (induction ms)
  case (Cons m ms)
  then show ?case by (cases m) (auto simp: orphans_def net_calls_def)
qed (simp add: orphans_def net_calls_def)

lemma sub_mset_distinct:
  assumes "mset ys \<subseteq># mset xs" and "distinct xs"
  shows "distinct ys \<and> set ys \<subseteq> set xs"
proof -
  have "count (mset ys) a = (if a \<in> set ys then 1 else 0)" for a
    using mset_subset_eq_count [OF assms(1), of a] assms(2)
    by (cases "a \<in> set ys") (simp_all add: distinct_count_atmost_1 count_eq_zero_iff le_antisym Suc_le_eq
        count_greater_zero_iff [symmetric] split: if_splits)
  then have "distinct ys" by (simp add: distinct_count_atmost_1)
  moreover have "set ys \<subseteq> set xs" using set_mset_mono [OF assms(1)] by simp
  ultimately show ?thesis ..
qed

lemma calls_ok_shrink:
  assumes "calls_ok N c now out" and "\<And>t. mset (out' t) \<subseteq># mset (out t)" and "now \<le> now'"
  shows "calls_ok N c now' out'"
proof -
  have "distinct (out' t) \<and> set (out' t) \<subseteq> set (out t)" for t
    using sub_mset_distinct [OF assms(2)] assms(1) by (auto simp: calls_ok_def)
  moreover have "out t \<noteq> []" if "out' t \<noteq> []" for t
    using calculation [of t] that by (cases "out t") auto
  ultimately show ?thesis using assms(1,3) by (fastforce simp: calls_ok_def)
qed

text \<open>A node whose outstanding calls shrink or move keeps its part of the invariant.\<close>

lemma node_inv_shrink:
  assumes "node_inv N V nc c r" and "set gs \<subseteq> set (goroutines r)"
    and "\<And>t. mset (gor_calls (r\<lparr>goroutines := gs\<rparr>) t @ nc' t) \<subseteq># mset (gor_calls r t @ nc t)"
  shows "node_inv N V nc' c (r\<lparr>goroutines := gs\<rparr>)"
proof -
  let ?r = "r\<lparr>goroutines := gs\<rparr>"
  have calls: "calls_ok N c (currentTerm r) (\<lambda>t. gor_calls ?r t @ nc' t)"
    by (rule calls_ok_shrink [of _ _ "currentTerm r" "\<lambda>t. gor_calls r t @ nc t"])
      (use assms(1,3) in \<open>auto simp: node_inv_def\<close>)
  have "set (gor_calls ?r t @ nc' t) \<subseteq> set (gor_calls r t @ nc t)" for t
    using set_mset_mono [OF assms(3) [of t]] by simp
  then have "tally_ok N V (gor_calls ?r (currentTerm r) @ nc' (currentTerm r)) c r" if "state r = Candidate"
    using assms(1) that tally_mono [of N V _ c r V] by (auto simp: node_inv_def)
  then have "tally_ok N V (gor_calls ?r (currentTerm r) @ nc' (currentTerm r)) c ?r" if "state r = Candidate"
    using that by (simp add: tally_ok_def)
  moreover have "durable ?r = durable r" "vote_persisted ?r = vote_persisted r"
    by (simp_all add: durable_def vote_persisted_def)
  then have "static_ok N c ?r" using assms(1) by (simp add: node_inv_def static_ok_def)
  moreover have "vote_args_ok c ?r" using assms(1,2) unfolding node_inv_def vote_args_ok_def by force
  moreover have "cast c ?r = cast c r" by (simp add: cast_def)
  then have "voted_ok V c ?r" using assms(1) by (simp add: node_inv_def voted_ok_def)
  ultimately show ?thesis using calls assms(1) by (simp add: node_inv_def)
qed

lemma node_inv_shrink_net:
  "node_inv N V nc c r \<Longrightarrow> (\<And>t. mset (nc' t) \<subseteq># mset (nc t)) \<Longrightarrow> node_inv N V nc' c r"
  using node_inv_shrink [of N V nc c r "goroutines r" nc'] by simp

lemma node_inv_cast: "node_inv N V nc c r \<Longrightarrow> V \<union> cast c r = V"
  by (auto simp: node_inv_def voted_ok_def)

section \<open>Steps that do not touch an election\<close>

lemma static_ok_same_group: "same_group r r' \<Longrightarrow> static_ok N c r \<Longrightarrow> static_ok N c r'"
  by (simp add: same_group_def static_ok_def)

lemma in_cast: "(c, t, x) \<in> cast d r \<longleftrightarrow> c = d \<and> t = currentTerm r \<and> x = votedFor r \<and> x \<noteq> []"
  by (auto simp: cast_def)

lemma voted_ok_later:
  assumes "voted_ok V c r" and "currentTerm r < currentTerm r'"
  shows "voted_ok (V \<union> cast c r') c r'"
proof -
  have "t < currentTerm r'" if "(c, t, x) \<in> V" for t x
    using assms that unfolding voted_ok_def by (elim conjE allE [of _ t] allE [of _ x]) auto
  then show ?thesis by (auto simp: voted_ok_def in_cast)
qed

lemma quiet_node_inv:
  assumes "node_inv N V nc c r" and "quiet r r'"
  shows "node_inv N (V \<union> cast c r') nc c r'"
proof -
  have fil: "filter is_vote_call (goroutines r') = filter is_vote_call (goroutines r)"
    and grp: "same_group r r'" and el: "elections r' = elections r"
    using assms(2) by (auto simp: quiet_def)
  have gc: "gor_calls r' = gor_calls r" by (rule ext) (simp add: gor_calls_filter fil)
  have st: "static_ok N c r'"
    using static_ok_same_group [OF grp] assms(1) by (simp add: node_inv_def)
  have "GoRequestVote p args t \<in> set (goroutines r') \<longleftrightarrow> GoRequestVote p args t \<in> set (goroutines r)" for p args t
    by (metis in_vote_calls fil)
  then have va: "vote_args_ok c r'" using assms(1) by (simp add: node_inv_def vote_args_ok_def)
  show ?thesis
  proof (cases "currentTerm r < currentTerm r'")
    case True
    then have "votedFor r' = []" "state r' = Follower" using assms(2) by (auto simp: quiet_def)
    moreover have "voted_ok (V \<union> cast c r') c r'"
      using voted_ok_later [OF _ True] assms(1) by (simp add: node_inv_def)
    moreover have "calls_ok N c (currentTerm r') (\<lambda>t. gor_calls r t @ nc t)"
      using assms(1) True calls_ok_shrink [of N c "currentTerm r" "\<lambda>t. gor_calls r t @ nc t"]
      by (simp add: node_inv_def)
    ultimately show ?thesis using st va by (simp add: node_inv_def gc cast_def)
  next
    case False
    then have same: "currentTerm r' = currentTerm r" "votedFor r' = votedFor r" "state r' = state r"
      using assms(2) by (auto simp: quiet_def)
    then have "cast c r' = cast c r" by (simp add: cast_def)
    then show ?thesis
      using assms(1) st va same node_inv_cast [OF assms(1)]
      by (simp add: node_inv_def gc tally_ok_def voted_ok_def el)
  qed
qed

lemma cinv_quiet:
  assumes "cinv N s" and "c \<in> N" and "quiet (nodes s c) r'"
    and "nodes s' = nodes s" "votes s' = votes s" "net s' = net s"
  shows "cinv N (upd c r' s')"
  using cinv_upd_node [OF assms(1,2,4-6)] quiet_node_inv [OF cinvD(3) [OF assms(1,2)] assms(3)] by simp

lemma quiet_drop: "\<not> is_vote_call g \<Longrightarrow> quiet r (drop_goroutine g r)"
proof -
  assume g: "\<not> is_vote_call g"
  have "filter is_vote_call (remove1 g gs) = filter is_vote_call gs" for gs
    using g by (induction gs) auto
  then show ?thesis by (simp add: drop_goroutine_def quiet_defs)
qed

section \<open>Starting an election\<close>

lemma peers_group:
  assumes "static_ok N c r" and "finite N"
  shows "map peer_addr (nonLearnerPeers r) = map fst (peers r)" "length (nonLearnerPeers r) = card (N - {c})"
    "distinct (map fst (peers r))"
proof -
  have all: "\<And>k p. (k, p) \<in> set (peers r) \<Longrightarrow> peer_addr p = k \<and> \<not> peer_learner p"
    and keys: "fst ` set (peers r) = N - {c}" and d: "distinct (map fst (peers r))"
    using assms(1) by (auto simp: static_ok_def)
  have n: "nonLearnerPeers r = map snd (peers r)"
    using all by (force simp: nonLearnerPeers_def filter_id_conv)
  show "map peer_addr (nonLearnerPeers r) = map fst (peers r)" using all by (simp add: n)
  show "distinct (map fst (peers r))" by (rule d)
  have "card (set (map fst (peers r))) = length (peers r)" using distinct_card [OF d] by simp
  then show "length (nonLearnerPeers r) = card (N - {c})" by (simp add: n keys)
qed

lemma gor_calls_spawn: "gor_calls (spawn gs r) t = gor_calls r t @ concat (map (call_of t) gs)"
  by (simp add: gor_calls_def)

lemma calls_ok_later: "calls_ok N c now out \<Longrightarrow> now < t \<Longrightarrow> out t = []"
  by (metis calls_ok_def not_le)

text \<open>The node right after \<open>startElection\<close>: term, role, vote, and the calls it has made.\<close>

lemma startElection_facts:
  assumes "currentTerm r < u64_max" and "durable r"
  shows "currentTerm (startElection r) = Suc (currentTerm r)" "votedFor (startElection r) = selfAddr r"
    "same_group r (startElection r)"
    "peers r = [] \<Longrightarrow> state (startElection r) = Leader \<and> gor_calls (startElection r) = gor_calls r"
    "peers r \<noteq> [] \<Longrightarrow> state (startElection r) = Candidate \<and>
       gor_calls (startElection r) = (\<lambda>t. gor_calls r t @
         (if t = Suc (currentTerm r) then map peer_addr (nonLearnerPeers r) else [])) \<and>
       map_of (elections (startElection r)) (Suc (currentTerm r)) =
         Some \<lparr>el_votes = 1, el_oldConfigVotes = 1, el_newConfigVotes = 0, el_configState = configState r,
               el_oldConfigCount = length (currentConfig r), el_newConfigCount = length (nil_map (newConfig r)),
               el_nonLearnerPeers = length (nonLearnerPeers r)\<rparr>"
proof -
  note defs = startElection_def Let_def u64_inc_Suc [OF assms(1)]
  show "currentTerm (startElection r) = Suc (currentTerm r)" "votedFor (startElection r) = selfAddr r"
    by (simp_all add: defs)
  have "vote_persisted (startElection r)" if "peers r = []"
    unfolding startElection_def Let_def using that
    by (simp add: vote_persisted_saveState durable_def assms(2) [unfolded durable_def])
  moreover have "vote_persisted (startElection r)" if "peers r \<noteq> []"
    unfolding startElection_def Let_def using that
    by (simp add: vote_persisted_saveState durable_def assms(2) [unfolded durable_def])
  moreover have "durable (startElection r) = durable r"
    by (simp add: defs durable_def)
  ultimately show "same_group r (startElection r)"
    by (auto simp: same_group_def) (simp_all add: defs)
  show "state (startElection r) = Leader \<and> gor_calls (startElection r) = gor_calls r" if "peers r = []"
    using that by (simp add: defs gor_calls_def becomeLeader_def sendHeartbeats_def close_pending_def fun_eq_iff)
  have calls: "concat (map (call_of t \<circ> (\<lambda>p. GoRequestVote (peer_addr p) args t')) ps) =
      (if t' = t then map peer_addr ps else [])" for t t' args ps
    by (induction ps) auto
  show "state (startElection r) = Candidate \<and>
       gor_calls (startElection r) = (\<lambda>t. gor_calls r t @
         (if t = Suc (currentTerm r) then map peer_addr (nonLearnerPeers r) else [])) \<and>
       map_of (elections (startElection r)) (Suc (currentTerm r)) =
         Some \<lparr>el_votes = 1, el_oldConfigVotes = 1, el_newConfigVotes = 0, el_configState = configState r,
               el_oldConfigCount = length (currentConfig r), el_newConfigCount = length (nil_map (newConfig r)),
               el_nonLearnerPeers = length (nonLearnerPeers r)\<rparr>" if "peers r \<noteq> []"
    using that by (simp add: defs gor_calls_def calls fun_eq_iff)
qed

lemma startElection_args:
  assumes "vote_args_ok c r" and "selfAddr r = c"
  shows "vote_args_ok c (startElection r)"
  using assms by (auto simp: vote_args_ok_def startElection_def Let_def becomeLeader_def sendHeartbeats_def
      close_pending_def)

lemma startElection_inv:
  assumes inv: "node_inv N V nc c r" and V: "votes_ok N V" and c: "c \<in> N" "c \<noteq> []" and fin: "finite N"
    and t: "currentTerm r < u64_max"
  shows "node_inv N (V \<union> cast c (startElection r)) nc c (startElection r)"
proof -
  let ?r = "startElection r" and ?t = "Suc (currentTerm r)"
  let ?V = "V \<union> cast c ?r"
  have st: "static_ok N c r" and calls: "calls_ok N c (currentTerm r) (\<lambda>t. gor_calls r t @ nc t)"
    using inv by (simp_all add: node_inv_def)
  have dur: "durable r" and self: "selfAddr r = c" and cfg: "configState r = ConfigStable"
    and keys: "fst ` set (peers r) = N - {c}"
    using st by (simp_all add: static_ok_def)
  note f = startElection_facts [OF t dur]
  have voted: "voted_ok ?V c ?r" using voted_ok_later [of V c r ?r] inv f(1) by (simp add: node_inv_def)
  have st': "static_ok N c ?r" by (rule static_ok_same_group [OF f(3) st])
  have args: "vote_args_ok c ?r" using startElection_args [of c r] inv self by (simp add: node_inv_def)
  have none: "gor_calls r ?t = []" "nc ?t = []"
    using calls_ok_later [OF calls, of ?t] by simp_all
  have mine: "(c, ?t, c) \<in> ?V" using f(1,2) self c by (simp add: in_cast)
  show ?thesis
  proof (cases "peers r = []")
    case True
    then have N: "N = {c}" using keys c by auto
    have "{v. (v, ?t, c) \<in> ?V} = {c}"
      using mine V N by (auto simp: votes_ok_def in_cast)
    then have "elected N ?V c ?t" by (simp add: elected_def majority_def N)
    moreover have "calls_ok N c ?t (\<lambda>t. gor_calls r t @ nc t)"
      by (rule calls_ok_shrink [OF calls]) simp_all
    ultimately show ?thesis using st' args voted f(1) f(4) [OF True] by (simp add: node_inv_def)
  next
    case False
    note g = f(5) [OF False] and p = peers_group [OF st fin]
    have "calls_ok N c ?t (\<lambda>t. gor_calls ?r t @ nc t)"
      using calls none p keys g by (auto simp: calls_ok_def distinct_map le_SucI)
    moreover have "tally_ok N ?V (gor_calls ?r ?t @ nc ?t) c ?r"
      using g f(1,2) p(2) self cfg unfolding tally_ok_def by (intro conjI exI [of _ "{}"] exI) auto
    ultimately show ?thesis using st' args voted g f(1) by (simp add: node_inv_def)
  qed
qed

section \<open>Giving a vote\<close>

lemma RequestVote_shape:
  assumes "RequestVote args r = (reply, r')"
  shows "\<not> rvr_VoteGranted reply \<and> quiet r r' \<or>
    (\<exists>r1. quiet r r1 \<and> currentTerm r1 = rv_Term args \<and>
          (votedFor r1 = [] \<or> votedFor r1 = rv_CandidateId args) \<and> rvr_VoteGranted reply \<and>
          r' = saveState (r1\<lparr>votedFor := rv_CandidateId args\<rparr>))"
proof (cases "rv_Term args < currentTerm r")
  case True
  with assms show ?thesis by (auto simp: RequestVote_def)
next
  case False
  let ?r1 = "if currentTerm r < rv_Term args then becomeFollower (rv_Term args) r else r"
  have q: "quiet r ?r1" "currentTerm ?r1 = rv_Term args" using False by (simp_all add: quiet_becomeFollower)
  let ?ok = "(votedFor ?r1 = [] \<or> votedFor ?r1 = rv_CandidateId args) \<and>
     isLogUpToDate (rv_LastLogIndex args) (rv_LastLogTerm args) ?r1"
  have "RequestVote args r =
    (if ?ok then (\<lparr>rvr_Term = currentTerm (saveState (?r1\<lparr>votedFor := rv_CandidateId args\<rparr>)), rvr_VoteGranted = True\<rparr>,
                  saveState (?r1\<lparr>votedFor := rv_CandidateId args\<rparr>))
     else (\<lparr>rvr_Term = currentTerm ?r1, rvr_VoteGranted = False\<rparr>, ?r1))"
    unfolding RequestVote_def Let_def using False by (simp only: if_False)
  with assms have "if ?ok then rvr_VoteGranted reply \<and> r' = saveState (?r1\<lparr>votedFor := rv_CandidateId args\<rparr>)
      else \<not> rvr_VoteGranted reply \<and> r' = ?r1"
    by (cases ?ok) (simp_all only: if_True if_False prod.inject, auto)
  then show ?thesis using q by (cases ?ok) (simp_all only: if_True if_False, blast+)
qed

lemma vote_node_inv:
  assumes inv: "node_inv N V nc c r" and free: "votedFor r = [] \<or> votedFor r = x" and c: "c \<noteq> []"
    and V: "votes_ok N V" and N: "c \<in> N"
  shows "node_inv N (V \<union> cast c (saveState (r\<lparr>votedFor := x\<rparr>))) nc c (saveState (r\<lparr>votedFor := x\<rparr>))"
proof (cases "votedFor r = x")
  case True
  then have "r\<lparr>votedFor := x\<rparr> = r" by simp
  then show ?thesis using quiet_node_inv [OF inv quiet_saveState] by simp
next
  case False
  let ?r = "saveState (r\<lparr>votedFor := x\<rparr>)"
  have empty: "votedFor r = []" using free False by simp
  have st: "static_ok N c r" and nocand: "state r \<noteq> Candidate"
    using inv empty c by (auto simp: node_inv_def tally_ok_def)
  have d: "durable (r\<lparr>votedFor := x\<rparr>) = durable r" by (simp add: durable_def)
  have "static_ok N c ?r"
    using st d vote_persisted_saveState [of "r\<lparr>votedFor := x\<rparr>"] by (simp add: static_ok_def)
  moreover have "vote_args_ok c ?r" using inv by (simp add: node_inv_def vote_args_ok_def)
  moreover have "gor_calls ?r = gor_calls r" by (simp add: gor_calls_def fun_eq_iff)
  moreover have voted: "voted_ok (V \<union> cast c ?r) c ?r"
  proof -
    have "t < currentTerm r" if "(c, t, y) \<in> V" for t y
    proof -
      have "t < currentTerm r \<or> t = currentTerm r \<and> votedFor r = y"
        using inv that by (simp add: node_inv_def voted_ok_def)
      moreover have "y \<noteq> []" using V that by (auto simp: votes_ok_def)
      ultimately show ?thesis using empty by simp
    qed
    then show ?thesis by (auto simp: voted_ok_def in_cast)
  qed
  moreover have "elected N (V \<union> cast c ?r) c (currentTerm r)" if "state r = Leader"
    by (rule elected_mono [of N V, OF _ _ votes_ok_cast [OF V N voted]]) (use inv that in \<open>simp_all add: node_inv_def\<close>)
  ultimately show ?thesis using inv nocand by (simp add: node_inv_def)
qed

lemma RequestVote_inv:
  assumes inv: "node_inv N V nc p r" and V: "votes_ok N V" and p: "p \<in> N" "p \<noteq> []"
    and rv: "RequestVote args r = (reply, r')"
  shows "node_inv N (V \<union> cast p r') nc p r'"
    and "rvr_VoteGranted reply \<Longrightarrow> rv_CandidateId args \<noteq> [] \<Longrightarrow> (p, rv_Term args, rv_CandidateId args) \<in> cast p r'"
proof -
  show "node_inv N (V \<union> cast p r') nc p r'"
  proof (cases "quiet r r'")
    case False
    then obtain r1 where r1: "quiet r r1" "votedFor r1 = [] \<or> votedFor r1 = rv_CandidateId args"
      and r': "r' = saveState (r1\<lparr>votedFor := rv_CandidateId args\<rparr>)"
      using RequestVote_shape [OF rv] by blast
    have 1: "node_inv N (V \<union> cast p r1) nc p r1" by (rule quiet_node_inv [OF inv r1(1)])
    then have 2: "votes_ok N (V \<union> cast p r1)" using votes_ok_cast [OF V p(1)] by (simp add: node_inv_def)
    have 3: "cast p r1 \<subseteq> V \<union> cast p r'"
    proof (cases "votedFor r1 = []")
      case False
      then have "r1\<lparr>votedFor := rv_CandidateId args\<rparr> = r1" using r1(2) by auto
      then show ?thesis unfolding r' by (simp add: cast_def)
    qed (simp add: cast_def)
    have "node_inv N (V \<union> cast p r1 \<union> cast p r') nc p r'"
      unfolding r' by (rule vote_node_inv [OF 1 r1(2) p(2) 2 p(1)])
    moreover have "V \<union> cast p r1 \<union> cast p r' = V \<union> cast p r'" using 3 by auto
    ultimately show "node_inv N (V \<union> cast p r') nc p r'" by (simp only:)
  qed (rule quiet_node_inv [OF inv])
  show "(p, rv_Term args, rv_CandidateId args) \<in> cast p r'"
    if "rvr_VoteGranted reply" "rv_CandidateId args \<noteq> []"
    using RequestVote_shape [OF rv] that by (auto simp: in_cast)
qed

section \<open>Counting a vote\<close>

lemma becomeLeader_node_inv:
  assumes "node_inv N V nc c r" and "elected N V c (currentTerm r)"
  shows "node_inv N V nc c (becomeLeader r)"
proof -
  have fil: "filter is_vote_call (goroutines (becomeLeader r)) = filter is_vote_call (goroutines r)"
    by (simp add: becomeLeader_def close_pending_def sendHeartbeats_def is_vote_call_def filter_empty_conv split_def)
  then have "gor_calls (becomeLeader r) = gor_calls r" by (simp add: gor_calls_filter fun_eq_iff)
  moreover have "vote_args_ok c (becomeLeader r)"
    using assms(1) in_vote_calls fil unfolding node_inv_def vote_args_ok_def by metis
  moreover have "durable (becomeLeader r) = durable r" "vote_persisted (becomeLeader r) = vote_persisted r"
    "cast c (becomeLeader r) = cast c r"
    by (simp_all add: durable_def vote_persisted_def cast_def)
  ultimately show ?thesis using assms by (simp add: node_inv_def static_ok_def voted_ok_def)
qed

lemma elections_node_inv:
  assumes "node_inv N V nc c r"
    and "state r = Candidate \<Longrightarrow> tally_ok N V (gor_calls r (currentTerm r) @ nc (currentTerm r)) c (r\<lparr>elections := e\<rparr>)"
  shows "node_inv N V nc c (r\<lparr>elections := e\<rparr>)"
proof -
  let ?r = "r\<lparr>elections := e\<rparr>"
  have "durable ?r = durable r" "vote_persisted ?r = vote_persisted r" "cast c ?r = cast c r"
    "gor_calls ?r = gor_calls r" "vote_args_ok c ?r = vote_args_ok c r"
    by (simp_all add: durable_def vote_persisted_def cast_def gor_calls_def fun_eq_iff vote_args_ok_def)
  then show ?thesis using assms by (simp add: node_inv_def static_ok_def voted_ok_def)
qed

text \<open>More than half of the votes is a majority of the group.\<close>

lemma won_elected:
  assumes "finite N" "c \<in> N" "S \<subseteq> N - {c}" "(card (N - {c}) + 1) div 2 < card S + 1"
    "\<And>p. p \<in> insert c S \<Longrightarrow> (p, t, c) \<in> V" "votes_ok N V"
  shows "elected N V c t"
proof -
  have "card (N - {c}) + 1 = card N" using assms(1,2) by (metis Suc_eq_plus1 card_Suc_Diff1)
  moreover have "card (insert c S) = card S + 1"
    using assms(1,3) by (subst card_insert_disjoint) (auto intro: finite_subset)
  ultimately have "majority N (insert c S)" using assms by (auto simp: majority_def)
  then show ?thesis unfolding elected_def
    by (rule majority_mono) (use assms in \<open>auto simp: votes_ok_def\<close>)
qed

lemma handleVoteReply_inv:
  assumes inv: "node_inv N V nc c r" and V: "votes_ok N V" and c: "c \<in> N" "c \<noteq> []" and fin: "finite N"
    and sub: "\<And>t. mset (nc' t) \<subseteq># mset (nc t)"
    and p: "p \<in> set (nc t)" "p \<notin> set (gor_calls r t @ nc' t)" "rvr_VoteGranted reply \<Longrightarrow> (p, t, c) \<in> V"
  shows "node_inv N (V \<union> cast c (handleVoteReply p t reply r)) nc' c (handleVoteReply p t reply r)"
proof -
  have inv': "node_inv N V nc' c r" by (rule node_inv_shrink_net [OF inv sub])
  note V' = node_inv_cast [OF inv']
  consider (later) "currentTerm r < rvr_Term reply"
    | (count) "\<not> currentTerm r < rvr_Term reply" "state r = Candidate" "currentTerm r = t" "rvr_VoteGranted reply"
    | (skip) "\<not> currentTerm r < rvr_Term reply" "\<not> (state r = Candidate \<and> currentTerm r = t \<and> rvr_VoteGranted reply)"
    by blast
  then show ?thesis
  proof cases
    case later
    then have "quiet r (handleVoteReply p t reply r)" by (simp add: handleVoteReply_def quiet_becomeFollower)
    then show ?thesis by (rule quiet_node_inv [OF inv'])
  next
    case count
    then have tal: "tally_ok N V (gor_calls r t @ nc t) c r" using inv by (simp add: node_inv_def)
    then obtain el S where el: "map_of (elections r) t = Some el" "el_configState el = ConfigStable"
        "el_nonLearnerPeers el = card (N - {c})" "el_votes el = card S + 1"
      and S: "S \<subseteq> N - {c}" "\<And>q. q \<in> S \<Longrightarrow> (q, t, c) \<in> V" "S \<inter> set (gor_calls r t @ nc t) = {}"
      and self: "votedFor r = c"
      using count(3) unfolding tally_ok_def by auto
    let ?el = "el\<lparr>el_votes := el_votes el + 1\<rparr>"
    let ?e = "put t ?el (elections r)"
    have cv: "count_vote p r el = ?el" by (simp add: count_vote_def el(2))
    have pN: "p \<in> N - {c}" using inv p(1) by (auto simp: node_inv_def calls_ok_def)
    have "p \<notin> S" using S(3) p(1) by auto
    then have card: "card (insert p S) = card S + 1"
      using S(1) fin by (subst card_insert_disjoint) (auto intro: finite_subset)
    have all: "\<And>q. q \<in> insert p S \<Longrightarrow> (q, t, c) \<in> V" using S(2) p(3) count(4) by auto
    have sub': "set (nc' t) \<subseteq> set (nc t)" using set_mset_mono [OF sub [of t]] by simp
    have "tally_ok N V (gor_calls r t @ nc' t) c (r\<lparr>elections := ?e\<rparr>)"
      unfolding tally_ok_def
      by (rule conjI, rule exI [of _ ?el], rule exI [of _ "insert p S"])
        (use el S all pN card sub' p(2) count(3) self in auto)
    then have inv2: "node_inv N V nc' c (r\<lparr>elections := ?e\<rparr>)"
      using elections_node_inv [OF inv'] count(3) by simp
    have mine: "(c, t, c) \<in> V" using V' self c count(3) by (auto simp: cast_def)
    have "elected N V c t" if "election_won ?el"
      by (rule won_elected [of N c "insert p S"])
        (use that el card S pN all mine V fin c in \<open>auto simp: election_won_def\<close>)
    then have lead: "node_inv N V nc' c (becomeLeader (r\<lparr>elections := ?e\<rparr>))" if "election_won ?el"
      using becomeLeader_node_inv [OF inv2] that count(3) by simp
    let ?r' = "if election_won ?el then becomeLeader (r\<lparr>elections := ?e\<rparr>) else r\<lparr>elections := ?e\<rparr>"
    have r': "handleVoteReply p t reply r = ?r'"
      using count el(1) by (simp add: handleVoteReply_def Let_def cv)
    have "node_inv N V nc' c ?r'" using lead inv2 by simp
    moreover from node_inv_cast [OF this] have "V \<union> cast c ?r' = V" .
    ultimately show ?thesis unfolding r' by (simp only:)
  next
    case skip
    then have "handleVoteReply p t reply r = r" unfolding handleVoteReply_def by (simp only: if_False)
    then show ?thesis using inv' V' by simp
  qed
qed

section \<open>Crash and restart\<close>

lemma add_peers_peers:
  assumes "gm_ok (peers r)" and "\<And>k p. map_of (peers r) k = Some p \<Longrightarrow> peer_addr p = k \<and> \<not> peer_learner p"
  shows "gm_ok (peers (add_peers as r)) \<and> fst ` set (peers (add_peers as r)) = fst ` set (peers r) \<union> (set as - {selfAddr r}) \<and>
    (\<forall>k p. map_of (peers (add_peers as r)) k = Some p \<longrightarrow> peer_addr p = k \<and> \<not> peer_learner p)"
  using assms
proof (induction as arbitrary: r)
  case (Cons a as)
  define r2 where "r2 = (if a \<noteq> selfAddr r
            then r\<lparr>peers := put a \<lparr>peer_addr = a, peer_learner = False\<rparr> (peers r),
                   currentConfig := put a True (currentConfig r), isr := put a True (isr r)\<rparr>
            else r)"
  have ok: "gm_ok (peers r2)" using Cons.prems(1) by (simp add: r2_def distinct_update)
  have all: "peer_addr p = k \<and> \<not> peer_learner p" if "map_of (peers r2) k = Some p" for k p
    using that Cons.prems(2) [of k p] by (auto simp: r2_def map_of_put split: if_splits)
  have "fst ` set (peers r2) = fst ` set (peers r) \<union> ({a} - {selfAddr r})" "selfAddr r2 = selfAddr r"
    by (auto simp: r2_def dom_update)
  then have "fst ` set (peers r2) \<union> (set as - {selfAddr r2}) = fst ` set (peers r) \<union> (set (a # as) - {selfAddr r})"
    by auto
  moreover have "add_peers (a # as) r = add_peers as r2" by (simp add: r2_def)
  moreover have "gm_ok (peers (add_peers as r2)) \<and>
      fst ` set (peers (add_peers as r2)) = fst ` set (peers r2) \<union> (set as - {selfAddr r2}) \<and>
      (\<forall>k p. map_of (peers (add_peers as r2)) k = Some p \<longrightarrow> peer_addr p = k \<and> \<not> peer_learner p)"
    by (rule Cons.IH) (use ok all in blast)+
  ultimately show ?case by (simp only: simp_thms) (elim conjE, assumption)
qed simp

lemma NewRaftNode_peers:
  "gm_ok (peers (NewRaftNode c addrs ch dir d tid)) \<and>
   fst ` set (peers (NewRaftNode c addrs ch dir d tid)) = set addrs - {c} \<and>
   (\<forall>(k, p) \<in> set (peers (NewRaftNode c addrs ch dir d tid)). peer_addr p = k \<and> \<not> peer_learner p)"
proof -
  define r where "r = \<lparr>state = Follower, currentTerm = 0, votedFor = [], log = [sentinel], commitIndex = 0,
        lastApplied = 0, nextIndex = [], matchIndex = [], peers = [], selfAddr = c,
        applyCh = ch, applied = [], dataDir = dir, pendingCommit = [], chanCount = 0,
        closedChans = [], isr = [], maxLag = 10000, currentConfig = [(c, True)],
        newConfig = None, configState = ConfigStable, persistedIndex = 0, elections = [],
        goroutines = [], disk = d, gobTypeId = tid\<rparr>"
  have "peers (NewRaftNode c addrs ch dir d tid) = peers (add_peers addrs r)"
    by (simp add: NewRaftNode_def loadState_def r_def split: option.split)
  moreover have "peers r = []" "selfAddr r = c" by (simp_all add: r_def)
  ultimately show ?thesis using add_peers_peers [of r addrs] by auto
qed

lemma restart_inv:
  assumes inv: "node_inv N V nc c r" and addrs: "set addrs = N"
  shows "node_inv N (V \<union> cast c (restart addrs tid r)) (\<lambda>t. []) c (restart addrs tid r)"
proof -
  let ?r = "restart addrs tid r"
  have st: "static_ok N c r" using inv by (simp add: node_inv_def)
  then have f: "currentTerm ?r = currentTerm r" "votedFor ?r = votedFor r" "configState ?r = configState r"
    "state ?r = Follower" "durable ?r" "vote_persisted ?r" "selfAddr ?r = selfAddr r" "goroutines ?r = []"
    using restart_vote [of r addrs tid] by (auto simp: static_ok_def)
  have "static_ok N c ?r"
    using st f NewRaftNode_peers [of c addrs "applyCh r" "dataDir r" "disk r" tid] addrs
    by (simp add: static_ok_def restart_def)
  moreover have "cast c ?r = cast c r" using f by (simp add: cast_def)
  ultimately show ?thesis
    using inv f node_inv_cast [OF inv]
    by (simp add: node_inv_def vote_args_ok_def voted_ok_def calls_ok_def gor_calls_def)
qed

lemma NewRaftNode_static:
  assumes "disk_ok d" and "dir \<noteq> []"
  shows "static_ok (set addrs) c (NewRaftNode c addrs ch dir d tid)"
    and "goroutines (NewRaftNode c addrs ch dir d tid) = []" and "state (NewRaftNode c addrs ch dir d tid) = Follower"
proof -
  let ?r = "NewRaftNode c addrs ch dir d tid"
  have "selfAddr ?r = c" "configState ?r = ConfigStable" "durable ?r" "vote_persisted ?r"
    using assms
    by (auto simp: NewRaftNode_def loadState_def disk_ok_def durable_def vote_persisted_def vote_file_ok_def
        split: option.splits)
  then show "static_ok (set addrs) c ?r" using NewRaftNode_peers [of c addrs ch dir d tid] by (simp add: static_ok_def)
  show "goroutines ?r = []" "state ?r = Follower"
    by (simp_all add: NewRaftNode_def loadState_def split: option.split)
qed

lemma initial_inv:
  assumes "set addrs = N" and "\<And>c. c \<in> N \<Longrightarrow> disk_ok (disks c) \<and> dir c \<noteq> []"
  shows "cinv N (initial addrs dir disks tid)"
proof -
  define node where "node = (\<lambda>c. NewRaftNode c addrs True (dir c) (disks c) tid)"
  define V where "V = (\<Union>c \<in> N. cast c (node c))"
  have V: "votes_ok N V" by (auto simp: votes_ok_def V_def in_cast)
  have "node_inv N V (net_calls [] c) c (node c)" if "c \<in> N" for c
  proof -
    have "static_ok N c (node c)" "goroutines (node c) = []" "state (node c) = Follower"
      using NewRaftNode_static [where d = "disks c" and dir = "dir c" and addrs = addrs and c = c and ch = True and tid = tid]
        assms(2) [OF that] assms(1)
      by (auto simp: node_def)
    moreover have "voted_ok V c (node c)" using that by (auto simp: voted_ok_def V_def in_cast)
    ultimately show ?thesis by (simp add: node_inv_def vote_args_ok_def calls_ok_def gor_calls_def net_calls_def)
  qed
  with V show ?thesis by (simp add: cinv_def initial_def node_def V_def assms(1) Let_def)
qed

section \<open>Every step keeps the invariant\<close>

text \<open>A network in which the calls of every other node are the same, and those of \<open>c\<close> moved or finished.\<close>

lemma cinv_net:
  assumes "cinv N s" and "\<And>c t. mset (net_calls ms c t) \<subseteq># mset (net_calls (net s) c t)"
    and "\<And>m. m \<in> set ms \<Longrightarrow> msg_ok N (votes s) m"
  shows "cinv N (s\<lparr>net := ms\<rparr>)"
proof -
  have "node_inv N (votes s) (net_calls ms c) c (nodes s c)" if "c \<in> N" for c
    by (rule node_inv_shrink_net [OF cinvD(3) [OF assms(1) that] assms(2)])
  then show ?thesis using cinvD(1) [OF assms(1)] assms(3) by (simp add: cinv_def)
qed

lemma cinv_send_vote:
  assumes "cinv N s" and "c \<in> N" and g: "GoRequestVote p args t \<in> set (goroutines (nodes s c))"
  shows "cinv N (upd c (drop_goroutine (GoRequestVote p args t) (nodes s c)) (s\<lparr>net := VoteReq c p t args # net s\<rparr>))"
proof -
  let ?g = "GoRequestVote p args t" and ?ms = "VoteReq c p t args # net s"
  let ?r = "drop_goroutine ?g (nodes s c)"
  have inv: "node_inv N (votes s) (net_calls (net s) c) c (nodes s c)" by (rule cinvD(3) [OF assms(1,2)])
  have n: "node_inv N (votes s) (net_calls ?ms c) c ?r"
    unfolding drop_goroutine_def
    by (rule node_inv_shrink [OF inv])
      (use mset_drop_goroutine [OF g] set_remove1_subset [of ?g] in \<open>auto simp: drop_goroutine_def\<close>)
  have args: "rv_Term args = t \<and> rv_CandidateId args = c"
    using inv g by (auto simp: node_inv_def vote_args_ok_def)
  show ?thesis
  proof (rule cinv_upd [OF cinvD(1) [OF assms(1)] assms(2), of ?r ?ms])
    show "node_inv N (votes s \<union> cast c ?r) (net_calls ?ms c) c ?r" unfolding node_inv_cast [OF n] by (rule n)
    show "node_inv N (votes s) (net_calls ?ms d) d (nodes s d)" if "d \<in> N" "d \<noteq> c" for d
      by (rule node_inv_shrink_net [OF cinvD(3) [OF assms(1) that(1)]]) (use that in simp)
    show "msg_ok N (votes s \<union> cast c ?r) m" if "m \<in> set ?ms" for m
      using that args assms(2) cinvD(2) [OF assms(1)] msg_ok_mono [of N "votes s" m] by auto
  qed simp_all
qed

lemma cinv_recv_vote:
  assumes "cinv N s" and p: "p \<in> N" "p \<noteq> []" and m: "VoteReq c p t args \<in> set (net s)" and c: "c \<noteq> []"
    and rv: "RequestVote args (nodes s p) = (reply, r')"
  shows "cinv N (upd p r' (s\<lparr>net := VoteRep c p t reply # remove1 (VoteReq c p t args) (net s)\<rparr>))"
proof -
  let ?m = "VoteReq c p t args" and ?m' = "VoteRep c p t reply"
  let ?ms = "?m' # remove1 ?m (net s)"
  have inv: "node_inv N (votes s) (net_calls (net s) p) p (nodes s p)" by (rule cinvD(3) [OF assms(1) p(1)])
  have perm: "mset (net_calls ?ms d t') \<subseteq># mset (net_calls (net s) d t')" for d t'
    using mset_net_remove1 [OF m, of d t'] by simp
  note rv' = RequestVote_inv [OF node_inv_shrink_net [OF inv perm] cinvD(1) [OF assms(1)] p rv]
  have args: "c \<in> N" "rv_Term args = t" "rv_CandidateId args = c"
    using cinvD(2) [OF assms(1) m] by auto
  show ?thesis
  proof (rule cinv_upd [OF cinvD(1) [OF assms(1)] p(1) rv'(1)])
    show "node_inv N (votes s) (net_calls ?ms d) d (nodes s d)" if "d \<in> N" "d \<noteq> p" for d
      by (rule node_inv_shrink_net [OF cinvD(3) [OF assms(1) that(1)] perm])
    show "msg_ok N (votes s \<union> cast p r') m" if "m \<in> set ?ms" for m
      using that args rv'(2) c cinvD(2) [OF assms(1)] msg_ok_mono [of N "votes s" m]
      by (auto dest: set_remove1_subset [THEN subsetD])
  qed simp_all
qed

lemma cinv_vote_reply:
  assumes "cinv N s" and c: "c \<in> N" "c \<noteq> []" and m: "VoteRep c p t reply \<in> set (net s)" and fin: "finite N"
  shows "cinv N (upd c (handleVoteReply p t reply (nodes s c)) (s\<lparr>net := remove1 (VoteRep c p t reply) (net s)\<rparr>))"
proof -
  let ?m = "VoteRep c p t reply"
  let ?ms = "remove1 ?m (net s)"
  have inv: "node_inv N (votes s) (net_calls (net s) c) c (nodes s c)" by (rule cinvD(3) [OF assms(1) c(1)])
  have split: "mset (net_calls (net s) d t') = mset (msg_call d t' ?m) + mset (net_calls ?ms d t')" for d t'
    by (rule mset_net_remove1 [OF m])
  have perm: "mset (net_calls ?ms d t') \<subseteq># mset (net_calls (net s) d t')" for d t'
    using split [of d t'] by simp
  have dist: "distinct (gor_calls (nodes s c) t @ net_calls (net s) c t)"
    using inv by (simp add: node_inv_def calls_ok_def)
  have mem: "mset (net_calls (net s) c t) = mset (p # net_calls ?ms c t)" using split [of c t] by simp
  have p1: "p \<in> set (net_calls (net s) c t)" using mset_eq_setD [OF mem] by simp
  have "distinct (gor_calls (nodes s c) t @ p # net_calls ?ms c t)"
    using dist mset_eq_imp_distinct_iff [of "gor_calls (nodes s c) t @ net_calls (net s) c t"
        "gor_calls (nodes s c) t @ p # net_calls ?ms c t"] mem by simp
  then have p2: "p \<notin> set (gor_calls (nodes s c) t @ net_calls ?ms c t)" by auto
  have p3: "rvr_VoteGranted reply \<Longrightarrow> (p, t, c) \<in> votes s" using cinvD(2) [OF assms(1) m] by simp
  show ?thesis
  proof (rule cinv_upd [OF cinvD(1) [OF assms(1)] c(1)
        handleVoteReply_inv [OF inv cinvD(1) [OF assms(1)] c fin perm p1 p2 p3]])
    show "node_inv N (votes s) (net_calls ?ms d) d (nodes s d)" if "d \<in> N" "d \<noteq> c" for d
      by (rule node_inv_shrink_net [OF cinvD(3) [OF assms(1) that(1)] perm])
    show "msg_ok N (votes s \<union> cast c (handleVoteReply p t reply (nodes s c))) m" if "m \<in> set ?ms" for m
      using that cinvD(2) [OF assms(1)] msg_ok_mono [of N "votes s" m] by (auto dest: set_remove1_subset [THEN subsetD])
  qed simp_all
qed

lemma cinv_recv_orphan:
  assumes "cinv N s" and p: "p \<in> N" "p \<noteq> []" and m: "Orphan p args \<in> set (net s)"
  shows "cinv N (upd p (snd (RequestVote args (nodes s p))) (s\<lparr>net := remove1 (Orphan p args) (net s)\<rparr>))"
proof -
  let ?ms = "remove1 (Orphan p args) (net s)" and ?r = "snd (RequestVote args (nodes s p))"
  have perm: "mset (net_calls ?ms d t') \<subseteq># mset (net_calls (net s) d t')" for d t'
    using mset_net_remove1 [OF m, of d t'] by simp
  have msgs: "cinv N (s\<lparr>net := ?ms\<rparr>)"
    by (rule cinv_net [OF assms(1) perm]) (auto dest: set_remove1_subset [THEN subsetD] cinvD(2) [OF assms(1)])
  have "node_inv N (votes s \<union> cast p ?r) (net_calls ?ms p) p ?r"
    by (rule RequestVote_inv(1) [OF node_inv_shrink_net [OF cinvD(3) [OF assms(1) p(1)] perm]
          cinvD(1) [OF assms(1)] p, of args "fst (RequestVote args (nodes s p))"]) simp
  then show ?thesis by (intro cinv_upd_node [OF msgs p(1)]) simp_all
qed

text \<open>A call that fails is seen by its goroutine as a refusal.\<close>

lemma cinv_refusal:
  assumes "cinv N s" and m: "m \<in> set (net s)" and c: "c \<in> N"
    and call: "\<And>d t'. msg_call d t' m = (if c = d \<and> t = t' then [p] else [])"
    and ms: "ms = VoteRep c p t (requestVote None r) # extra @ remove1 m (net s)"
    and extra: "\<And>m'. m' \<in> set extra \<Longrightarrow> \<exists>q args. m' = Orphan q args"
  shows "cinv N (s\<lparr>net := ms\<rparr>)"
proof (rule cinv_net [OF assms(1)])
  have "net_calls extra d t' = []" for d t'
    using extra by (fastforce simp: net_calls_def concat_eq_Nil_conv)
  then show "mset (net_calls ms d t') \<subseteq># mset (net_calls (net s) d t')" for d t'
    using mset_net_remove1 [OF m, of d t'] call [of d t'] by (simp add: ms net_calls_def)
  show "msg_ok N (votes s) m'" if "m' \<in> set ms" for m'
    using that c extra cinvD(2) [OF assms(1)] set_remove1_subset [of m "net s"]
    by (auto simp: ms requestVote_def) fastforce
qed

text \<open>A node starts an election, from its timer or after a tie.\<close>

lemma cinv_election:
  assumes "cinv N s" and c: "c \<in> N" "c \<noteq> []" and fin: "finite N" and q: "quiet (nodes s c) r"
    and same: "votedFor r = votedFor (nodes s c)" "currentTerm r = currentTerm (nodes s c)"
    and t: "currentTerm r < u64_max"
  shows "cinv N (upd c (if P then startElection r else r) s)"
proof -
  have "cast c r = cast c (nodes s c)" using same by (simp add: cast_def)
  then have inv: "node_inv N (votes s) (net_calls (net s) c) c r"
    using quiet_node_inv [OF cinvD(3) [OF assms(1) c(1)] q] node_inv_cast [OF cinvD(3) [OF assms(1) c(1)]] by simp
  have "node_inv N (votes s \<union> cast c (if P then startElection r else r)) (net_calls (net s) c) c
          (if P then startElection r else r)"
    using startElection_inv [OF inv cinvD(1) [OF assms(1)] c fin t] inv node_inv_cast [OF inv] by simp
  then show ?thesis by (intro cinv_upd_node [OF assms(1) c(1)]) simp_all
qed

lemma cinv_restart:
  assumes "cinv N s" and c: "c \<in> N" and addrs: "set addrs = N"
  shows "cinv N (upd c (restart addrs tid (nodes s c)) (s\<lparr>net := orphans c (net s)\<rparr>))"
proof -
  let ?ms = "orphans c (net s)" and ?r = "restart addrs tid (nodes s c)"
  have inv: "node_inv N (votes s) (net_calls (net s) c) c (nodes s c)" by (rule cinvD(3) [OF assms(1) c])
  have nc: "net_calls ?ms c = (\<lambda>t. [])" by (simp add: net_calls_orphans fun_eq_iff)
  have msgs: "msg_ok N (votes s) m'" if "m \<in> set (net s)" "m' \<in> set (orphan c m)" for m m'
    by (insert that(2) cinvD(2) [OF assms(1) that(1)], cases m) (auto split: if_splits)
  show ?thesis
  proof (rule cinv_upd [OF cinvD(1) [OF assms(1)] c, of ?r ?ms])
    show "node_inv N (votes s \<union> cast c ?r) (net_calls ?ms c) c ?r"
      unfolding nc by (rule restart_inv [OF inv addrs])
    show "node_inv N (votes s) (net_calls ?ms d) d (nodes s d)" if "d \<in> N" "d \<noteq> c" for d
      by (rule node_inv_shrink_net [OF cinvD(3) [OF assms(1) that(1)]]) (use that in \<open>simp add: net_calls_orphans\<close>)
    show "msg_ok N (votes s \<union> cast c ?r) m" if "m \<in> set ?ms" for m
      using that msgs msg_ok_mono [of N "votes s"] by (fastforce simp: orphans_def)
  qed simp_all
qed

text \<open>The members have non-empty addresses; \<open>votedFor\<close> uses the empty string for no vote.\<close>

definition group :: "string set \<Rightarrow> bool" where
  "group N \<longleftrightarrow> finite N \<and> [] \<notin> N"

lemma groupD: "group N \<Longrightarrow> finite N" "group N \<Longrightarrow> c \<in> N \<Longrightarrow> c \<noteq> []"
  by (auto simp: group_def)

lemma cstep_inv:
  assumes "cstep N s s'" and "group N" and "cinv N s"
  shows "cinv N s'"
  using assms(1)
proof cases
  case (election_timer c)
  then show ?thesis
    using cinv_election [OF assms(3) _ _ groupD(1) [OF assms(2)] quiet_refl, of c "state (nodes s c) \<noteq> Leader"]
      groupD(2) [OF assms(2)] by (cases "state (nodes s c) = Leader") (simp_all add: onElectionTimer_def)
next
  case (recv_vote p c t args reply r')
  then show ?thesis
    using cinv_recv_vote [OF assms(3) _ _ _ _ recv_vote(4)] cinvD(2) [OF assms(3) recv_vote(3)] groupD(2) [OF assms(2)]
    by simp
next
  case (fail_vote c p t args)
  then show ?thesis
    using cinv_refusal [OF assms(3) fail_vote(2), of c t p _ "nodes s c" "[Orphan p args]"]
      cinvD(2) [OF assms(3) fail_vote(2)] by simp
next
  case (lose_reply c p t reply)
  then show ?thesis
    using cinv_refusal [OF assms(3) lose_reply(2), of c t p _ "nodes s c" "[]"]
      cinvD(2) [OF assms(3) lose_reply(2)] by simp
next
  case (await_votes c t)
  let ?r = "drop_goroutine (GoAwaitVotes t) (nodes s c)"
  have "quiet (nodes s c) ?r" by (rule quiet_drop) (simp add: is_vote_call_def)
  then show ?thesis unfolding await_votes(1) awaitVotes_def
    by (intro cinv_election [OF assms(3) await_votes(2) groupD(2) [OF assms(2) await_votes(2)] groupD(1) [OF assms(2)]])
      (use await_votes(5) in \<open>simp_all add: drop_goroutine_def\<close>)
next
  case (send_append c p plan r')
  have "quiet (nodes s c) (drop_goroutine (GoSendAppendEntries p) (nodes s c))"
    by (rule quiet_drop) (simp add: is_vote_call_def)
  from quiet_trans [OF this quiet_plan [OF send_append(4)]] show ?thesis
    unfolding send_append(1) by (rule cinv_quiet [OF assms(3) send_append(2)]) simp_all
next
  case (fail_append c p args)
  then show ?thesis using assms(3) by (simp add: cinv_def)
qed (use assms(3) groupD [OF assms(2)] in \<open>simp_all add: cinv_quiet quiet_onHeartbeatTimer quiet_AppendEntries quiet_AppendEntries_blocked
    quiet_handleAppendReply quiet_SubmitCommand quiet_checkISR quiet_applyCommittedEntries cinv_send_vote
    cinv_recv_orphan cinv_vote_reply cinv_restart\<close>)

lemma csteps_inv: "csteps N s s' \<Longrightarrow> group N \<Longrightarrow> cinv N s \<Longrightarrow> cinv N s'"
  by (induction rule: rtranclp_induct) (auto intro: cstep_inv)

lemma cstep_votes: "cstep N s s' \<Longrightarrow> votes s \<subseteq> votes s'"
  by (induction rule: cstep.induct) (auto simp: upd_def)

lemma csteps_votes: "csteps N s s' \<Longrightarrow> votes s \<subseteq> votes s'"
  by (induction rule: rtranclp_induct) (auto dest: cstep_votes)

section \<open>Election safety\<close>

text \<open>
  C1. Election safety. In a group with fixed membership that starts from any files an earlier run left,
  whatever the timers, the network and crashes with restarts do, a term has at most one leader: if \<open>a\<close>
  leads in some reachable state and \<open>b\<close> leads the same term in that or a later state, they are the same
  node.
\<close>

theorem election_safety:
  assumes "group N" and "set addrs = N" and "\<And>c. c \<in> N \<Longrightarrow> disk_ok (disks c) \<and> dir c \<noteq> []"
    and "csteps N (initial addrs dir disks tid) s" and "csteps N s s'"
    and "a \<in> N" "state (nodes s a) = Leader" and "b \<in> N" "state (nodes s' b) = Leader"
    and "currentTerm (nodes s a) = currentTerm (nodes s' b)"
  shows "a = b"
proof -
  have inv: "cinv N s" by (rule csteps_inv [OF assms(4,1) initial_inv [OF assms(2,3)]])
  then have inv': "cinv N s'" by (rule csteps_inv [OF assms(5,1)])
  let ?t = "currentTerm (nodes s' b)"
  have "elected N (votes s) a ?t" using cinvD(3) [OF inv assms(6)] assms(7,10) by (simp add: node_inv_def)
  then have A: "elected N (votes s') a ?t"
    by (rule elected_mono [OF _ csteps_votes [OF assms(5)] cinvD(1) [OF inv']])
  have B: "elected N (votes s') b ?t" using cinvD(3) [OF inv' assms(8)] assms(9) by (simp add: node_inv_def)
  show ?thesis
    by (rule maj.choice_unique [OF A [unfolded elected_def] B [unfolded elected_def], of "\<lambda>v x. (v, ?t, x) \<in> votes s'"])
      (use cinvD(1) [OF inv'] in \<open>auto simp: votes_ok_def\<close>)
qed

text \<open>A run of two nodes in which \<open>a\<close>, whose log is behind, is elected by \<open>b\<close>.\<close>

definition old_disk :: "string \<Rightarrow> RaftDisk" where
  "old_disk c = (if c = ''b'' then disk saved_leader else demo_disk)"

definition run0 :: cluster where "run0 = initial [''a'', ''b''] (\<lambda>c. ''d'') old_disk 65"

definition run1 :: cluster where "run1 = upd ''a'' (onElectionTimer (nodes run0 ''a'')) run0"

definition run_args :: RequestVoteArgs where
  "run_args = \<lparr>rv_Term = 1, rv_CandidateId = ''a'', rv_LastLogIndex = 0, rv_LastLogTerm = 0\<rparr>"

definition run2 :: cluster where
  "run2 = upd ''a'' (drop_goroutine (GoRequestVote ''b'' run_args 1) (nodes run1 ''a''))
            (run1\<lparr>net := VoteReq ''a'' ''b'' 1 run_args # net run1\<rparr>)"

definition run3 :: cluster where
  "run3 = upd ''b'' (snd (RequestVote run_args (nodes run2 ''b'')))
            (run2\<lparr>net := VoteRep ''a'' ''b'' 1 (fst (RequestVote run_args (nodes run2 ''b''))) #
                         remove1 (VoteReq ''a'' ''b'' 1 run_args) (net run2)\<rparr>)"

definition run_reply :: RequestVoteReply where "run_reply = \<lparr>rvr_Term = 1, rvr_VoteGranted = True\<rparr>"

definition run4 :: cluster where
  "run4 = upd ''a'' (handleVoteReply ''b'' 1 run_reply (nodes run3 ''a''))
            (run3\<lparr>net := remove1 (VoteRep ''a'' ''b'' 1 run_reply) (net run3)\<rparr>)"

lemma run0_nodes:
  "nodes run0 ''a'' = NewRaftNode ''a'' [''a'', ''b''] True ''d'' demo_disk 65"
  "nodes run0 ''b'' = NewRaftNode ''b'' [''a'', ''b''] True ''d'' (disk saved_leader) 65"
  by (simp_all add: run0_def initial_def old_disk_def Let_def)

lemma run1_nodes:
  "nodes run1 ''a'' = onElectionTimer (nodes run0 ''a'')" "nodes run1 ''b'' = nodes run0 ''b''"
  by (simp_all add: run1_def upd_def)

lemma run2_nodes:
  "nodes run2 ''a'' = drop_goroutine (GoRequestVote ''b'' run_args 1) (nodes run1 ''a'')"
  "nodes run2 ''b'' = nodes run1 ''b''" "nodes run3 ''a'' = nodes run2 ''a''"
  by (simp_all add: run2_def run3_def upd_def)

lemma run4_nodes: "nodes run4 ''a'' = handleVoteReply ''b'' 1 run_reply (nodes run3 ''a'')"
  by (simp add: run4_def upd_def)

lemmas run_nodes = run0_nodes run1_nodes run2_nodes run4_nodes

lemmas run_eval = NewRaftNode_def loadState_def loadLogEntries_def demo_disk_def onElectionTimer_def startElection_def
  u64_inc_def Let_def nonLearnerPeers_def run_args_def sentinel_def saveState_def appendLogEntries_def
  drop_goroutine_def handleVoteReply_def count_vote_def election_won_def run_reply_def gob_encode_def

lemma run_vote: "fst (RequestVote run_args (NewRaftNode ''b'' [''a'', ''b''] True ''d'' (disk saved_leader) 65)) = run_reply"
  by (simp add: run_eval saved_leader_def demo_node_def demo_entry_def RequestVote_def isLogUpToDate_def)

lemma run_call:
  "GoRequestVote ''b'' run_args 1 \<in> set (goroutines (onElectionTimer (NewRaftNode ''a'' [''a'', ''b''] True ''d'' demo_disk 65)))"
  by (simp add: run_eval)

lemma run_leader:
  "state (handleVoteReply ''b'' 1 run_reply (drop_goroutine (GoRequestVote ''b'' run_args 1)
             (onElectionTimer (NewRaftNode ''a'' [''a'', ''b''] True ''d'' demo_disk 65)))) = Leader"
  by (simp add: run_eval)

lemma run_steps: "csteps {''a'', ''b''} run0 run4"
proof -
  let ?N = "{''a'', ''b''}"
  have "currentTerm (nodes run0 ''a'') < u64_max"
    by (simp add: run_nodes NewRaftNode_def loadState_def demo_disk_def u64_max_def)
  then have 1: "cstep ?N run0 run1" unfolding run1_def by (intro cstep.election_timer) simp_all
  have 2: "cstep ?N run1 run2" unfolding run2_def
    by (rule cstep.send_vote) (simp_all add: run_nodes run_call del: One_nat_def)
  have 3: "cstep ?N run2 run3" unfolding run3_def
    by (rule cstep.recv_vote) (simp_all add: run2_def upd_def)
  have "VoteRep ''a'' ''b'' 1 run_reply \<in> set (net run3)"
    by (simp add: run3_def upd_def run_nodes run_vote)
  then have 4: "cstep ?N run3 run4" unfolding run4_def by (intro cstep.vote_reply) simp_all
  show ?thesis
    using rtranclp.rtrancl_into_rtrancl [of "cstep ?N", OF rtranclp.rtrancl_into_rtrancl [of "cstep ?N",
        OF rtranclp.rtrancl_into_rtrancl [of "cstep ?N", OF r_into_rtranclp [of "cstep ?N", OF 1] 2] 3] 4] .
qed

theorem election_safety_witness:
  "csteps {''a'', ''b''} run0 run4 \<and> state (nodes run4 ''a'') = Leader \<and>
   \<not> (\<exists>s'. csteps {''a'', ''b''} run4 s' \<and> state (nodes s' ''b'') = Leader \<and>
          currentTerm (nodes s' ''b'') = currentTerm (nodes run4 ''a''))"
proof -
  have lead: "state (nodes run4 ''a'') = Leader"
    using run_leader by (simp only: run_nodes)
  have ok: "disk_ok (old_disk c) \<and> ''d'' \<noteq> []" for c
    by (simp add: disk_ok_def old_disk_def saved_leader_def saveState_def appendLogEntries_def demo_disk_def
        demo_node_def NewRaftNode_def loadState_def Let_def)
  have False if "csteps {''a'', ''b''} run4 s'" "state (nodes s' ''b'') = Leader"
    "currentTerm (nodes s' ''b'') = currentTerm (nodes run4 ''a'')" for s'
    using election_safety [of "{''a'', ''b''}" "[''a'', ''b'']" old_disk "\<lambda>c. ''d''" 65 run4 s' "''a''" "''b''"]
      ok that lead run_steps [unfolded run0_def] by (simp add: group_def)
  with lead run_steps show ?thesis by blast
qed

section \<open>A new group has no leader\<close>

definition fresh_node :: "RaftNode \<Rightarrow> bool" where
  "fresh_node r \<longleftrightarrow> log r = [sentinel] \<and> state r \<noteq> Leader \<and> logFile (disk r) = [] \<and> peers r \<noteq> []"

definition fresh :: "string set \<Rightarrow> cluster \<Rightarrow> bool" where
  "fresh N s \<longleftrightarrow> (\<forall>c \<in> N. fresh_node (nodes s c)) \<and> appends s = {} \<and> apprs s = {} \<and>
     (\<forall>c p t reply. VoteRep c p t reply \<in> set (net s) \<longrightarrow> \<not> rvr_VoteGranted reply)"

lemma fresh_saveState [simp]: "log r = [sentinel] \<Longrightarrow> logFile (disk (saveState r)) = logFile (disk r)"
  by (simp add: saveState_def appendLogEntries_def gob_encode_def Let_def split: raft_log_io.split)

lemma fresh_becomeFollower: "fresh_node r \<Longrightarrow> fresh_node (becomeFollower t r)"
  by (simp add: fresh_node_def) (simp add: becomeFollower_def close_pending_def)

lemma fresh_startElection: "fresh_node r \<Longrightarrow> fresh_node (startElection r)"
  by (simp add: fresh_node_def startElection_def Let_def)

lemma fresh_RequestVote:
  assumes "fresh_node r" and "RequestVote args r = (reply, r')"
  shows "fresh_node r' \<and> \<not> rvr_VoteGranted reply"
proof -
  have "\<not> isLogUpToDate i t r1" if "fresh_node r1" for i t r1
    using that by (simp add: fresh_node_def isLogUpToDate_def sentinel_def)
  then show ?thesis using assms fresh_becomeFollower [OF assms(1)]
    by (auto simp: RequestVote_def Let_def split: if_splits)
qed

lemma fresh_handleVoteReply:
  "fresh_node r \<Longrightarrow> \<not> rvr_VoteGranted reply \<Longrightarrow> fresh_node (handleVoteReply p t reply r)"
  by (simp add: handleVoteReply_def fresh_becomeFollower)

lemma fresh_drop: "fresh_node r \<Longrightarrow> fresh_node (drop_goroutine g r)"
  by (simp add: fresh_node_def drop_goroutine_def)

lemma fresh_NewRaftNode:
  assumes "logFile d = []" and "set addrs - {c} \<noteq> {}"
  shows "fresh_node (NewRaftNode c addrs ch dir d tid)"
proof -
  have "fst ` set (peers (NewRaftNode c addrs ch dir d tid)) \<noteq> {}"
    using NewRaftNode_peers [of c addrs ch dir d tid] assms(2) by simp
  then have "peers (NewRaftNode c addrs ch dir d tid) \<noteq> []" by auto
  with assms(1) show ?thesis
    by (simp add: fresh_node_def) (simp add: NewRaftNode_def loadState_def loadLogEntries_def split: option.split)
qed

lemma fresh_upd:
  assumes "fresh N s" and "fresh_node r" and "appends s' = {}" "apprs s' = {}" "nodes s' = nodes s"
    and "\<And>c p t reply. VoteRep c p t reply \<in> set (net s') \<Longrightarrow> \<not> rvr_VoteGranted reply"
  shows "fresh N (upd c r s')"
  using assms by (simp add: fresh_def upd_def)

lemma fresh_orphans:
  "VoteRep c p t reply \<in> set (orphans d ms) \<Longrightarrow> VoteRep c p t reply \<in> set ms"
proof (induction ms)
  case (Cons m ms)
  then show ?case by (cases m) (auto simp: orphans_def split: if_splits)
qed (simp add: orphans_def)

lemma cstep_fresh:
  assumes "cstep N s s'" and "fresh N s" and two: "\<And>c. N - {c} \<noteq> {}"
  shows "fresh N s'"
proof -
  have node: "\<And>c. c \<in> N \<Longrightarrow> fresh_node (nodes s c)" and none: "appends s = {}" "apprs s = {}"
    and rep: "\<And>c p t reply. VoteRep c p t reply \<in> set (net s) \<Longrightarrow> \<not> rvr_VoteGranted reply"
    using assms(2) by (auto simp: fresh_def)
  have follower: "state (nodes s c) \<noteq> Leader" "log (nodes s c) = [sentinel]" if "c \<in> N" for c
    using node [OF that] by (auto simp: fresh_node_def)
  have rep': "\<not> rvr_VoteGranted reply" if "VoteRep c p t reply \<in> set (remove1 m (net s))" for c p t reply m
    using rep that set_remove1_subset [of m "net s"] by blast
  show ?thesis using assms(1)
  proof cases
    case (election_timer c)
    then show ?thesis unfolding election_timer(1)
      by (intro fresh_upd [OF assms(2)])
        (use none rep node [of c] fresh_startElection [of "nodes s c"] in \<open>simp_all add: onElectionTimer_def\<close>)
  next
    case (heartbeat_timer c)
    then show ?thesis unfolding heartbeat_timer(1)
      by (intro fresh_upd [OF assms(2)]) (use none rep node [of c] follower(1) in \<open>simp_all add: onHeartbeatTimer_def\<close>)
  next
    case (send_vote c p args t)
    then show ?thesis unfolding send_vote(1)
      by (intro fresh_upd [OF assms(2)]) (use none rep fresh_drop [OF node] in auto)
  next
    case (recv_vote p c t args reply r')
    then show ?thesis unfolding recv_vote(1)
      by (intro fresh_upd [OF assms(2)]) (use none rep rep' fresh_RequestVote [OF node recv_vote(4)] in auto)
  next
    case (recv_orphan p args)
    then show ?thesis unfolding recv_orphan(1)
      by (intro fresh_upd [OF assms(2)])
        (use none rep rep' fresh_RequestVote [OF node, of p args "fst (RequestVote args (nodes s p))"] in auto)
  next
    case (vote_reply c p t reply)
    then show ?thesis unfolding vote_reply(1)
      by (intro fresh_upd [OF assms(2)]) (use none rep rep' fresh_handleVoteReply [OF node] in auto)
  next
    case (await_votes c t)
    then show ?thesis unfolding await_votes(1)
      by (intro fresh_upd [OF assms(2)])
        (use none rep fresh_drop [OF node] fresh_startElection in \<open>simp_all add: awaitVotes_def\<close>)
  next
    case (send_append c p plan r')
    then have "plan = SendNothing" "r' = drop_goroutine (GoSendAppendEntries p) (nodes s c)"
      using follower(1) by (auto simp: sendAppendEntries_plan_def drop_goroutine_def)
    then show ?thesis unfolding send_append(1)
      by (intro fresh_upd [OF assms(2)]) (use send_append none rep fresh_drop [OF node] in auto)
  next
    case (submit c topic part data res r')
    then show ?thesis unfolding submit(1)
      by (intro fresh_upd [OF assms(2)]) (use none rep node follower(1) in \<open>auto simp: SubmitCommand_def\<close>)
  next
    case (isr_tick c)
    then show ?thesis unfolding isr_tick(1)
      by (intro fresh_upd [OF assms(2)]) (use none rep node follower(1) in \<open>auto simp: checkISR_def\<close>)
  next
    case (apply_entries c r')
    then have "r' = nodes s c"
      using follower(2) [of c] by (cases "commitIndex (nodes s c) - lastApplied (nodes s c)")
        (auto simp: applyCommittedEntries_def Let_def split: if_splits)
    then show ?thesis unfolding apply_entries(1)
      by (intro fresh_upd [OF assms(2)]) (use apply_entries(2) none rep node in auto)
  next
    case (crash_restart c addrs tid)
    then have "fresh_node (restart addrs tid (nodes s c))"
      using node [of c] two unfolding restart_def by (intro fresh_NewRaftNode) (auto simp: fresh_node_def)
    then show ?thesis unfolding crash_restart(1)
      by (intro fresh_upd [OF assms(2)]) (use none rep in \<open>auto dest: fresh_orphans\<close>)
  qed (use assms(2) none in \<open>auto simp: fresh_def requestVote_def dest: rep'\<close>)
qed

text \<open>
  C29. A new group of two or more nodes never has a leader: all logs are equal, \<open>isLogUpToDate\<close> refuses a
  candidate whose log equals the voter's, so no vote is ever granted, whatever happens.
\<close>

theorem new_group_never_elects:
  assumes "set addrs = N" and "2 \<le> card N" and "\<And>c. c \<in> N \<Longrightarrow> stateFile (disks c) = None \<and> logFile (disks c) = []"
    and "csteps N (initial addrs dir disks tid) s" and "c \<in> N"
  shows "state (nodes s c) \<noteq> Leader \<and> log (nodes s c) = [sentinel]"
proof -
  have two: "N - {d} \<noteq> {}" for d
  proof
    assume "N - {d} = {}"
    then have "N \<subseteq> {d}" by auto
    then have "card N \<le> 1" using card_mono [of "{d}" N] by simp
    with assms(2) show False by simp
  qed
  have "fresh N (initial addrs dir disks tid)"
    using fresh_NewRaftNode [of "disks c" addrs c for c] two assms(1,3)
    by (auto simp: fresh_def initial_def Let_def)
  from assms(4) this have "fresh N s"
    by (induction rule: rtranclp_induct) (use two in \<open>auto intro: cstep_fresh\<close>)
  then show ?thesis using assms(5) by (auto simp: fresh_def fresh_node_def)
qed

theorem new_group_never_elects_witness:
  "state (nodes (upd ''a'' (onElectionTimer (nodes (initial [''a'', ''b''] (\<lambda>c. ''d'') (\<lambda>c. demo_disk) 65) ''a''))
      (initial [''a'', ''b''] (\<lambda>c. ''d'') (\<lambda>c. demo_disk) 65)) ''a'') \<noteq> Leader"
proof -
  let ?s = "initial [''a'', ''b''] (\<lambda>c. ''d'') (\<lambda>c. demo_disk) 65" and ?N = "{''a'', ''b''}"
  have "currentTerm (nodes ?s ''a'') < u64_max"
    by (simp add: initial_def Let_def NewRaftNode_def loadState_def demo_disk_def u64_max_def)
  then have "cstep ?N ?s (upd ''a'' (onElectionTimer (nodes ?s ''a'')) ?s)"
    by (intro cstep.election_timer) simp_all
  then show ?thesis
    using new_group_never_elects [of "[''a'', ''b'']" ?N "\<lambda>c. demo_disk" "\<lambda>c. ''d''" 65 _ "''a''"]
    by (simp add: demo_disk_def r_into_rtranclp)
qed

end
