(* ===== verification/Raft_Timers.thy ===== *)
theory Raft_Timers
  imports Raft_Log
begin

text \<open>
  The timers of \<^verbatim>\<open>cluster/go/raft/raft.go\<close> and the goroutine \<open>run\<close> that waits for them. A reset stops the timer and puts a new one in its
  place, while \<open>run\<close> goes on waiting for the channels it read when it entered its select. Every method of the node is paired with what it
  does to the timers; the steps of a node are those methods, the expiry of timers and the rounds of \<open>run\<close>.
\<close>

section \<open>Timers\<close>

text \<open>Where \<open>run\<close> stands: between two rounds, in its select with the channels of two timers, or behind the select with a tick, waiting for the mutex.\<close>

datatype run_tick = ElectionTick | HeartbeatTick

datatype run_at = Between | Selecting nat nat | Got run_tick

text \<open>Timers are numbered in the order they are made. \<open>running\<close>: not expired yet; \<open>ticks\<close>: expired, the tick waits in the channel.\<close>

record timers =
  nextTimer :: nat
  electionTimer :: nat
  heartbeatTimer :: nat
  running :: "nat list"
  ticks :: "nat list"
  waits :: run_at

definition stopTimer :: "nat \<Rightarrow> timers \<Rightarrow> timers" where
  "stopTimer i tm = tm\<lparr>running := removeAll i (running tm), ticks := removeAll i (ticks tm)\<rparr>"

definition resetElectionTimer :: "timers \<Rightarrow> timers" where
  "resetElectionTimer tm =
     (let tm1 = stopTimer (electionTimer tm) tm
      in tm1\<lparr>electionTimer := nextTimer tm, running := running tm1 @ [nextTimer tm], nextTimer := nextTimer tm + 1\<rparr>)"

definition resetHeartbeatTimer :: "timers \<Rightarrow> timers" where
  "resetHeartbeatTimer tm =
     (let tm1 = stopTimer (heartbeatTimer tm) tm
      in tm1\<lparr>heartbeatTimer := nextTimer tm, running := running tm1 @ [nextTimer tm], nextTimer := nextTimer tm + 1\<rparr>)"

text \<open>The timers of a new node, and \<open>Stop\<close>.\<close>

definition new_timers :: timers where
  "new_timers = \<lparr>nextTimer = 2, electionTimer = 0, heartbeatTimer = 1, running = [0, 1], ticks = [], waits = Between\<rparr>"

definition Stop_timers :: "timers \<Rightarrow> timers" where
  "Stop_timers tm = stopTimer (heartbeatTimer tm) (stopTimer (electionTimer tm) tm)"

section \<open>Methods\<close>

definition becomeLeader_timers :: "timers \<Rightarrow> timers" where
  "becomeLeader_timers tm = resetHeartbeatTimer (resetHeartbeatTimer tm)"

definition startElection_timers :: "RaftNode \<Rightarrow> timers \<Rightarrow> timers" where
  "startElection_timers r tm =
     (let tm1 = resetElectionTimer tm in if peers r = [] then becomeLeader_timers tm1 else tm1)"

definition handleVoteReply_timers :: "string \<Rightarrow> nat \<Rightarrow> RequestVoteReply \<Rightarrow> RaftNode \<Rightarrow> timers \<Rightarrow> timers" where
  "handleVoteReply_timers addr term reply r tm =
     (if currentTerm r < rvr_Term reply then resetElectionTimer tm
      else if state r = Candidate \<and> currentTerm r = term \<and> rvr_VoteGranted reply
      then (case map_of (elections r) term of
              None \<Rightarrow> tm
            | Some el \<Rightarrow> if election_won (count_vote addr r el) then becomeLeader_timers tm else tm)
      else tm)"

definition awaitVotes_timers :: "nat \<Rightarrow> RaftNode \<Rightarrow> timers \<Rightarrow> timers" where
  "awaitVotes_timers term r tm =
     (if state r = Candidate \<and> currentTerm r = term then startElection_timers r tm else tm)"

definition RequestVote_timers :: "RequestVoteArgs \<Rightarrow> RaftNode \<Rightarrow> timers \<Rightarrow> timers" where
  "RequestVote_timers args r tm =
     (if rv_Term args < currentTerm r then tm
      else let tm1 = (if currentTerm r < rv_Term args then resetElectionTimer tm else tm)
           in if rvr_VoteGranted (fst (RequestVote args r)) then resetElectionTimer tm1 else tm1)"

definition AppendEntries_timers :: "AppendEntriesArgs \<Rightarrow> RaftNode \<Rightarrow> timers \<Rightarrow> timers" where
  "AppendEntries_timers args r tm =
     (if ae_Term args < currentTerm r then tm
      else resetElectionTimer (if currentTerm r < ae_Term args then resetElectionTimer tm else tm))"

definition InstallSnapshot_timers :: "InstallSnapshotArgs \<Rightarrow> RaftNode \<Rightarrow> timers \<Rightarrow> timers" where
  "InstallSnapshot_timers args r tm =
     (if is_Term args < currentTerm r then tm
      else resetElectionTimer (if currentTerm r < is_Term args then resetElectionTimer tm else tm))"

text \<open>Replies to the leader's own calls: a higher term makes it step down.\<close>

definition reply_timers :: "nat \<Rightarrow> RaftNode \<Rightarrow> timers \<Rightarrow> timers" where
  "reply_timers term r tm = (if currentTerm r < term then resetElectionTimer tm else tm)"

definition SubmitCommand_timers :: "RaftNode \<Rightarrow> timers \<Rightarrow> timers" where
  "SubmitCommand_timers r tm = (if state r = Leader \<and> peers r \<noteq> [] then resetHeartbeatTimer tm else tm)"

definition appendStableConfig_timers :: "RaftNode \<Rightarrow> timers \<Rightarrow> timers" where
  "appendStableConfig_timers r tm =
     (if state r \<noteq> Leader \<or> configState r \<noteq> ConfigJoint then tm else resetHeartbeatTimer tm)"

section \<open>The goroutine run\<close>

definition run_select :: "timers \<Rightarrow> timers" where
  "run_select tm = tm\<lparr>waits := Selecting (electionTimer tm) (heartbeatTimer tm)\<rparr>"

text \<open>The receive from a channel, and the critical section that follows; other methods may take the mutex in between.\<close>

definition run_receive :: "nat \<Rightarrow> run_tick \<Rightarrow> timers \<Rightarrow> timers" where
  "run_receive i t tm = tm\<lparr>ticks := removeAll i (ticks tm), waits := Got t\<rparr>"

definition run_election :: "RaftNode \<Rightarrow> timers \<Rightarrow> RaftNode \<times> timers" where
  "run_election r tm =
     (let tm1 = tm\<lparr>waits := Between\<rparr>
      in if state r = Leader then (r, resetElectionTimer tm1) else (startElection r, startElection_timers r tm1))"

definition run_heartbeat :: "RaftNode \<Rightarrow> timers \<Rightarrow> RaftNode \<times> timers" where
  "run_heartbeat r tm =
     (let tm1 = tm\<lparr>waits := Between\<rparr>
      in if state r = Leader then (sendHeartbeats r, resetHeartbeatTimer tm1) else (r, tm1))"

text \<open>What can happen to a node, whatever its peers and clients send.\<close>

inductive tstep :: "RaftNode \<times> timers \<Rightarrow> RaftNode \<times> timers \<Rightarrow> bool" where
  expire: "i \<in> set (running tm) \<Longrightarrow> tstep (r, tm) (r, tm\<lparr>running := removeAll i (running tm), ticks := i # ticks tm\<rparr>)"
| select: "waits tm = Between \<Longrightarrow> tstep (r, tm) (r, run_select tm)"
| receive_election: "waits tm = Selecting e h \<Longrightarrow> e \<in> set (ticks tm) \<Longrightarrow> tstep (r, tm) (r, run_receive e ElectionTick tm)"
| receive_heartbeat: "waits tm = Selecting e h \<Longrightarrow> h \<in> set (ticks tm) \<Longrightarrow> tstep (r, tm) (r, run_receive h HeartbeatTick tm)"
| election: "waits tm = Got ElectionTick \<Longrightarrow> tstep (r, tm) (run_election r tm)"
| heartbeat: "waits tm = Got HeartbeatTick \<Longrightarrow> tstep (r, tm) (run_heartbeat r tm)"
| request_vote: "RequestVote args r = (reply, r') \<Longrightarrow> tstep (r, tm) (r', RequestVote_timers args r tm)"
| append_entries: "AppendEntries args r = Ret (reply, r') \<Longrightarrow> tstep (r, tm) (r', AppendEntries_timers args r tm)"
| install_snapshot: "InstallSnapshot args r = (reply, r') \<Longrightarrow> tstep (r, tm) (r', InstallSnapshot_timers args r tm)"
| vote_reply: "tstep (r, tm) (handleVoteReply addr term reply r, handleVoteReply_timers addr term reply r tm)"
| await_votes: "tstep (r, tm) (awaitVotes term r, awaitVotes_timers term r tm)"
| append_reply: "tstep (r, tm) (handleAppendReply addr i n reply r, reply_timers (aer_Term reply) r tm)"
| snapshot_reply: "tstep (r, tm) (handleSnapshotReply addr i sreply r, reply_timers (isr_Term sreply) r tm)"
| submit: "SubmitCommand topic part data r = Ret (res, r') \<Longrightarrow> tstep (r, tm) (r', SubmitCommand_timers r tm)"
| stable_config: "tstep (r, tm) (appendStableConfig ord r, appendStableConfig_timers r tm)"
| send_append: "sendAppendEntries_plan addr r = Ret (plan, r') \<Longrightarrow> tstep (r, tm) (r', tm)"
| isr_tick: "tstep (r, tm) (checkISR r, tm)"
| apply_committed: "applyCommittedEntries False r = Ret r' \<Longrightarrow> tstep (r, tm) (r', tm)"
| add_node: "tstep (r, tm) (snd (AddNode ordOld ordNew addr r), tm)"
| remove_node: "tstep (r, tm) (snd (RemoveNode ordOld ordNew addr r), tm)"

section \<open>A node that waits for timers that are gone\<close>

definition gone :: "nat \<Rightarrow> timers \<Rightarrow> bool" where
  "gone i tm \<longleftrightarrow> i \<notin> set (running tm) \<and> i \<notin> set (ticks tm) \<and> i < nextTimer tm"

lemma gone_reset:
  "gone i tm \<Longrightarrow> gone i (resetElectionTimer tm)" "gone i tm \<Longrightarrow> gone i (resetHeartbeatTimer tm)"
  "electionTimer tm < nextTimer tm \<Longrightarrow> gone (electionTimer tm) (resetElectionTimer tm)"
  by (auto simp: gone_def resetElectionTimer_def resetHeartbeatTimer_def stopTimer_def Let_def)

lemma goneD: "gone i tm \<Longrightarrow> i \<notin> set (ticks tm)"
  by (simp add: gone_def)

lemma gone_expire:
  "gone i tm \<Longrightarrow> j \<in> set (running tm) \<Longrightarrow> gone i (tm\<lparr>running := removeAll j (running tm), ticks := j # ticks tm\<rparr>)"
  by (auto simp: gone_def)

lemma waits_reset [simp]: "waits (resetElectionTimer tm) = waits tm" "waits (resetHeartbeatTimer tm) = waits tm"
  by (simp_all add: resetElectionTimer_def resetHeartbeatTimer_def stopTimer_def Let_def)

definition silenced :: "nat \<Rightarrow> nat \<Rightarrow> RaftNode \<times> timers \<Rightarrow> bool" where
  "silenced e h s \<longleftrightarrow> state (fst s) = Follower \<and> waits (snd s) = Selecting e h \<and> gone e (snd s) \<and> gone h (snd s)"

lemma add_learners_state [simp]: "state (add_learners addrs r) = state r"
  by (induction addrs arbitrary: r) simp_all

lemma drop_peers_state [simp]: "state (drop_peers addrs r) = state r"
  by (induction addrs arbitrary: r) simp_all

lemma isr_loop_state [simp]: "state (isr_loop ps r) = state r"
  by (induction ps r rule: isr_loop.induct) (simp_all add: Let_def)

lemma applyConfigChangeLocked_state: "state (applyConfigChangeLocked entry r) = state r"
  by (simp add: applyConfigChangeLocked_def Let_def split: option.split)

lemma apply_rounds_state: "apply_rounds k r = Ret r' \<Longrightarrow> state r' = state r"
  by (induction k arbitrary: r)
    (auto simp: Let_def applyConfigChangeLocked_state split: if_splits)

lemma AppendEntries_state: "AppendEntries args r = Ret (reply, r') \<Longrightarrow> state r = Follower \<Longrightarrow> state r' = Follower"
  by (auto simp: AppendEntries_def applyCommittedEntries_def Let_def split: if_splits)

text \<open>A follower stays one in every step but a round of \<open>run\<close> for the election timer.\<close>

lemma silenced_step:
  assumes "tstep s s'" and "silenced e h s"
  shows "silenced e h s'"
  using assms
proof (cases rule: tstep.cases)
  case (append_entries args r reply r' tm)
  then show ?thesis using assms(2) AppendEntries_state [OF append_entries(3)]
    by (auto simp: silenced_def AppendEntries_timers_def gone_reset)
next
  case (apply_committed r r' tm)
  then show ?thesis using assms(2) apply_rounds_state by (auto simp: silenced_def applyCommittedEntries_def)
qed (use assms(2) in \<open>auto simp: silenced_def gone_reset RequestVote_timers_def InstallSnapshot_timers_def handleVoteReply_timers_def
    awaitVotes_timers_def reply_timers_def SubmitCommand_timers_def appendStableConfig_timers_def Let_def
    RequestVote_def InstallSnapshot_def handleVoteReply_def awaitVotes_def handleAppendReply_def handleSnapshotReply_def SubmitCommand_def
    appendStableConfig_def sendAppendEntries_plan_def checkISR_def AddNode_def RemoveNode_def gone_expire dest: goneD split: if_splits\<close>)

lemma silenced_steps: "tstep\<^sup>*\<^sup>* s s' \<Longrightarrow> silenced e h s \<Longrightarrow> silenced e h s'"
  by (induction rule: rtranclp_induct) (auto intro: silenced_step)

text \<open>C28. A follower whose heartbeat timer has expired, as it does 50 milliseconds after the start, is silenced by the next message of a leader that finds \<open>run\<close> in its
  select: the message replaces the election timer, \<open>run\<close> waits for the old one, which is stopped, and the node never starts an election again, whatever it receives and however long no
  leader is heard of.\<close>

theorem heartbeat_silences_follower:
  assumes "state r = Follower" and "waits tm = Selecting (electionTimer tm) h" and "gone h tm" and "electionTimer tm < nextTimer tm"
    and "AppendEntries args r = Ret (reply, r1)" and "currentTerm r \<le> ae_Term args"
    and "tstep\<^sup>*\<^sup>* (r1, AppendEntries_timers args r tm) (r2, tm2)"
  shows "state r2 = Follower \<and> waits tm2 = Selecting (electionTimer tm) h"
proof -
  have "silenced (electionTimer tm) h (r1, AppendEntries_timers args r tm)"
    using assms(2-4,6) AppendEntries_state [OF assms(5,1)] by (auto simp: silenced_def AppendEntries_timers_def gone_reset)
  from silenced_steps [OF assms(7) this] show ?thesis by (simp add: silenced_def)
qed

text \<open>The timers of a new node after the first expiry of the heartbeat timer.\<close>

definition idle_timers :: timers where
  "idle_timers = \<lparr>nextTimer = 2, electionTimer = 0, heartbeatTimer = 1, running = [0], ticks = [], waits = Selecting 0 1\<rparr>"

lemma idle_reached:
  assumes "state r = Follower"
  shows "tstep\<^sup>*\<^sup>* (r, new_timers) (r, idle_timers)"
proof -
  let ?a = "run_select new_timers"
  let ?b = "?a\<lparr>running := removeAll 1 (running ?a), ticks := 1 # ticks ?a\<rparr>"
  let ?c = "run_receive 1 HeartbeatTick ?b"
  have "tstep (r, new_timers) (r, ?a)" by (rule tstep.select) (simp add: new_timers_def)
  moreover have "tstep (r, ?a) (r, ?b)" by (rule tstep.expire) (simp add: new_timers_def run_select_def)
  moreover have "tstep (r, ?b) (r, ?c)" by (rule tstep.receive_heartbeat [of _ 0]) (simp_all add: new_timers_def run_select_def)
  moreover have "tstep (r, ?c) (run_heartbeat r ?c)" by (rule tstep.heartbeat) (simp add: run_receive_def)
  moreover have "tstep (run_heartbeat r ?c) (r, run_select (snd (run_heartbeat r ?c)))"
    using tstep.select [of "snd (run_heartbeat r ?c)" r] assms by (simp add: run_heartbeat_def)
  moreover have "run_select (snd (run_heartbeat r ?c)) = idle_timers"
    using assms by (simp add: run_heartbeat_def run_receive_def run_select_def new_timers_def idle_timers_def)
  ultimately show ?thesis by (metis (no_types, lifting) rtranclp.simps)
qed

theorem heartbeat_silences_follower_witness:
  "\<exists>r r1 reply args tm2. state r = Follower \<and> tstep\<^sup>*\<^sup>* (r, new_timers) (r, idle_timers) \<and> AppendEntries args r = Ret (reply, r1)
     \<and> tstep\<^sup>*\<^sup>* (r1, AppendEntries_timers args r idle_timers) (r1, tm2) \<and> electionTimer tm2 \<in> set (ticks tm2)
     \<and> state r1 = Follower \<and> waits tm2 = Selecting 0 1"
proof -
  let ?r = "NewRaftNode ''a'' [''b''] True ''d'' \<lparr>stateFile = None, logFile = [], stateWritable = True, logIo = RaftLogOk\<rparr> 0"
  let ?args = "\<lparr>ae_Term = 1, ae_LeaderId = ''b'', ae_PrevLogIndex = 0, ae_PrevLogTerm = 0, ae_Entries = [], ae_LeaderCommit = 0\<rparr>"
  let ?tm = "AppendEntries_timers ?args ?r idle_timers"
  let ?tm2 = "?tm\<lparr>running := removeAll 3 (running ?tm), ticks := 3 # ticks ?tm\<rparr>"
  have r: "state ?r = Follower" "currentTerm ?r = 0" "log ?r = [sentinel]" "commitIndex ?r = 0" by (simp_all add: NewRaftNode_def loadState_def)
  obtain reply r1 where a: "AppendEntries ?args ?r = Ret (reply, r1)" using r by (auto simp: AppendEntries_def Let_def)
  have t: "3 \<in> set (running ?tm)" "electionTimer ?tm = 3"
    using r(2) by (simp_all add: AppendEntries_timers_def resetElectionTimer_def stopTimer_def idle_timers_def Let_def)
  then have s: "tstep\<^sup>*\<^sup>* (r1, ?tm) (r1, ?tm2)" by (intro r_into_rtranclp tstep.expire)
  from heartbeat_silences_follower [OF r(1) _ _ _ a _ s, of 1] have "state r1 = Follower" "waits ?tm2 = Selecting 0 1"
    using r(2) by (auto simp: idle_timers_def gone_def)
  with idle_reached [OF r(1)] a r(1) s t show ?thesis
    by (intro exI [of _ ?r] exI [of _ r1] exI [of _ reply] exI [of _ ?args] exI [of _ ?tm2]) simp
qed

end
