(* ===== verification/Raft_Conns.thy ===== *)
theory Raft_Conns
  imports Go_Prelude "HOL-Library.Multiset"
begin

text \<open>
  The pool of connections of a node (\<open>getClient\<close> and the end of \<open>Stop\<close> in \<^verbatim>\<open>raft/raft.go\<close>). \<open>getClient\<close> looks into the pool, dials
  without the mutex and looks again before it stores; calls of any number of goroutines interleave between the two sections. Shown: all calls for
  a peer end with the same connection, and every connection that was opened is in the pool, closed, or in the hands of a call that will do one
  of the two; a connection stored after \<open>Stop\<close> is never closed.
\<close>

section \<open>The two sections\<close>

text \<open>Connections are numbered in the order in which \<open>grpc.Dial\<close> made them.\<close>

type_synonym conn_pool = "(string, nat) gomap"

definition getClient_lookup :: "string \<Rightarrow> conn_pool \<Rightarrow> nat option" where
  "getClient_lookup peerAddr pool = map_of pool peerAddr"

text \<open>The second section: the connection the call returns, what it closes, the pool.\<close>

definition getClient_store :: "string \<Rightarrow> nat \<Rightarrow> conn_pool \<Rightarrow> nat \<times> nat list \<times> conn_pool" where
  "getClient_store peerAddr conn pool =
     (case map_of pool peerAddr of
        Some existing \<Rightarrow> (existing, [conn], pool)
      | None \<Rightarrow> (conn, [], put peerAddr conn pool))"

text \<open>The loop at the end of \<open>Stop\<close>, in the order of the map, without the mutex.\<close>

definition closeClients :: "((string \<times> nat) list \<Rightarrow> (string \<times> nat) list) \<Rightarrow> conn_pool \<Rightarrow> nat list" where
  "closeClients ord pool = map snd (ord pool)"

section \<open>Calls\<close>

text \<open>\<open>cn_dropped\<close> was closed by calls, \<open>cn_shut\<close> by \<open>Stop\<close>.\<close>

datatype call = Looking string | Dialing string | Storing string nat | Returned string nat | CallFailed string

record Conns =
  cn_pool :: conn_pool
  cn_calls :: "call list"
  cn_opened :: nat
  cn_dropped :: "nat list"
  cn_shut :: "nat list option"

definition no_conns :: Conns where
  "no_conns = \<lparr>cn_pool = [], cn_calls = [], cn_opened = 0, cn_dropped = [], cn_shut = None\<rparr>"

abbreviation set_call :: "nat \<Rightarrow> call \<Rightarrow> Conns \<Rightarrow> Conns" where
  "set_call i a s \<equiv> s\<lparr>cn_calls := (cn_calls s)[i := a]\<rparr>"

definition look :: "nat \<Rightarrow> string \<Rightarrow> Conns \<Rightarrow> Conns" where
  "look i p s = (case getClient_lookup p (cn_pool s) of None \<Rightarrow> set_call i (Dialing p) s | Some c \<Rightarrow> set_call i (Returned p c) s)"

definition store :: "nat \<Rightarrow> string \<Rightarrow> nat \<Rightarrow> Conns \<Rightarrow> Conns" where
  "store i p c s =
     (case getClient_store p c (cn_pool s) of
        (client, closed, pool) \<Rightarrow> (set_call i (Returned p client) s)\<lparr>cn_pool := pool, cn_dropped := cn_dropped s @ closed\<rparr>)"

inductive conn_step :: "Conns \<Rightarrow> Conns \<Rightarrow> bool" where
  called: "conn_step s (s\<lparr>cn_calls := cn_calls s @ [Looking p]\<rparr>)"
| look: "i < length (cn_calls s) \<Longrightarrow> cn_calls s ! i = Looking p \<Longrightarrow> conn_step s (look i p s)"
| dialled: "i < length (cn_calls s) \<Longrightarrow> cn_calls s ! i = Dialing p \<Longrightarrow>
    conn_step s ((set_call i (Storing p (cn_opened s)) s)\<lparr>cn_opened := cn_opened s + 1\<rparr>)"
| failed: "i < length (cn_calls s) \<Longrightarrow> cn_calls s ! i = Dialing p \<Longrightarrow> conn_step s (set_call i (CallFailed p) s)"
| store: "i < length (cn_calls s) \<Longrightarrow> cn_calls s ! i = Storing p c \<Longrightarrow> conn_step s (store i p c s)"
| stop: "cn_shut s = None \<Longrightarrow> range_order ord \<Longrightarrow> conn_step s (s\<lparr>cn_shut := Some (closeClients ord (cn_pool s))\<rparr>)"

inductive_cases conn_stepE: "conn_step s s'"

definition held :: "call list \<Rightarrow> nat list" where
  "held cs = concat (map (\<lambda>a. case a of Storing p c \<Rightarrow> [c] | _ \<Rightarrow> []) cs)"

text \<open>The pool has what was returned; a connection is in one place only.\<close>

definition conns_inv :: "Conns \<Rightarrow> bool" where
  "conns_inv s \<longleftrightarrow>
     gm_ok (cn_pool s) \<and> (\<forall>p c. Returned p c \<in> set (cn_calls s) \<longrightarrow> map_of (cn_pool s) p = Some c) \<and>
     mset (map snd (cn_pool s)) + mset (cn_dropped s) + mset (held (cn_calls s)) = mset [0..<cn_opened s]"

lemma held_simps [simp]:
  "held [] = []" "held (a # cs) = (case a of Storing p c \<Rightarrow> [c] | _ \<Rightarrow> []) @ held cs" "held (cs @ ds) = held cs @ held ds"
  by (simp_all add: held_def)

lemma held_update:
  assumes "i < length cs"
  shows "mset (held (cs[i := a])) + mset (held [cs ! i]) = mset (held cs) + mset (held [a])"
proof -
  have "held cs = held (take i cs @ cs ! i # drop (Suc i) cs)" by (rule arg_cong [OF id_take_nth_drop [OF assms]])
  then show ?thesis by (simp add: upd_conv_take_nth_drop [OF assms])
qed

lemma returned_update:
  "Returned p c \<in> set (cs[i := a]) \<Longrightarrow> Returned p c = a \<or> Returned p c \<in> set cs"
  using set_update_subset_insert [of cs i a] by auto

lemma mset_put_new: "map_of m k = None \<Longrightarrow> mset (map snd (put k v m)) = add_mset v (mset (map snd m))"
  by (induction m) auto

lemma conns_inv_look:
  assumes "conns_inv s" and "i < length (cn_calls s)" and "cn_calls s ! i = Looking p"
  shows "conns_inv (look i p s)"
proof (cases "map_of (cn_pool s) p")
  case None
  with assms(1,3) held_update [OF assms(2), of "Dialing p"] show ?thesis
    by (auto simp: conns_inv_def look_def getClient_lookup_def dest!: returned_update)
next
  case (Some c)
  with assms(1,3) held_update [OF assms(2), of "Returned p c"] show ?thesis
    by (auto simp: conns_inv_def look_def getClient_lookup_def dest!: returned_update)
qed

lemma conns_inv_store:
  assumes "conns_inv s" and "i < length (cn_calls s)" and "cn_calls s ! i = Storing p c"
  shows "conns_inv (store i p c s)"
proof -
  have H: "mset (held (cn_calls s)) = add_mset c (mset (held ((cn_calls s)[i := Returned p x])))" for x
    using held_update [OF assms(2), of "Returned p x"] assms(3) by simp
  show ?thesis
  proof (cases "map_of (cn_pool s) p")
    case None
    have "map_of (put p c (cn_pool s)) q = Some d" if "map_of (cn_pool s) q = Some d" for q d
      using that None by (auto simp: update_conv')
    with assms(1) None mset_put_new [OF None, of c] show ?thesis
      by (auto simp: conns_inv_def store_def getClient_store_def H [of c] dest!: returned_update)
  next
    case (Some d)
    with assms(1) show ?thesis
      by (auto simp: conns_inv_def store_def getClient_store_def H [of d] dest!: returned_update)
  qed
qed

lemma conns_inv_step:
  assumes "conn_step s s'" and "conns_inv s"
  shows "conns_inv s'"
  using assms(1)
proof cases
  case (look i p)
  then show ?thesis using conns_inv_look assms(2) by simp
next
  case (dialled i p)
  then show ?thesis using assms(2) held_update [of i "cn_calls s" "Storing p (cn_opened s)"]
    by (auto simp: conns_inv_def dest!: returned_update)
next
  case (failed i p)
  then show ?thesis using assms(2) held_update [of i "cn_calls s" "CallFailed p"]
    by (auto simp: conns_inv_def dest!: returned_update)
next
  case (store i p c)
  then show ?thesis using conns_inv_store assms(2) by simp
qed (use assms(2) in \<open>auto simp: conns_inv_def\<close>)

lemma conns_inv_reach: "conn_step\<^sup>*\<^sup>* no_conns s \<Longrightarrow> conns_inv s"
proof (induction rule: rtranclp_induct)
  case base
  then show ?case by (simp add: conns_inv_def no_conns_def)
next
  case (step s t)
  then show ?case using conns_inv_step by blast
qed

lemma conns_places:
  assumes "conns_inv s"
  shows "distinct (map snd (cn_pool s) @ cn_dropped s @ held (cn_calls s))"
    and "set (map snd (cn_pool s)) \<union> set (cn_dropped s) \<union> set (held (cn_calls s)) = {0..<cn_opened s}"
proof -
  have m: "mset (map snd (cn_pool s) @ cn_dropped s @ held (cn_calls s)) = mset [0..<cn_opened s]"
    using assms by (simp add: conns_inv_def ac_simps)
  then show "distinct (map snd (cn_pool s) @ cn_dropped s @ held (cn_calls s))" by (metis distinct_upt mset_eq_imp_distinct_iff)
  show "set (map snd (cn_pool s)) \<union> set (cn_dropped s) \<union> set (held (cn_calls s)) = {0..<cn_opened s}"
    using mset_eq_setD [OF m] by auto
qed

text \<open>What is in the pool stays there, and \<open>Stop\<close> closes once.\<close>

lemma conn_step_keeps:
  assumes "conn_step s t"
  shows "(map_of (cn_pool s) p = Some c \<longrightarrow> map_of (cn_pool t) p = Some c) \<and> (cn_shut s = Some cs \<longrightarrow> cn_shut t = Some cs)"
  using assms
  by cases (auto simp: look_def store_def getClient_store_def getClient_lookup_def update_conv' split: option.split)

section \<open>Properties\<close>

text \<open>
  C20. One connection per peer. In every interleaving of calls of \<open>getClient\<close> and \<open>Stop\<close>, two calls for a peer that have returned have the same
  connection, which is the one in the pool; and every connection ever opened is in exactly one place: in the pool, closed by the call that lost
  the race, or with a call that is about to store it.
\<close>

theorem getClient_one_connection:
  assumes "conn_step\<^sup>*\<^sup>* no_conns s"
  shows "(\<forall>p c d. Returned p c \<in> set (cn_calls s) \<longrightarrow> Returned p d \<in> set (cn_calls s) \<longrightarrow> c = d \<and> map_of (cn_pool s) p = Some c) \<and>
    distinct (map snd (cn_pool s) @ cn_dropped s @ held (cn_calls s)) \<and>
    set (map snd (cn_pool s)) \<union> set (cn_dropped s) \<union> set (held (cn_calls s)) = {0..<cn_opened s}"
proof -
  have inv: "conns_inv s" by (rule conns_inv_reach [OF assms])
  then have r: "map_of (cn_pool s) p = Some c" if "Returned p c \<in> set (cn_calls s)" for p c
    using that unfolding conns_inv_def by blast
  have "c = d" if "Returned p c \<in> set (cn_calls s)" "Returned p d \<in> set (cn_calls s)" for p c d
    using r [OF that(1)] r [OF that(2)] by simp
  with r conns_places [OF inv] show ?thesis by blast
qed

text \<open>Two calls for one peer: both look, both dial, the second stores first.\<close>

definition raced :: Conns where
  "raced = \<lparr>cn_pool = [(''b'', 1)], cn_calls = [Returned ''b'' 1, Returned ''b'' 1], cn_opened = 2, cn_dropped = [0], cn_shut = None\<rparr>"

lemma raced_reached: "conn_step\<^sup>*\<^sup>* no_conns raced"
proof -
  let ?s = "\<lambda>pool cs n. \<lparr>cn_pool = pool, cn_calls = cs, cn_opened = n, cn_dropped = [], cn_shut = None\<rparr>"
  have "conn_step no_conns (?s [] [Looking ''b''] 0)" using called [of no_conns "''b''"] by (simp add: no_conns_def)
  moreover have "conn_step (?s [] [Looking ''b''] 0) (?s [] [Looking ''b'', Looking ''b''] 0)"
    using called [of "?s [] [Looking ''b''] 0" "''b''"] by simp
  moreover have "conn_step (?s [] [Looking ''b'', Looking ''b''] 0) (?s [] [Dialing ''b'', Looking ''b''] 0)"
    using conn_step.look [of 0 "?s [] [Looking ''b'', Looking ''b''] 0" "''b''"] by (simp add: look_def getClient_lookup_def)
  moreover have "conn_step (?s [] [Dialing ''b'', Looking ''b''] 0) (?s [] [Dialing ''b'', Dialing ''b''] 0)"
    using conn_step.look [of 1 "?s [] [Dialing ''b'', Looking ''b''] 0" "''b''"] by (simp add: look_def getClient_lookup_def)
  moreover have "conn_step (?s [] [Dialing ''b'', Dialing ''b''] 0) (?s [] [Storing ''b'' 0, Dialing ''b''] 1)"
    using dialled [of 0 "?s [] [Dialing ''b'', Dialing ''b''] 0" "''b''"] by simp
  moreover have "conn_step (?s [] [Storing ''b'' 0, Dialing ''b''] 1) (?s [] [Storing ''b'' 0, Storing ''b'' 1] 2)"
    using dialled [of 1 "?s [] [Storing ''b'' 0, Dialing ''b''] 1" "''b''"] by (simp add: numeral_2_eq_2)
  moreover have "conn_step (?s [] [Storing ''b'' 0, Storing ''b'' 1] 2) (?s [(''b'', 1)] [Storing ''b'' 0, Returned ''b'' 1] 2)"
    using conn_step.store [of 1 "?s [] [Storing ''b'' 0, Storing ''b'' 1] 2" "''b''" 1] by (simp add: store_def getClient_store_def)
  moreover have "conn_step (?s [(''b'', 1)] [Storing ''b'' 0, Returned ''b'' 1] 2) raced"
    using conn_step.store [of 0 "?s [(''b'', 1)] [Storing ''b'' 0, Returned ''b'' 1] 2" "''b''" 0]
    by (simp add: store_def getClient_store_def raced_def)
  ultimately show ?thesis by - ((erule converse_rtranclp_into_rtranclp)+, simp)
qed

theorem getClient_one_connection_witness:
  "distinct (map snd (cn_pool raced) @ cn_dropped raced @ held (cn_calls raced)) \<and>
   map_of (cn_pool raced) ''b'' = Some 1 \<and> cn_dropped raced = [0]"
  using getClient_one_connection [OF raced_reached] by (simp add: raced_def)

text \<open>
  \<open>Stop\<close> closes what is in the pool when it gets there, without the mutex: a call that was dialling stores its connection afterwards, and
  nothing ever closes it.
\<close>

definition late :: "string \<Rightarrow> Conns" where
  "late p = \<lparr>cn_pool = [(p, 0)], cn_calls = [Returned p 0], cn_opened = 1, cn_dropped = [], cn_shut = Some []\<rparr>"

lemma late_reached: "conn_step\<^sup>*\<^sup>* no_conns (late p)"
proof -
  let ?s = "\<lambda>cs n shut. \<lparr>cn_pool = [], cn_calls = cs, cn_opened = n, cn_dropped = [], cn_shut = shut\<rparr>"
  let ?step = "conn_step\<^sup>*\<^sup>*"
  have "?step no_conns (?s [Looking p] 0 None)" using called [of no_conns p] by (simp add: no_conns_def r_into_rtranclp)
  also have "?step \<dots> (?s [Dialing p] 0 None)"
    using conn_step.look [of 0 "?s [Looking p] 0 None" p] by (simp add: look_def getClient_lookup_def r_into_rtranclp)
  also have "?step \<dots> (?s [Dialing p] 0 (Some []))"
    using conn_step.stop [of "?s [Dialing p] 0 None" id] by (simp add: closeClients_def r_into_rtranclp)
  also have "?step \<dots> (?s [Storing p 0] 1 (Some []))"
    using dialled [of 0 "?s [Dialing p] 0 (Some [])" p] by (simp add: r_into_rtranclp)
  also have "?step \<dots> (late p)"
    using conn_step.store [of 0 "?s [Storing p 0] 1 (Some [])" p 0] by (simp add: store_def getClient_store_def late_def r_into_rtranclp)
  finally show ?thesis .
qed

theorem connection_survives_Stop:
  assumes "conn_step\<^sup>*\<^sup>* (late p) t"
  shows "conn_step\<^sup>*\<^sup>* no_conns t \<and> cn_shut t = Some [] \<and> map_of (cn_pool t) p = Some 0 \<and> 0 \<notin> set (cn_dropped t)"
proof -
  have r: "conn_step\<^sup>*\<^sup>* no_conns t" by (rule rtranclp_trans [OF late_reached assms])
  have k: "cn_shut t = Some [] \<and> map_of (cn_pool t) p = Some 0"
    using assms
  proof (induction rule: rtranclp_induct)
    case (step u v)
    then show ?case using conn_step_keeps [OF step(2)] by blast
  qed (simp add: late_def)
  then have "0 \<in> set (map snd (cn_pool t))" by (auto dest!: map_of_SomeD intro: image_eqI [of _ snd "(p, 0)"])
  with conns_places(1) [OF conns_inv_reach [OF r]] have "0 \<notin> set (cn_dropped t)" by auto
  with r k show ?thesis by blast
qed

theorem connection_survives_Stop_witness: "cn_shut (late ''b'') = Some [] \<and> map_of (cn_pool (late ''b'')) ''b'' = Some 0"
  using connection_survives_Stop [of "''b''" "late ''b''"] by simp

end
