(* ===== verification/Raft_Apply.thy ===== *)
theory Raft_Apply
  imports Raft_Persist
begin

text \<open>
  Handing committed entries to the broker: the goroutines of \<open>applyCommittedEntries\<close>, the buffered channel
  \<open>applyCh\<close>, the reader \<open>handleApply\<close> and \<open>Broker.Stop\<close>, in every interleaving. Every call of
  \<open>updateCommitIndex\<close> starts one more goroutine, and each gives the mutex up while it sends. Shown: every
  committed entry is sent at most once, and exactly once while the node is not stopped; one goroutine at a time
  keeps the order of the log, two do not; the way out through the stop channel unlocks a mutex that is not
  locked; what was sent and not received when the process ends is skipped by the next one; a node that never
  leads applies nothing.
\<close>

section \<open>One critical section\<close>

text \<open>From taking the mutex to giving it up: at the next entry for the channel, or at the end of the loop.\<close>

fun apply_section :: "nat \<Rightarrow> RaftNode \<Rightarrow> (LogEntry option \<times> RaftNode) go" where
  "apply_section 0 r = Ret (None, r)"
| "apply_section (Suc k) r =
     (let i = lastApplied r + 1; r1 = r\<lparr>lastApplied := i\<rparr>
      in if length (log r1) \<le> i then Panic
         else let entry = log r1 ! i
              in if is_config_entry entry then apply_section k (applyConfigChangeLocked entry r1)
                 else if applyCh r1 then Ret (Some entry, r1)
                 else apply_section k r1)"

definition lock_and_apply :: "RaftNode \<Rightarrow> (LogEntry option \<times> RaftNode) go" where
  "lock_and_apply r = apply_section (commitIndex r - lastApplied r) r"

section \<open>The process\<close>

text \<open>A goroutine of \<open>applyCommittedEntries\<close> waits for the mutex, or has given it up and waits in its select.\<close>

datatype applier = Locking | Sending LogEntry

datatype crash = UnlockOfUnlocked | SendOnClosed | CloseOfClosed | IndexOutOfRange | SliceOutOfRange

text \<open>How far \<open>Broker.Stop\<close> has got: \<open>close(b.stopCh)\<close>, \<open>close(r.stopCh)\<close> in \<open>RaftNode.Stop\<close>,
  and after the sleep \<open>close(b.applyCh)\<close>.\<close>

datatype stopper = NotStopped | BrokerStopped | NodeStopped | ApplyClosed

text \<open>
  \<open>applied\<close> of the node is all that was sent on \<open>applyCh\<close>; \<open>handleApply\<close> has received the first
  \<open>p_received\<close> of it, so the rest is in the buffer. \<open>p_locked\<close> is the state of \<open>r.mu\<close>, and
  \<open>p_inside\<close> the number of other goroutines between their \<open>Lock\<close> and their \<open>Unlock\<close>.
\<close>

record Process =
  p_node :: RaftNode
  p_appliers :: "applier list"
  p_received :: nat
  p_reader :: bool
  p_stop :: stopper
  p_locked :: bool
  p_inside :: nat
  p_dead :: "crash option"

definition boot :: "RaftNode \<Rightarrow> Process" where
  "boot r = \<lparr>p_node = r, p_appliers = [], p_received = 0, p_reader = True, p_stop = NotStopped,
             p_locked = False, p_inside = 0, p_dead = None\<rparr>"

definition applyCh_cap :: nat where "applyCh_cap = 100"

definition buffered :: "Process \<Rightarrow> nat" where
  "buffered s = length (applied (p_node s)) - p_received s"

definition node_stopped :: "Process \<Rightarrow> bool" where
  "node_stopped s \<longleftrightarrow> p_stop s = NodeStopped \<or> p_stop s = ApplyClosed"

definition remove_at :: "nat \<Rightarrow> 'a list \<Rightarrow> 'a list" where
  "remove_at i xs = take i xs @ drop (Suc i) xs"

text \<open>
  What other goroutines do under the mutex: commands, requests to followers (\<open>sendAppendEntries\<close> up to the call) and their replies, timers, elections,
  votes, changes of the configuration, requests of a leader. \<open>SubmitCommand\<close> and \<open>appendStableConfig\<close> start the goroutines of their heartbeats after they
  unlocked; that is a step of its own below. An operation that blocks on the mutex it holds has no result and is not a step: after it no goroutine gets the mutex again.
\<close>

datatype node_op =
    OpSubmit string int "byte list"
  | OpReply string nat nat AppendEntriesReply
  | OpHeartbeat
  | OpISR
  | OpVote RequestVoteArgs
  | OpElection
  | OpVoteReply string nat RequestVoteReply
  | OpAwait nat
  | OpConfig cfg_order cfg_order string bool
  | OpStable cfg_order
  | OpAppend AppendEntriesArgs
  | OpSend string

fun run_op :: "node_op \<Rightarrow> RaftNode \<Rightarrow> RaftNode go" where
  "run_op (OpSubmit topic part data) r = go_bind (SubmitCommand topic part data r) (\<lambda>(res, r'). Ret (r'\<lparr>goroutines := goroutines r\<rparr>))"
| "run_op (OpReply peerAddr prevLogIndex n reply) r = Ret (handleAppendReply peerAddr prevLogIndex n reply r)"
| "run_op OpHeartbeat r = Ret (onHeartbeatTimer r)"
| "run_op OpISR r = Ret (checkISR r)"
| "run_op (OpVote args) r = Ret (snd (RequestVote args r))"
| "run_op OpElection r = Ret (onElectionTimer r)"
| "run_op (OpVoteReply addr t reply) r = Ret (handleVoteReply addr t reply r)"
| "run_op (OpAwait t) r = Ret (awaitVotes t r)"
| "run_op (OpConfig ordOld ordNew addr add) r = Ret (changeConfig ordOld ordNew addr add r)"
| "run_op (OpStable ord) r = Ret ((appendStableConfig ord r)\<lparr>goroutines := goroutines r\<rparr>)"
| "run_op (OpAppend args) r = go_bind (AppendEntries args r) (\<lambda>(reply, r'). Ret r')"
| "run_op (OpSend peerAddr) r = go_bind (sendAppendEntries_plan peerAddr r) (\<lambda>(plan, r'). Ret r')"

text \<open>What Raft promises a follower: no request of a leader replaces an entry that the follower knows to be committed or has applied.\<close>

definition keeps_committed :: "RaftNode \<Rightarrow> RaftNode \<Rightarrow> bool" where
  "keeps_committed r r' \<longleftrightarrow>
     (let p = take (Suc (max (commitIndex r) (lastApplied r))) (log r) in take (length p) (log r') = p)"

fun op_ok :: "node_op \<Rightarrow> RaftNode \<Rightarrow> bool" where
  "op_ok (OpAppend args) r = (case AppendEntries args r of Ret (reply, r') \<Rightarrow> keeps_committed r r' | _ \<Rightarrow> True)"
| "op_ok _ r = True"

text \<open>An applier's turn at the mutex, its send, and its return when the stop channel is closed: the mutex was
  given up before the select, and the deferred \<open>Unlock\<close> runs all the same.\<close>

definition take_turn :: "nat \<Rightarrow> Process \<Rightarrow> Process" where
  "take_turn i s =
     (case lock_and_apply (p_node s) of
        Ret (Some e, r) \<Rightarrow> s\<lparr>p_node := r, p_appliers := (p_appliers s)[i := Sending e]\<rparr>
      | Ret (None, r) \<Rightarrow> s\<lparr>p_node := r, p_appliers := remove_at i (p_appliers s)\<rparr>
      | _ \<Rightarrow> s\<lparr>p_dead := Some IndexOutOfRange\<rparr>)"

definition send_entry :: "nat \<Rightarrow> LogEntry \<Rightarrow> Process \<Rightarrow> Process" where
  "send_entry i e s =
     s\<lparr>p_node := (p_node s)\<lparr>applied := applied (p_node s) @ [e]\<rparr>, p_appliers := (p_appliers s)[i := Locking]\<rparr>"

definition stop_return :: "nat \<Rightarrow> Process \<Rightarrow> Process" where
  "stop_return i s =
     (let s1 = s\<lparr>p_appliers := remove_at i (p_appliers s)\<rparr>
      in if p_locked s then s1\<lparr>p_locked := False\<rparr> else s1\<lparr>p_dead := Some UnlockOfUnlocked\<rparr>)"

definition leave :: "Process \<Rightarrow> Process" where
  "leave s = (if p_locked s then s\<lparr>p_locked := False, p_inside := p_inside s - 1\<rparr>
              else s\<lparr>p_dead := Some UnlockOfUnlocked\<rparr>)"

text \<open>One step of \<open>Broker.Stop\<close>; a second call closes a closed channel.\<close>

fun advance_stop :: "stopper \<Rightarrow> stopper" where
  "advance_stop NotStopped = BrokerStopped"
| "advance_stop BrokerStopped = NodeStopped"
| "advance_stop _ = ApplyClosed"

text \<open>At most \<open>k\<close> appliers run at a time; the code has no bound. Heartbeats are sent without the mutex, and here at any time.\<close>

inductive proc_step :: "nat \<Rightarrow> Process \<Rightarrow> Process \<Rightarrow> bool" for k where
  enter: "p_dead s = None \<Longrightarrow> \<not> p_locked s \<Longrightarrow> op_ok op (p_node s) \<Longrightarrow> run_op op (p_node s) = Ret r \<Longrightarrow>
    proc_step k s (s\<lparr>p_node := r, p_locked := True, p_inside := p_inside s + 1\<rparr>)"
| enter_panics: "p_dead s = None \<Longrightarrow> \<not> p_locked s \<Longrightarrow> run_op op (p_node s) = Panic \<Longrightarrow>
    proc_step k s (s\<lparr>p_dead := Some SliceOutOfRange\<rparr>)"
| heartbeats: "p_dead s = None \<Longrightarrow> proc_step k s (s\<lparr>p_node := sendHeartbeats (p_node s)\<rparr>)"
| leave: "p_dead s = None \<Longrightarrow> 0 < p_inside s \<Longrightarrow> proc_step k s (leave s)"
| start: "p_dead s = None \<Longrightarrow> GoApplyCommittedEntries \<in> set (goroutines (p_node s)) \<Longrightarrow> length (p_appliers s) < k \<Longrightarrow>
    proc_step k s (s\<lparr>p_node := (p_node s)\<lparr>goroutines := remove1 GoApplyCommittedEntries (goroutines (p_node s))\<rparr>,
                     p_appliers := p_appliers s @ [Locking]\<rparr>)"
| turn: "p_dead s = None \<Longrightarrow> \<not> p_locked s \<Longrightarrow> i < length (p_appliers s) \<Longrightarrow> p_appliers s ! i = Locking \<Longrightarrow>
    proc_step k s (take_turn i s)"
| send: "p_dead s = None \<Longrightarrow> i < length (p_appliers s) \<Longrightarrow> p_appliers s ! i = Sending e \<Longrightarrow>
    p_stop s \<noteq> ApplyClosed \<Longrightarrow> buffered s < applyCh_cap \<Longrightarrow> proc_step k s (send_entry i e s)"
| send_closed: "p_dead s = None \<Longrightarrow> i < length (p_appliers s) \<Longrightarrow> p_appliers s ! i = Sending e \<Longrightarrow>
    p_stop s = ApplyClosed \<Longrightarrow> proc_step k s (s\<lparr>p_dead := Some SendOnClosed\<rparr>)"
| stop_return: "p_dead s = None \<Longrightarrow> i < length (p_appliers s) \<Longrightarrow> p_appliers s ! i = Sending e \<Longrightarrow>
    node_stopped s \<Longrightarrow> proc_step k s (stop_return i s)"
| receive: "p_dead s = None \<Longrightarrow> p_reader s \<Longrightarrow> 0 < buffered s \<Longrightarrow> proc_step k s (s\<lparr>p_received := p_received s + 1\<rparr>)"
| reader_ends: "p_dead s = None \<Longrightarrow> p_reader s \<Longrightarrow> p_stop s \<noteq> NotStopped \<Longrightarrow> proc_step k s (s\<lparr>p_reader := False\<rparr>)"
| stop: "p_dead s = None \<Longrightarrow> p_stop s \<noteq> ApplyClosed \<Longrightarrow> proc_step k s (s\<lparr>p_stop := advance_stop (p_stop s)\<rparr>)"
| stop_again: "p_dead s = None \<Longrightarrow> p_stop s \<noteq> NotStopped \<Longrightarrow> proc_step k s (s\<lparr>p_dead := Some CloseOfClosed\<rparr>)"

inductive_cases proc_stepE: "proc_step k s s'"

text \<open>The entries that appliers hold, and the entries for the broker at the positions behind \<open>a\<close> up to \<open>b\<close>.\<close>

definition in_flight :: "applier list \<Rightarrow> LogEntry list" where
  "in_flight as = concat (map (\<lambda>a. case a of Sending e \<Rightarrow> [e] | Locking \<Rightarrow> []) as)"

definition data_entries :: "nat \<Rightarrow> nat \<Rightarrow> LogEntry list \<Rightarrow> LogEntry list" where
  "data_entries a b l = filter (\<lambda>e. \<not> is_config_entry e) (take (b - a) (drop (Suc a) l))"

section \<open>What a section and an operation keep\<close>

lemma add_learners_keep [simp]:
  "log (add_learners as r) = log r \<and> lastApplied (add_learners as r) = lastApplied r \<and>
   commitIndex (add_learners as r) = commitIndex r \<and> applied (add_learners as r) = applied r \<and>
   applyCh (add_learners as r) = applyCh r"
  by (induction as r rule: add_learners.induct) simp_all

lemma drop_peers_keep [simp]:
  "log (drop_peers as r) = log r \<and> lastApplied (drop_peers as r) = lastApplied r \<and>
   commitIndex (drop_peers as r) = commitIndex r \<and> applied (drop_peers as r) = applied r \<and>
   applyCh (drop_peers as r) = applyCh r"
  by (induction as r rule: drop_peers.induct) simp_all

lemma applyConfigChangeLocked_keep [simp]:
  "log (applyConfigChangeLocked e r) = log r" "lastApplied (applyConfigChangeLocked e r) = lastApplied r"
  "commitIndex (applyConfigChangeLocked e r) = commitIndex r" "applied (applyConfigChangeLocked e r) = applied r"
  "applyCh (applyConfigChangeLocked e r) = applyCh r"
  by (simp_all add: applyConfigChangeLocked_def Let_def split: option.split)

lemma data_entries_same [simp]: "data_entries a a l = []"
  by (simp add: data_entries_def)

lemma data_entries_step:
  "a \<le> b \<Longrightarrow> Suc b < length l \<Longrightarrow>
   data_entries a (Suc b) l = data_entries a b l @ (if is_config_entry (l ! Suc b) then [] else [l ! Suc b])"
  by (simp add: data_entries_def Suc_diff_le take_Suc_conv_app_nth)

lemma data_entries_split:
  assumes "a \<le> b" and "b \<le> c"
  shows "data_entries a c l = data_entries a b l @ data_entries b c l"
proof -
  have "take (c - a) (drop (Suc a) l) = take (b - a) (drop (Suc a) l) @ take (c - b) (drop (Suc b) l)"
    using assms take_add [of "b - a" "c - b" "drop (Suc a) l"] by (simp add: add.commute)
  then show ?thesis by (simp add: data_entries_def)
qed

lemma data_entries_cong: "take (Suc b) l = take (Suc b) l' \<Longrightarrow> data_entries a b l = data_entries a b l'"
  unfolding data_entries_def by (metis diff_Suc_Suc drop_take)

lemma apply_section_result:
  assumes "apply_section k r = Ret (x, r')" and "applyCh r"
  shows "log r' = log r \<and> applied r' = applied r \<and> commitIndex r' = commitIndex r \<and> applyCh r' \<and>
    lastApplied r \<le> lastApplied r' \<and> lastApplied r' \<le> lastApplied r + k \<and>
    (lastApplied r' = lastApplied r \<or> lastApplied r' < length (log r)) \<and>
    data_entries (lastApplied r) (lastApplied r') (log r) = (case x of None \<Rightarrow> [] | Some e \<Rightarrow> [e]) \<and>
    (x = None \<longrightarrow> lastApplied r' = lastApplied r + k)"
  using assms
proof (induction k r rule: apply_section.induct)
  case (1 r)
  then show ?case by simp
next
  case (2 k r)
  let ?i = "Suc (lastApplied r)"
  have len: "?i < length (log r)" using "2.prems"(1) by (auto simp: Let_def split: if_splits)
  have one: "data_entries (lastApplied r) ?i (log r) = (if is_config_entry (log r ! ?i) then [] else [log r ! ?i])"
    using data_entries_step [of "lastApplied r" "lastApplied r" "log r"] len by simp
  show ?case
  proof (cases "is_config_entry (log r ! ?i)")
    case False
    then show ?thesis using "2.prems" len one by (auto simp: Let_def)
  next
    case True
    let ?r1 = "applyConfigChangeLocked (log r ! ?i) (r\<lparr>lastApplied := ?i\<rparr>)"
    have "apply_section k ?r1 = Ret (x, r')" using "2.prems"(1) len True by (simp add: Let_def)
    then have IH: "log r' = log r" "applied r' = applied r" "commitIndex r' = commitIndex r" "applyCh r'"
      "?i \<le> lastApplied r'" "lastApplied r' \<le> ?i + k" "lastApplied r' = ?i \<or> lastApplied r' < length (log r)"
      "data_entries ?i (lastApplied r') (log r) = (case x of None \<Rightarrow> [] | Some e \<Rightarrow> [e])"
      "x = None \<longrightarrow> lastApplied r' = ?i + k"
      using "2.IH"(1) [of ?i "r\<lparr>lastApplied := ?i\<rparr>" "log r ! ?i"] len True "2.prems"(2) by auto
    moreover have "data_entries (lastApplied r) (lastApplied r') (log r) = data_entries ?i (lastApplied r') (log r)"
      using data_entries_split [of "lastApplied r" ?i "lastApplied r'" "log r"] IH(5) one True by simp
    ultimately show ?thesis using len by auto
  qed
qed

lemma apply_section_defined:
  "lastApplied r + k < length (log r) \<or> k = 0 \<Longrightarrow> \<exists>x r'. apply_section k r = Ret (x, r')"
  by (induction k r rule: apply_section.induct) (auto simp: Let_def)

text \<open>Without interference, sections and sends in turn are the loop as a whole.\<close>

lemma apply_rounds_sections:
  "apply_section k r = Ret (None, r') \<Longrightarrow> applyCh r \<Longrightarrow> apply_rounds k r = Ret r'"
  "apply_section k r = Ret (Some e, r') \<Longrightarrow> applyCh r \<Longrightarrow>
     apply_rounds k r = apply_rounds (k - (lastApplied r' - lastApplied r)) (r'\<lparr>applied := applied r' @ [e]\<rparr>)"
proof (induction k r rule: apply_section.induct)
  case (1 r)
  { case 1 then show ?case by simp next case 2 then show ?case by simp }
next
  case (2 k r)
  { case 1 then show ?case using "2.IH"(1) by (auto simp: Let_def split: if_splits)
  next
    case 2
    then show ?case
    proof (cases "is_config_entry (log r ! Suc (lastApplied r))")
      case True
      with 2 have "apply_section k (applyConfigChangeLocked (log r ! Suc (lastApplied r)) (r\<lparr>lastApplied := Suc (lastApplied r)\<rparr>)) = Ret (Some e, r')"
        by (auto simp: Let_def split: if_splits)
      from apply_section_result [OF this] "2.IH"(2) 2 True show ?thesis
        by (auto simp: Let_def Suc_diff_le split: if_splits)
    next
      case False
      with 2 show ?thesis by (auto simp: Let_def split: if_splits)
    qed }
qed

lemma commit_loop_keep [simp]: "applied (commit_loop n r) = applied r \<and> applyCh (commit_loop n r) = applyCh r"
proof (induction n r rule: commit_loop.induct)
  case (1 n r)
  have "applied (commit_at n r) = applied r" "applyCh (commit_at n r) = applyCh r"
    by (simp_all add: commit_at_def Let_def split: option.split)
  with 1 show ?case
    by (cases "n < length (log r) \<and> le_Term (log r ! n) = currentTerm r \<and> quorum_at n r")
      (auto simp: commit_loop.simps [of n r])
qed

lemma commit_loop_bound:
  "commitIndex r < n \<Longrightarrow> commitIndex r \<le> commitIndex (commit_loop n r) \<and>
   (commitIndex (commit_loop n r) = commitIndex r \<or> commitIndex (commit_loop n r) < length (log r))"
  using commit_loop_result [of r n] by (auto simp: committable_def)

text \<open>An operation keeps what was applied, and the log up to where it was.\<close>

definition grows :: "RaftNode \<Rightarrow> RaftNode \<Rightarrow> bool" where
  "grows r r' \<longleftrightarrow> lastApplied r' = lastApplied r \<and> applied r' = applied r \<and> applyCh r' = applyCh r \<and>
     (lastApplied r < length (log r) \<longrightarrow>
        lastApplied r < length (log r') \<and> take (Suc (lastApplied r)) (log r') = take (Suc (lastApplied r)) (log r)) \<and>
     (commitIndex r < length (log r) \<longrightarrow> commitIndex r' < length (log r'))"

lemma growsI:
  "lastApplied r' = lastApplied r \<Longrightarrow> applied r' = applied r \<Longrightarrow> applyCh r' = applyCh r \<Longrightarrow> log r' = log r @ es \<Longrightarrow>
   commitIndex r' = commitIndex r \<or> commitIndex r' < length (log r') \<Longrightarrow> grows r r'"
  by (auto simp: grows_def)

lemma grows_refl [simp]: "grows r r"
  by (simp add: grows_def)

lemma grows_trans: "grows r r1 \<Longrightarrow> grows r1 r2 \<Longrightarrow> grows r r2"
  by (auto simp: grows_def)

lemma grows_becomeFollower: "grows r (becomeFollower t r)"
  by (rule growsI [where es = "[]"]) (simp_all add: becomeFollower_def close_pending_def)

lemma grows_handleAppendReply: "grows r (handleAppendReply p i n reply r)"
proof -
  let ?r = "\<lambda>a b. r\<lparr>nextIndex := a, matchIndex := b\<rparr>"
  have "grows r (updateCommitIndex (?r a b))" for a b
    using commit_loop_bound [of "?r a b" "commitIndex r + 1"]
    by (intro growsI [where es = "[]"]) (simp_all add: updateCommitIndex_def)
  moreover have "grows r (spawn [GoSendAppendEntries p] (r\<lparr>nextIndex := a\<rparr>))" for a
    by (rule growsI [where es = "[]"]) simp_all
  ultimately show ?thesis by (simp add: handleAppendReply_def grows_becomeFollower)
qed

lemma leader_indexes_keep [simp]:
  "applied (leader_indexes ps r) = applied r \<and> applyCh (leader_indexes ps r) = applyCh r \<and> lastApplied (leader_indexes ps r) = lastApplied r \<and>
   log (leader_indexes ps r) = log r \<and> commitIndex (leader_indexes ps r) = commitIndex r"
  by (induction ps r rule: leader_indexes.induct) simp_all

lemma grows_becomeLeader: "grows r (becomeLeader r)"
  by (rule growsI [where es = "[]"]) (simp_all add: becomeLeader_def sendHeartbeats_def close_pending_def)

lemma grows_startElection: "grows r (startElection r)"
proof (cases "peers r = []")
  case True
  let ?r1 = "r\<lparr>state := Candidate, currentTerm := u64_inc (currentTerm r), votedFor := selfAddr r\<rparr>"
  have "grows r ?r1" by (rule growsI [where es = "[]"]) simp_all
  moreover have "grows (becomeLeader ?r1) (saveState (becomeLeader ?r1))" by (rule growsI [where es = "[]"]) simp_all
  ultimately have "grows r (saveState (becomeLeader ?r1))" using grows_becomeLeader grows_trans by blast
  with True show ?thesis by (simp add: startElection_def Let_def)
qed (rule growsI [where es = "[]"], simp_all add: startElection_def Let_def)

lemma grows_handleVoteReply: "grows r (handleVoteReply addr t reply r)"
proof -
  have "grows r (r\<lparr>elections := e\<rparr>)" for e by (rule growsI [where es = "[]"]) simp_all
  with grows_trans [OF this grows_becomeLeader] show ?thesis
    by (auto simp: handleVoteReply_def Let_def grows_becomeFollower split: option.split)
qed

lemma grows_AppendEntries:
  assumes "AppendEntries args r = Ret (reply, r')" and "keeps_committed r r'"
  shows "grows r r'"
proof -
  have f: "lastApplied r' = lastApplied r" "applied r' = applied r" "applyCh r' = applyCh r" "commitIndex r' = commitIndex r"
    using assms(1) by (auto simp: AppendEntries_def applyCommittedEntries_def Let_def becomeFollower_def close_pending_def split: if_splits)
  let ?m = "max (commitIndex r) (lastApplied r)"
  have k: "take (Suc n) (log r') = take (Suc n) (log r) \<and> n < length (log r')" if "n \<le> ?m" "n < length (log r)" for n
  proof -
    let ?p = "take (Suc ?m) (log r)"
    have "take (length ?p) (log r') = ?p" using assms(2) by (simp add: keeps_committed_def Let_def)
    moreover have "n < length ?p" using that by simp
    moreover from calculation have "length ?p \<le> length (log r')" by (metis length_take min.cobounded1 min.commute)
    ultimately have "take (Suc n) (log r') = take (Suc n) ?p" "n < length (log r')" by (metis Suc_leI min.absorb1 take_take, linarith)
    with that show ?thesis by simp
  qed
  show ?thesis using k [of "lastApplied r"] k [of "commitIndex r"] by (simp add: grows_def f)
qed

lemma run_op_grows: "run_op op r = Ret r' \<Longrightarrow> op_ok op r \<Longrightarrow> grows r r'"
proof (induction op r rule: run_op.induct)
  case (1 topic part data r)
  then show ?case
    by (auto simp: SubmitCommand_def Let_def applyCommittedEntries_def sendHeartbeats_def grows_def split: if_splits)
next
  case (2 p i n reply r)
  then show ?case using grows_handleAppendReply [of r p i n reply] by simp
next
  case (3 r)
  then show ?case by (cases "state r = Leader") (auto simp: onHeartbeatTimer_def sendHeartbeats_def grows_def)
next
  case (4 r)
  have "applied (isr_loop ps q) = applied q \<and> applyCh (isr_loop ps q) = applyCh q \<and> lastApplied (isr_loop ps q) = lastApplied q" for ps q
    by (induction ps q rule: isr_loop.induct) (simp_all add: Let_def)
  with 4 show ?case by (cases "state r = Leader") (auto simp: checkISR_def grows_def)
next
  case (5 args r)
  then show ?case
    by (auto simp: RequestVote_def Let_def becomeFollower_def close_pending_def grows_def split: if_splits)
next
  case (6 r)
  then show ?case using grows_startElection [of r] by (auto simp: onElectionTimer_def split: if_splits)
next
  case (7 addr t reply r)
  then show ?case using grows_handleVoteReply [of r addr t reply] by simp
next
  case (8 t r)
  then show ?case using grows_startElection [of r] by (auto simp: awaitVotes_def split: if_splits)
next
  case (9 ordOld ordNew addr add r)
  then show ?case by (auto simp: changeConfig_def Let_def grows_def)
next
  case (10 ord r)
  then show ?case
    by (cases "state r \<noteq> Leader \<or> configState r \<noteq> ConfigJoint") (auto simp: appendStableConfig_def sendHeartbeats_def Let_def grows_def)
next
  case (11 args r)
  then show ?case using grows_AppendEntries [of args r _ r'] by (cases "AppendEntries args r") auto
next
  case (12 p r)
  then show ?case by (auto simp: sendAppendEntries_plan_def Let_def grows_def split: if_splits)
qed

lemma grows_sendHeartbeats: "grows r (sendHeartbeats r)"
  by (rule growsI [where es = "[]"]) (simp_all add: sendHeartbeats_def)

section \<open>The invariant\<close>

text \<open>\<open>L\<close> is where the process started to apply. Until the node is stopped, the entries sent and the entries
  held by appliers are the ones behind \<open>L\<close>; an applier that leaves through the stop channel drops its entry.\<close>

definition accounted :: "nat \<Rightarrow> Process \<Rightarrow> bool" where
  "accounted L s \<longleftrightarrow>
     applyCh (p_node s) \<and> L \<le> lastApplied (p_node s) \<and>
     (lastApplied (p_node s) = L \<or> lastApplied (p_node s) < length (log (p_node s))) \<and>
     p_received s \<le> length (applied (p_node s)) \<and>
     mset (applied (p_node s)) + mset (in_flight (p_appliers s)) \<subseteq># mset (data_entries L (lastApplied (p_node s)) (log (p_node s))) \<and>
     (\<not> node_stopped s \<longrightarrow>
        mset (applied (p_node s)) + mset (in_flight (p_appliers s)) = mset (data_entries L (lastApplied (p_node s)) (log (p_node s))))"

lemma in_flight_simps [simp]:
  "in_flight [] = []" "in_flight (Locking # as) = in_flight as" "in_flight (Sending e # as) = e # in_flight as"
  "in_flight (as @ bs) = in_flight as @ in_flight bs"
  by (simp_all add: in_flight_def)

lemma in_flight_split: "i < length as \<Longrightarrow> in_flight as = in_flight (take i as) @ in_flight (as ! i # drop (Suc i) as)"
  by (metis id_take_nth_drop in_flight_simps(4))

lemma in_flight_update:
  "i < length as \<Longrightarrow> as ! i = Locking \<Longrightarrow> mset (in_flight (as[i := Sending e])) = add_mset e (mset (in_flight as))"
  "i < length as \<Longrightarrow> as ! i = Sending e \<Longrightarrow> mset (in_flight as) = add_mset e (mset (in_flight (as[i := Locking])))"
  "i < length as \<Longrightarrow> as ! i = Locking \<Longrightarrow> in_flight (remove_at i as) = in_flight as"
  "i < length as \<Longrightarrow> as ! i = Sending e \<Longrightarrow> mset (in_flight as) = add_mset e (mset (in_flight (remove_at i as)))"
  by (simp_all add: in_flight_split [of i as] upd_conv_take_nth_drop remove_at_def)

lemma grows_data_entries:
  assumes "grows r r'" and "lastApplied r = L \<or> lastApplied r < length (log r)"
  shows "data_entries L (lastApplied r) (log r') = data_entries L (lastApplied r) (log r)"
  using assms by (cases "lastApplied r = L") (auto simp: grows_def intro: data_entries_cong)

lemma accounted_node:
  assumes "accounted L s" and "grows (p_node s) r"
  shows "accounted L (s\<lparr>p_node := r, p_locked := l, p_inside := n\<rparr>)"
  using assms grows_data_entries [OF assms(2), of L] by (auto simp: accounted_def grows_def node_stopped_def)

lemma accounted_turn:
  assumes "accounted L s" and "i < length (p_appliers s)" and "p_appliers s ! i = Locking"
  shows "accounted L (take_turn i s)"
proof (cases "lock_and_apply (p_node s)")
  case (Ret y)
  obtain x r where y: "y = (x, r)" by (cases y)
  let ?n = "p_node s"
  have res: "log r = log ?n" "applied r = applied ?n" "applyCh r" "lastApplied ?n \<le> lastApplied r"
    "lastApplied r = lastApplied ?n \<or> lastApplied r < length (log ?n)"
    "data_entries (lastApplied ?n) (lastApplied r) (log ?n) = (case x of None \<Rightarrow> [] | Some e \<Rightarrow> [e])"
    using apply_section_result [of "commitIndex ?n - lastApplied ?n" ?n x r] Ret assms(1)
    by (auto simp: y lock_and_apply_def accounted_def)
  have "data_entries L (lastApplied r) (log r) = data_entries L (lastApplied ?n) (log ?n) @ (case x of None \<Rightarrow> [] | Some e \<Rightarrow> [e])"
    using data_entries_split [of L "lastApplied ?n" "lastApplied r" "log ?n"] res assms(1) by (simp add: accounted_def)
  then show ?thesis using assms res in_flight_update(1,3) [of i "p_appliers s"]
    by (cases x) (auto simp: accounted_def take_turn_def Ret y node_stopped_def)
qed (use assms in \<open>simp_all add: take_turn_def accounted_def node_stopped_def\<close>)

lemma accounted_send:
  assumes "accounted L s" and "i < length (p_appliers s)" and "p_appliers s ! i = Sending e"
  shows "accounted L (send_entry i e s)"
  using assms in_flight_update(2) [of i "p_appliers s" e] by (auto simp: accounted_def send_entry_def node_stopped_def)

lemma accounted_stop_return:
  assumes "accounted L s" and "i < length (p_appliers s)" and "p_appliers s ! i = Sending e" and "node_stopped s"
  shows "accounted L (stop_return i s)"
proof -
  have "mset (in_flight (remove_at i (p_appliers s))) \<subseteq># mset (in_flight (p_appliers s))"
    using in_flight_update(4) [OF assms(2,3)] by simp
  then have "mset (applied (p_node s)) + mset (in_flight (remove_at i (p_appliers s))) \<subseteq>#
      mset (data_entries L (lastApplied (p_node s)) (log (p_node s)))"
    using assms(1) subset_mset.order_trans [OF subset_mset.add_left_mono] by (fastforce simp: accounted_def)
  then show ?thesis using assms by (auto simp: accounted_def stop_return_def node_stopped_def Let_def)
qed

lemma accounted_step:
  assumes "proc_step k s s'" and "accounted L s"
  shows "accounted L s'"
  using assms(1)
proof cases
  case (enter op r)
  then show ?thesis using accounted_node [OF assms(2) run_op_grows] by simp
next
  case heartbeats
  then show ?thesis using accounted_node [OF assms(2) grows_sendHeartbeats, where l = "p_locked s" and n = "p_inside s"] by simp
next
  case leave
  then show ?thesis using assms(2) by (simp add: accounted_def leave_def node_stopped_def)
next
  case (turn i)
  then show ?thesis using accounted_turn assms(2) by simp
next
  case (send i e)
  then show ?thesis using accounted_send assms(2) by simp
next
  case (stop_return i e)
  then show ?thesis using accounted_stop_return assms(2) by simp
next
  case stop
  then show ?thesis using assms(2) by (cases "p_stop s") (auto simp: accounted_def node_stopped_def)
next
  case stop_again
  then show ?thesis using assms(2) by (simp add: accounted_def node_stopped_def)
qed (use assms(2) in \<open>auto simp: accounted_def node_stopped_def buffered_def\<close>)

lemma accounted_boot: "applyCh r \<Longrightarrow> applied r = [] \<Longrightarrow> accounted (lastApplied r) (boot r)"
  by (simp add: accounted_def boot_def)

lemma accounted_reach: "(proc_step k)\<^sup>*\<^sup>* s s' \<Longrightarrow> accounted L s \<Longrightarrow> accounted L s'"
  by (induction rule: rtranclp_induct) (auto intro: accounted_step)

text \<open>Before \<open>Stop\<close> the mutex is held exactly for the goroutine inside, and only an index outside the log ends the process.\<close>

definition running_well :: "Process \<Rightarrow> bool" where
  "running_well s \<longleftrightarrow> (p_stop s = NotStopped \<longrightarrow>
     (p_dead s = None \<or> p_dead s = Some IndexOutOfRange \<or> p_dead s = Some SliceOutOfRange) \<and> p_inside s = of_bool (p_locked s))"

lemma running_well_turn: "running_well s \<Longrightarrow> running_well (take_turn i s)"
  by (auto simp: running_well_def take_turn_def split: go.splits option.splits prod.splits)

lemma running_well_step:
  assumes "proc_step k s s'" and "running_well s"
  shows "running_well s'"
  using assms(1)
proof cases
  case leave
  then show ?thesis using assms(2) by (auto simp: running_well_def leave_def)
next
  case (turn i)
  then show ?thesis using running_well_turn assms(2) by simp
next
  case (stop_return i e)
  then show ?thesis using assms(2) by (auto simp: running_well_def stop_return_def node_stopped_def Let_def)
next
  case stop
  then show ?thesis using assms(2) by (cases "p_stop s") (auto simp: running_well_def)
qed (use assms(2) in \<open>auto simp: running_well_def send_entry_def\<close>)

lemma running_well_reach: "(proc_step k)\<^sup>*\<^sup>* s s' \<Longrightarrow> running_well s \<Longrightarrow> running_well s'"
  by (induction rule: rtranclp_induct) (auto intro: running_well_step)

text \<open>A log that reaches as far as the commit index goes on doing so, and then no applier runs past it.\<close>

definition log_covers :: "Process \<Rightarrow> bool" where
  "log_covers s \<longleftrightarrow> applyCh (p_node s) \<and> commitIndex (p_node s) < length (log (p_node s)) \<and> p_dead s \<noteq> Some IndexOutOfRange"

lemma log_covers_turn:
  assumes "log_covers s"
  shows "log_covers (take_turn i s)"
proof -
  let ?n = "p_node s"
  have "lastApplied ?n + (commitIndex ?n - lastApplied ?n) < length (log ?n) \<or> commitIndex ?n - lastApplied ?n = 0"
    using assms by (auto simp: log_covers_def)
  then obtain x r where x: "lock_and_apply ?n = Ret (x, r)"
    unfolding lock_and_apply_def using apply_section_defined by blast
  with apply_section_result [of "commitIndex ?n - lastApplied ?n" ?n x r] assms show ?thesis
    by (cases x) (auto simp: lock_and_apply_def log_covers_def take_turn_def)
qed

lemma log_covers_step:
  assumes "proc_step k s s'" and "log_covers s"
  shows "log_covers s'"
  using assms(1)
proof cases
  case (enter op r)
  then show ?thesis using assms(2) run_op_grows [of op "p_node s" r] by (auto simp: log_covers_def grows_def)
next
  case heartbeats
  then show ?thesis using assms(2) grows_sendHeartbeats [of "p_node s"] by (auto simp: log_covers_def grows_def)
next
  case (turn i)
  then show ?thesis using log_covers_turn assms(2) by simp
qed (use assms(2) in \<open>auto simp: log_covers_def send_entry_def leave_def stop_return_def Let_def\<close>)

lemma log_covers_reach: "(proc_step k)\<^sup>*\<^sup>* s s' \<Longrightarrow> log_covers s \<Longrightarrow> log_covers s'"
  by (induction rule: rtranclp_induct) (auto intro: log_covers_step)

text \<open>
  C4. Every interleaving of the operations of a node (commands, elections, requests and replies of other nodes, changes of the
  configuration; not the installation of a snapshot), appliers, the reader and \<open>Stop\<close> sends a committed entry at most once, if no request
  replaces a committed one: what was sent and what appliers hold are entries of the log between the start and \<open>lastApplied\<close>, each as often as it is there.
  Before \<open>Stop\<close> none is missing, the mutex is held exactly when a goroutine is inside its critical section, and the process can crash only on an index outside the log:
  of an applier, if the log did not reach the commit index at the start (as after a restart that lost entries), or of \<open>sendAppendEntries\<close>.
\<close>

theorem applied_exactly_once:
  assumes "applyCh r" and "applied r = []" and "(proc_step k)\<^sup>*\<^sup>* (boot r) s"
  shows "mset (applied (p_node s)) + mset (in_flight (p_appliers s))
      \<subseteq># mset (data_entries (lastApplied r) (lastApplied (p_node s)) (log (p_node s))) \<and>
    (p_stop s = NotStopped \<longrightarrow>
      mset (applied (p_node s)) + mset (in_flight (p_appliers s))
        = mset (data_entries (lastApplied r) (lastApplied (p_node s)) (log (p_node s))) \<and>
      (p_dead s = None \<or> p_dead s = Some IndexOutOfRange \<or> p_dead s = Some SliceOutOfRange) \<and> p_inside s = of_bool (p_locked s)) \<and>
    (commitIndex r < length (log r) \<longrightarrow> p_dead s \<noteq> Some IndexOutOfRange)"
proof -
  have a: "accounted (lastApplied r) s" by (rule accounted_reach [OF assms(3) accounted_boot]) fact+
  have w: "running_well s" by (rule running_well_reach [OF assms(3)]) (simp add: running_well_def boot_def)
  have "p_dead s \<noteq> Some IndexOutOfRange" if "commitIndex r < length (log r)"
    using log_covers_reach [OF assms(3)] that assms(1) by (simp add: log_covers_def boot_def)
  with a w show ?thesis by (auto simp: accounted_def running_well_def node_stopped_def)
qed

section \<open>Order\<close>

text \<open>With one applier at a time, the list of entries sent, followed by the one held, is that of the log.\<close>

definition in_order :: "nat \<Rightarrow> Process \<Rightarrow> bool" where
  "in_order L s \<longleftrightarrow> length (p_appliers s) \<le> 1 \<and>
     (\<not> node_stopped s \<longrightarrow>
        applied (p_node s) @ in_flight (p_appliers s) = data_entries L (lastApplied (p_node s)) (log (p_node s)))"

lemma single_applier: "length as \<le> 1 \<Longrightarrow> i < length as \<Longrightarrow> as ! i = a \<Longrightarrow> as = [a] \<and> i = 0"
  by (cases as) auto

lemma in_order_turn:
  assumes "in_order L s" and "accounted L s" and "i < length (p_appliers s)" and "p_appliers s ! i = Locking"
  shows "in_order L (take_turn i s)"
proof (cases "lock_and_apply (p_node s)")
  case (Ret y)
  obtain x r where y: "y = (x, r)" by (cases y)
  let ?n = "p_node s"
  have one: "p_appliers s = [Locking]" "i = 0"
    using single_applier [OF _ assms(3,4)] assms(1) by (simp_all add: in_order_def)
  have "log r = log ?n" "applied r = applied ?n" "lastApplied ?n \<le> lastApplied r"
    "data_entries (lastApplied ?n) (lastApplied r) (log ?n) = (case x of None \<Rightarrow> [] | Some e \<Rightarrow> [e])"
    using apply_section_result [of "commitIndex ?n - lastApplied ?n" ?n x r] Ret assms(2)
    by (auto simp: y lock_and_apply_def accounted_def)
  with data_entries_split [of L "lastApplied ?n" "lastApplied r" "log ?n"] assms(1,2) one show ?thesis
    by (cases x) (auto simp: in_order_def accounted_def take_turn_def Ret y node_stopped_def remove_at_def)
qed (use assms in \<open>simp_all add: take_turn_def in_order_def node_stopped_def\<close>)

lemma in_order_step:
  assumes "proc_step 1 s s'" and "in_order L s" and "accounted L s"
  shows "in_order L s'"
  using assms(1)
proof cases
  case (enter op r)
  have g: "grows (p_node s) r" using run_op_grows enter by blast
  with grows_data_entries [OF g, of L] enter assms(2,3) show ?thesis by (auto simp: in_order_def accounted_def grows_def node_stopped_def)
next
  case leave
  then show ?thesis using assms(2) by (simp add: in_order_def leave_def node_stopped_def)
next
  case (turn i)
  then show ?thesis using in_order_turn assms(2,3) by simp
next
  case (send i e)
  then show ?thesis using assms(2) single_applier [of "p_appliers s" i "Sending e"]
    by (auto simp: in_order_def send_entry_def node_stopped_def)
next
  case (stop_return i e)
  then show ?thesis using assms(2) single_applier [of "p_appliers s" i "Sending e"]
    by (auto simp: in_order_def stop_return_def node_stopped_def Let_def remove_at_def)
next
  case stop
  then show ?thesis using assms(2) by (cases "p_stop s") (auto simp: in_order_def node_stopped_def)
qed (use assms(2) in \<open>auto simp: in_order_def node_stopped_def\<close>)

lemma in_order_reach:
  "(proc_step 1)\<^sup>*\<^sup>* s s' \<Longrightarrow> in_order L s \<Longrightarrow> accounted L s \<Longrightarrow> in_order L s' \<and> accounted L s'"
proof (induction rule: rtranclp_induct)
  case (step t u)
  then show ?case using in_order_step [of t u L] accounted_step [of 1 t u L] by simp
qed simp

text \<open>
  If the appliers never overlap, the broker gets the committed entries in the order of the log, each once: what was
  sent, followed by the entry just being sent, is the log behind the start up to \<open>lastApplied\<close> without the
  configuration entries.
\<close>

theorem single_applier_in_order:
  assumes "applyCh r" and "applied r = []" and "(proc_step 1)\<^sup>*\<^sup>* (boot r) s" and "\<not> node_stopped s"
  shows "applied (p_node s) @ in_flight (p_appliers s) = data_entries (lastApplied r) (lastApplied (p_node s)) (log (p_node s))"
  using in_order_reach [OF assms(3), of "lastApplied r"] assms accounted_boot [of r]
  by (simp add: in_order_def boot_def node_stopped_def)

text \<open>Two entries for the broker are committed and not applied, and two goroutines for it have been started.\<close>

definition two_pending :: "RaftNode \<Rightarrow> LogEntry \<Rightarrow> LogEntry \<Rightarrow> bool" where
  "two_pending r e1 e2 \<longleftrightarrow>
     lastApplied r + 2 \<le> commitIndex r \<and> lastApplied r + 2 < length (log r) \<and>
     log r ! (lastApplied r + 1) = e1 \<and> log r ! (lastApplied r + 2) = e2 \<and>
     \<not> is_config_entry e1 \<and> \<not> is_config_entry e2 \<and>
     2 \<le> count_list (goroutines r) GoApplyCommittedEntries"

lemma count_two: "2 \<le> count_list xs x \<Longrightarrow> x \<in> set xs \<and> x \<in> set (remove1 x xs)"
proof (induction xs)
  case (Cons a xs)
  then show ?case by (cases "count_list xs x = 0") (auto simp: count_list_0_iff split: if_splits)
qed simp

lemma lock_and_apply_next:
  assumes "lastApplied r < commitIndex r" and "lastApplied r + 1 < length (log r)" and "applyCh r"
    and "\<not> is_config_entry (log r ! (lastApplied r + 1))"
  shows "lock_and_apply r = Ret (Some (log r ! (lastApplied r + 1)), r\<lparr>lastApplied := lastApplied r + 1\<rparr>)"
proof -
  obtain k where "commitIndex r - lastApplied r = Suc k" using assms(1) by (metis Suc_diff_Suc)
  with assms show ?thesis by (simp add: lock_and_apply_def Let_def)
qed

text \<open>The run: both goroutines take their entry before either sends, and the second sends first.\<close>

lemma swapped_run:
  assumes "two_pending r e1 e2" and "applyCh r" and "applied r = []"
  obtains s where "(proc_step 2)\<^sup>*\<^sup>* (boot r) s" and "applied (p_node s) = [e2, e1]" and "p_received s = 2"
    and "lastApplied (p_node s) = lastApplied r + 2" and "log (p_node s) = log r"
proof -
  let ?g = "GoApplyCommittedEntries"
  have g1: "?g \<in> set (goroutines r)" and g2: "?g \<in> set (remove1 ?g (goroutines r))"
    using count_two [of "goroutines r" ?g] assms(1) by (simp_all add: two_pending_def)
  let ?r2 = "r\<lparr>goroutines := remove1 ?g (remove1 ?g (goroutines r))\<rparr>"
  let ?r3 = "?r2\<lparr>lastApplied := lastApplied r + 1\<rparr>"
  let ?r4 = "?r2\<lparr>lastApplied := lastApplied r + 2\<rparr>"
  let ?s = "\<lambda>n as c. \<lparr>p_node = n, p_appliers = as, p_received = c, p_reader = True, p_stop = NotStopped,
                     p_locked = False, p_inside = 0, p_dead = None\<rparr>"
  have l1: "lock_and_apply ?r2 = Ret (Some e1, ?r3)" using lock_and_apply_next [of ?r2] assms by (auto simp: two_pending_def)
  have l2: "lock_and_apply ?r3 = Ret (Some e2, ?r4)" using lock_and_apply_next [of ?r3] assms by (auto simp: two_pending_def)
  let ?step = "(proc_step 2)\<^sup>*\<^sup>*"
  have "?step (boot r) (?s (r\<lparr>goroutines := remove1 ?g (goroutines r)\<rparr>) [Locking] 0)"
    using proc_step.start [of "boot r" 2] g1 by (simp add: boot_def r_into_rtranclp)
  also have "?step \<dots> (?s ?r2 [Locking, Locking] 0)"
    using proc_step.start [of "?s (r\<lparr>goroutines := remove1 ?g (goroutines r)\<rparr>) [Locking] 0" 2] g2 by (simp add: r_into_rtranclp)
  also have "?step \<dots> (?s ?r3 [Sending e1, Locking] 0)"
    using proc_step.turn [of "?s ?r2 [Locking, Locking] 0" 0 2] l1 by (simp add: take_turn_def r_into_rtranclp)
  also have "?step \<dots> (?s ?r4 [Sending e1, Sending e2] 0)"
    using proc_step.turn [of "?s ?r3 [Sending e1, Locking] 0" 1 2] l2 by (simp add: take_turn_def r_into_rtranclp)
  also have "?step \<dots> (?s (?r4\<lparr>applied := [e2]\<rparr>) [Sending e1, Locking] 0)"
    using proc_step.send [of "?s ?r4 [Sending e1, Sending e2] 0" 1 e2 2] assms(3)
    by (simp add: send_entry_def buffered_def applyCh_cap_def r_into_rtranclp)
  also have "?step \<dots> (?s (?r4\<lparr>applied := [e2, e1]\<rparr>) [Locking, Locking] 0)"
    using proc_step.send [of "?s (?r4\<lparr>applied := [e2]\<rparr>) [Sending e1, Locking] 0" 0 e1 2]
    by (simp add: send_entry_def buffered_def applyCh_cap_def r_into_rtranclp)
  also have "?step \<dots> (?s (?r4\<lparr>applied := [e2, e1]\<rparr>) [Locking, Locking] 1)"
    using proc_step.receive [of "?s (?r4\<lparr>applied := [e2, e1]\<rparr>) [Locking, Locking] 0" 2]
    by (simp add: buffered_def r_into_rtranclp)
  also have "?step \<dots> (?s (?r4\<lparr>applied := [e2, e1]\<rparr>) [Locking, Locking] 2)"
    using proc_step.receive [of "?s (?r4\<lparr>applied := [e2, e1]\<rparr>) [Locking, Locking] 1" 2]
    by (simp add: buffered_def r_into_rtranclp numeral_2_eq_2)
  finally show thesis by (rule that) simp_all
qed

text \<open>
  Two goroutines are enough to turn the order round. Two committed entries wait and two goroutines of
  \<open>applyCommittedEntries\<close> have been started, as two replies of followers do: there is a run in which the broker
  receives the second entry before the first.
\<close>

theorem applied_out_of_order:
  assumes "two_pending r e1 e2" and "applyCh r" and "applied r = []"
  shows "\<exists>s. (proc_step 2)\<^sup>*\<^sup>* (boot r) s \<and> take (p_received s) (applied (p_node s)) = [e2, e1] \<and>
    data_entries (lastApplied r) (lastApplied (p_node s)) (log (p_node s)) = [e1, e2]"
proof -
  obtain s where s: "(proc_step 2)\<^sup>*\<^sup>* (boot r) s" "applied (p_node s) = [e2, e1]" "p_received s = 2"
    "lastApplied (p_node s) = lastApplied r + 2" "log (p_node s) = log r"
    by (rule swapped_run [OF assms])
  have "data_entries (lastApplied r) (lastApplied r + 2) (log r) = [e1, e2]"
    using data_entries_step [of "lastApplied r" "lastApplied r" "log r"]
      data_entries_step [of "lastApplied r" "Suc (lastApplied r)" "log r"] assms(1)
    by (simp add: two_pending_def)
  with s have "take (p_received s) (applied (p_node s)) = [e2, e1] \<and>
    data_entries (lastApplied r) (lastApplied (p_node s)) (log (p_node s)) = [e1, e2]" by simp
  with s(1) show ?thesis by blast
qed

text \<open>A leader of two nodes that took two commands and got the follower's answer to each.\<close>

definition apply_disk :: RaftDisk where
  "apply_disk = \<lparr>stateFile = None, logFile = [], stateWritable = True, logIo = RaftLogOk\<rparr>"

definition new_leader_node :: RaftNode where
  "new_leader_node = becomeLeader ((NewRaftNode ''a'' [''a'', ''b''] True ''d'' apply_disk 65)\<lparr>currentTerm := 1\<rparr>)"

definition follower_ok :: AppendEntriesReply where
  "follower_ok = \<lparr>aer_Term = 1, aer_Success = True, aer_ConflictIndex = 0, aer_LastLogIndex = 0\<rparr>"

definition busy_leader :: RaftNode where
  "busy_leader =
     (case go_bind (run_op (OpSubmit ''t'' 0 [1]) new_leader_node) (run_op (OpSubmit ''t'' 0 [2])) of
        Ret r \<Rightarrow> handleAppendReply ''b'' 1 1 follower_ok (handleAppendReply ''b'' 0 1 follower_ok r)
      | _ \<Rightarrow> new_leader_node)"

definition command_entry :: "nat \<Rightarrow> byte list \<Rightarrow> LogEntry" where
  "command_entry i d = \<lparr>le_Term = 1, le_Index = i, le_Type = DATA, le_Topic = ''t'', le_Partition = 0, le_Data = d, le_Config = None\<rparr>"

lemmas leader_eval = NewRaftNode_def loadState_def becomeLeader_def leader_indexes.simps sendHeartbeats_def close_pending_def
  SubmitCommand_def handleAppendReply_def updateCommitIndex_def commit_loop.simps commit_at_def quorum_at_def oldCount_def
  cfg_in_def sentinel_def

lemma busy_leader_fields:
  "applyCh busy_leader" "applied busy_leader = []" "lastApplied busy_leader = 0" "commitIndex busy_leader = 2"
  "log busy_leader = [sentinel, command_entry 1 [1], command_entry 2 [2]]" "durable busy_leader"
  "count_list (goroutines busy_leader) GoApplyCommittedEntries = 2"
  by (simp_all add: busy_leader_def new_leader_node_def apply_disk_def follower_ok_def command_entry_def durable_def leader_eval)

lemma busy_leader_pending: "two_pending busy_leader (command_entry 1 [1]) (command_entry 2 [2])"
  by (simp add: two_pending_def busy_leader_fields is_config_entry_def command_entry_def)

theorem applied_out_of_order_witness:
  "\<exists>s. (proc_step 2)\<^sup>*\<^sup>* (boot busy_leader) s \<and>
     map le_Data (take (p_received s) (applied (p_node s))) = [[2], [1]] \<and>
     map le_Data (data_entries 0 (lastApplied (p_node s)) (log (p_node s))) = [[1], [2]]"
proof -
  obtain s where "(proc_step 2)\<^sup>*\<^sup>* (boot busy_leader) s"
    "take (p_received s) (applied (p_node s)) = [command_entry 2 [2], command_entry 1 [1]]"
    "data_entries 0 (lastApplied (p_node s)) (log (p_node s)) = [command_entry 1 [1], command_entry 2 [2]]"
    using applied_out_of_order [OF busy_leader_pending busy_leader_fields(1,2)] busy_leader_fields(3) by auto
  then show ?thesis by (intro exI [of _ s]) (simp add: command_entry_def)
qed

text \<open>The first applier of the leader takes the first entry, and sends it.\<close>

definition first_turn :: Process where
  "first_turn =
     take_turn 0 ((boot busy_leader)\<lparr>p_node := busy_leader\<lparr>goroutines := remove1 GoApplyCommittedEntries (goroutines busy_leader)\<rparr>,
                                     p_appliers := [Locking]\<rparr>)"

definition first_sent :: Process where
  "first_sent = send_entry 0 (command_entry 1 [1]) first_turn"

lemma first_turn_eq:
  "first_turn = (boot busy_leader)\<lparr>p_node := busy_leader\<lparr>goroutines := remove1 GoApplyCommittedEntries (goroutines busy_leader), lastApplied := 1\<rparr>,
                                   p_appliers := [Sending (command_entry 1 [1])]\<rparr>"
  using lock_and_apply_next [of "busy_leader\<lparr>goroutines := remove1 GoApplyCommittedEntries (goroutines busy_leader)\<rparr>"]
  by (simp add: first_turn_def take_turn_def boot_def busy_leader_fields is_config_entry_def command_entry_def)

lemma first_sent_fields:
  "applied (p_node first_sent) = [command_entry 1 [1]]" "p_appliers first_sent = [Locking]" "lastApplied (p_node first_sent) = 1"
  "log (p_node first_sent) = log busy_leader" "p_stop first_sent = NotStopped" "durable (p_node first_sent)"
  "p_received first_sent = 0"
  using busy_leader_fields by (simp_all add: first_sent_def first_turn_eq send_entry_def boot_def durable_def)

lemma first_turn_reached: "(proc_step 1)\<^sup>*\<^sup>* (boot busy_leader) first_turn"
proof -
  let ?s = "(boot busy_leader)\<lparr>p_node := busy_leader\<lparr>goroutines := remove1 GoApplyCommittedEntries (goroutines busy_leader)\<rparr>,
    p_appliers := [Locking]\<rparr>"
  have "GoApplyCommittedEntries \<in> set (goroutines busy_leader)"
    using count_two [of "goroutines busy_leader" GoApplyCommittedEntries] busy_leader_fields(7) by simp
  then have "(proc_step 1)\<^sup>*\<^sup>* (boot busy_leader) ?s"
    using proc_step.start [of "boot busy_leader" 1] by (simp add: boot_def r_into_rtranclp)
  also have "(proc_step 1)\<^sup>*\<^sup>* \<dots> first_turn"
    unfolding first_turn_def by (rule r_into_rtranclp, rule proc_step.turn) (simp_all add: boot_def)
  finally show ?thesis .
qed

lemma first_sent_reached: "(proc_step 1)\<^sup>*\<^sup>* (boot busy_leader) first_sent"
  unfolding first_sent_def
  by (rule rtranclp.rtrancl_into_rtrancl [OF first_turn_reached proc_step.send])
    (simp_all add: first_turn_eq boot_def buffered_def applyCh_cap_def busy_leader_fields)

theorem single_applier_in_order_witness:
  "applied (p_node first_sent) @ in_flight (p_appliers first_sent) = data_entries 0 1 (log busy_leader)"
  using single_applier_in_order [OF busy_leader_fields(1,2) first_sent_reached]
  by (simp add: first_sent_fields busy_leader_fields node_stopped_def)

theorem applied_exactly_once_witness:
  "mset (applied (p_node first_sent)) + mset (in_flight (p_appliers first_sent)) = mset (data_entries 0 1 (log busy_leader))"
  using applied_exactly_once [OF busy_leader_fields(1,2) first_sent_reached]
  by (simp add: first_sent_fields busy_leader_fields)

section \<open>Stopping\<close>

text \<open>More goroutines are inside their critical sections than the mutex is held for.\<close>

definition exclusion_lost :: "Process \<Rightarrow> bool" where
  "exclusion_lost s \<longleftrightarrow> of_bool (p_locked s) < p_inside s"

definition stuck_full :: "Process \<Rightarrow> bool" where
  "stuck_full s \<longleftrightarrow> node_stopped s \<and> \<not> p_reader s \<and> applyCh_cap \<le> buffered s \<and> of_bool (p_locked s) \<le> p_inside s \<and>
     (p_dead s \<noteq> None \<or> exclusion_lost s \<or> in_flight (p_appliers s) \<noteq> [])"

lemma stuck_full_turn:
  assumes "stuck_full s" and "i < length (p_appliers s)" and "p_appliers s ! i = Locking" and "applyCh (p_node s)"
  shows "stuck_full (take_turn i s)"
proof (cases "lock_and_apply (p_node s)")
  case (Ret y)
  obtain x r where y: "y = (x, r)" by (cases y)
  have r: "applied r = applied (p_node s)"
    using apply_section_result [of "commitIndex (p_node s) - lastApplied (p_node s)" "p_node s" x r] Ret assms(4)
    by (simp add: y lock_and_apply_def)
  have "in_flight ((p_appliers s)[i := Sending e]) \<noteq> []" for e
    using in_flight_update(1) [OF assms(2,3), of e] by (metis add_mset_not_empty mset.simps(1))
  with assms r in_flight_update(3) [OF assms(2,3)] show ?thesis
    by (cases x) (auto simp: stuck_full_def take_turn_def Ret y node_stopped_def buffered_def exclusion_lost_def)
qed (use assms in \<open>simp_all add: take_turn_def stuck_full_def node_stopped_def buffered_def exclusion_lost_def\<close>)

lemma stuck_full_step:
  assumes "proc_step k s s'" and "stuck_full s" and "applyCh (p_node s)"
  shows "stuck_full s'"
  using assms(1)
proof cases
  case (enter op r)
  then show ?thesis using assms(2) run_op_grows [of op "p_node s" r]
    by (auto simp: stuck_full_def node_stopped_def buffered_def exclusion_lost_def grows_def)
next
  case leave
  then show ?thesis using assms(2)
    by (auto simp: stuck_full_def leave_def node_stopped_def buffered_def exclusion_lost_def split: if_splits)
next
  case (turn i)
  then show ?thesis using stuck_full_turn assms(2,3) by simp
next
  case (stop_return i e)
  then show ?thesis using assms(2)
    by (auto simp: stuck_full_def stop_return_def node_stopped_def buffered_def exclusion_lost_def Let_def)
next
  case stop
  then show ?thesis using assms(2)
    by (cases "p_stop s") (auto simp: stuck_full_def node_stopped_def buffered_def exclusion_lost_def)
qed (use assms(2) in \<open>auto simp: stuck_full_def node_stopped_def buffered_def exclusion_lost_def\<close>)

lemma stuck_full_reach:
  "(proc_step k)\<^sup>*\<^sup>* s s' \<Longrightarrow> stuck_full s \<Longrightarrow> accounted L s \<Longrightarrow> stuck_full s' \<and> accounted L s'"
proof (induction rule: rtranclp_induct)
  case (step t u)
  then show ?case using stuck_full_step [of k t u] accounted_step [of k t u L] by (simp add: accounted_def)
qed simp

lemma locked_inside:
  assumes "proc_step k s s'" and "of_bool (p_locked s) \<le> p_inside s"
  shows "of_bool (p_locked s') \<le> p_inside s'"
  using assms(1)
  by cases (use assms(2) in \<open>auto simp: leave_def take_turn_def send_entry_def stop_return_def Let_def split: go.split option.split\<close>)

lemma locked_inside_reach: "(proc_step k)\<^sup>*\<^sup>* (boot r) s \<Longrightarrow> of_bool (p_locked s) \<le> p_inside s"
proof (induction rule: rtranclp_induct)
  case base
  then show ?case by (simp add: boot_def)
next
  case (step s t)
  then show ?case using locked_inside by blast
qed

lemma exclusion_lost_step:
  assumes "proc_step k s s'" and "exclusion_lost s"
  shows "p_dead s' \<noteq> None \<or> exclusion_lost s'"
  using assms(1)
  by cases (use assms(2) in \<open>auto simp: exclusion_lost_def leave_def take_turn_def send_entry_def stop_return_def Let_def
      split: go.split option.split if_splits\<close>)

lemma dead_stays: "proc_step k s s' \<Longrightarrow> p_dead s = None"
  by (cases rule: proc_step.cases) simp_all

lemma exclusion_lost_reach:
  "(proc_step k)\<^sup>*\<^sup>* s t \<Longrightarrow> p_dead s \<noteq> None \<or> exclusion_lost s \<Longrightarrow> p_dead t \<noteq> None \<or> exclusion_lost t"
  by (induction rule: rtranclp_induct) (auto dest: dead_stays exclusion_lost_step)

text \<open>
  C25. The way out through the stop channel is fatal. An applier of a stopped node that waits with an entry may take the stop channel instead of sending (it may still send while
  the channel has room). The mutex was given up before the select, so the deferred \<open>Unlock\<close> is a crash, or takes the mutex from the goroutine that holds it: from then
  on, until the process crashes, more goroutines are inside than the mutex is held for, and the process never gets to a state in which all of them have left.
\<close>

theorem stop_return_fatal:
  assumes "(proc_step k)\<^sup>*\<^sup>* (boot r) s" and "i < length (p_appliers s)" and "p_appliers s ! i = Sending e"
    and "node_stopped s" and "p_dead s = None" and "(proc_step k)\<^sup>*\<^sup>* (stop_return i s) t"
  shows "proc_step k s (stop_return i s) \<and> (p_dead t \<noteq> None \<or> exclusion_lost t) \<and> (p_inside t = 0 \<longrightarrow> p_dead t \<noteq> None)"
proof -
  have "p_dead (stop_return i s) \<noteq> None \<or> exclusion_lost (stop_return i s)"
    using locked_inside_reach [OF assms(1)] by (auto simp: stop_return_def exclusion_lost_def Let_def)
  from exclusion_lost_reach [OF assms(6) this] have "p_dead t \<noteq> None \<or> exclusion_lost t" .
  moreover have "proc_step k s (stop_return i s)" by (rule proc_step.stop_return) fact+
  ultimately show ?thesis by (auto simp: exclusion_lost_def)
qed

text \<open>With the channel full and the reader gone there is no other way: no entry is sent any more.\<close>

lemma full_channel_fatal:
  assumes "(proc_step k)\<^sup>*\<^sup>* (boot r) s" and "applyCh r" and "applied r = []"
    and "node_stopped s" and "\<not> p_reader s" and "applyCh_cap \<le> buffered s" and "in_flight (p_appliers s) \<noteq> []"
    and "(proc_step k)\<^sup>*\<^sup>* s t"
  shows "\<not> (p_dead t = None \<and> p_inside t = 0 \<and> in_flight (p_appliers t) = [])"
proof -
  have "stuck_full s" using assms locked_inside_reach [OF assms(1)] by (simp add: stuck_full_def)
  moreover have "accounted (lastApplied r) s" by (rule accounted_reach [OF assms(1) accounted_boot]) fact+
  ultimately show ?thesis
    using stuck_full_reach [OF assms(8)] by (auto simp: stuck_full_def exclusion_lost_def)
qed

definition stopped_sender :: Process where
  "stopped_sender = first_turn\<lparr>p_stop := NodeStopped\<rparr>"

lemma stopped_sender_reached: "(proc_step 1)\<^sup>*\<^sup>* (boot busy_leader) stopped_sender"
proof -
  have "(proc_step 1)\<^sup>*\<^sup>* first_turn (first_turn\<lparr>p_stop := BrokerStopped\<rparr>)"
    using proc_step.stop [of first_turn 1] by (simp add: first_turn_eq boot_def r_into_rtranclp)
  also have "(proc_step 1)\<^sup>*\<^sup>* \<dots> stopped_sender"
    using proc_step.stop [of "first_turn\<lparr>p_stop := BrokerStopped\<rparr>" 1]
    by (simp add: stopped_sender_def first_turn_eq boot_def r_into_rtranclp)
  finally show ?thesis by (rule rtranclp_trans [OF first_turn_reached])
qed

theorem stop_return_fatal_witness:
  "proc_step 1 stopped_sender (stop_return 0 stopped_sender) \<and> p_dead (stop_return 0 stopped_sender) = Some UnlockOfUnlocked"
proof -
  have "proc_step 1 stopped_sender (stop_return 0 stopped_sender)"
    using stop_return_fatal [OF stopped_sender_reached, of 0 "command_entry 1 [1]" "stop_return 0 stopped_sender"]
    by (simp add: stopped_sender_def first_turn_eq boot_def node_stopped_def)
  then show ?thesis by (simp add: stopped_sender_def stop_return_def first_turn_eq boot_def)
qed

section \<open>Restart\<close>

lemma restart_applied:
  "durable r \<Longrightarrow> lastApplied (restart addrs tid (saveState r)) = lastApplied r"
  "applied (restart addrs tid r) = []" "applyCh (restart addrs tid r) = applyCh r"
proof -
  have a: "applied (add_peers as q) = applied q" for as q by (induction as q rule: add_peers.induct) simp_all
  have l: "applied (loadLogEntries n q) = applied q" "applyCh (loadLogEntries n q) = applyCh q" for n q
    by (simp_all add: loadLogEntries_def)
  show "durable r \<Longrightarrow> lastApplied (restart addrs tid (saveState r)) = lastApplied r"
    by (simp add: restart_def NewRaftNode_def loadState_def stateFile_saveState) (simp add: durable_def)
  show "applied (restart addrs tid r) = []" "applyCh (restart addrs tid r) = applyCh r"
    by (simp_all add: restart_def NewRaftNode_def loadState_def a l split: option.split)
qed

text \<open>
  C26. \<open>lastApplied\<close> is saved when an entry has been taken for the channel, not when the broker has it. What was sent and
  not received when the process ends, and what appliers held, lies at or below the saved \<open>lastApplied\<close>; the next
  process, in every run, sends only entries behind it. Those entries never reach the broker's log.
\<close>

theorem unread_entries_skipped:
  assumes "applyCh r" and "applied r = []" and "(proc_step k)\<^sup>*\<^sup>* (boot r) s" and "durable (p_node s)"
    and "(proc_step k')\<^sup>*\<^sup>* (boot (restart addrs tid (saveState (p_node s)))) t"
  shows "mset (drop (p_received s) (applied (p_node s))) + mset (in_flight (p_appliers s))
      \<subseteq># mset (data_entries (lastApplied r) (lastApplied (p_node s)) (log (p_node s))) \<and>
    mset (applied (p_node t)) \<subseteq># mset (data_entries (lastApplied (p_node s)) (lastApplied (p_node t)) (log (p_node t)))"
proof -
  let ?r = "restart addrs tid (saveState (p_node s))"
  have s: "accounted (lastApplied r) s" by (rule accounted_reach [OF assms(3) accounted_boot]) fact+
  then have "accounted (lastApplied ?r) t"
    by (intro accounted_reach [OF assms(5) accounted_boot]) (simp_all add: restart_applied accounted_def)
  then have "accounted (lastApplied (p_node s)) t" using restart_applied(1) [OF assms(4)] by simp
  then have "mset (applied (p_node t)) \<subseteq># mset (data_entries (lastApplied (p_node s)) (lastApplied (p_node t)) (log (p_node t)))"
    by (auto simp: accounted_def intro: subset_mset.order_trans [OF mset_subset_eq_add_left])
  moreover have "mset (drop (p_received s) (applied (p_node s))) + mset (in_flight (p_appliers s)) \<subseteq>#
      mset (applied (p_node s)) + mset (in_flight (p_appliers s))"
    by (rule subset_mset.add_right_mono) (metis append_take_drop_id mset_append mset_subset_eq_add_right)
  then have "mset (drop (p_received s) (applied (p_node s))) + mset (in_flight (p_appliers s)) \<subseteq>#
      mset (data_entries (lastApplied r) (lastApplied (p_node s)) (log (p_node s)))"
    by (rule subset_mset.order_trans) (use s in \<open>simp add: accounted_def\<close>)
  ultimately show ?thesis by simp
qed

theorem unread_entries_skipped_witness:
  "command_entry 1 [1] \<in># mset (drop (p_received first_sent) (applied (p_node first_sent))) \<and>
   mset (applied (p_node (boot (restart [''a'', ''b''] 65 (saveState (p_node first_sent))))))
     \<subseteq># mset (data_entries 1 (lastApplied (restart [''a'', ''b''] 65 (saveState (p_node first_sent))))
          (log (restart [''a'', ''b''] 65 (saveState (p_node first_sent)))))"
  using unread_entries_skipped [OF busy_leader_fields(1,2) first_sent_reached first_sent_fields(6),
      of 1 "[''a'', ''b'']" 65 "boot (restart [''a'', ''b''] 65 (saveState (p_node first_sent)))"]
  by (simp add: first_sent_fields boot_def)

section \<open>Followers\<close>

text \<open>The steps of a process whose node does not lead: those above, every operation that returns, also one that replaces committed entries, and \<open>InstallSnapshot\<close>.\<close>

definition entered :: "RaftNode \<Rightarrow> Process \<Rightarrow> Process" where
  "entered r s = s\<lparr>p_node := r, p_locked := True, p_inside := p_inside s + 1\<rparr>"

definition follower_step :: "nat \<Rightarrow> Process \<Rightarrow> Process \<Rightarrow> bool" where
  "follower_step k s s' \<longleftrightarrow> state (p_node s') \<noteq> Leader \<and>
     (proc_step k s s' \<or>
      p_dead s = None \<and> \<not> p_locked s \<and>
        ((\<exists>op r. run_op op (p_node s) = Ret r \<and> s' = entered r s) \<or> (\<exists>args. s' = entered (snd (InstallSnapshot args (p_node s))) s)))"

lemma run_op_follower:
  assumes "run_op op r = Ret r'" and "state r \<noteq> Leader" and "state r' \<noteq> Leader"
  shows "commitIndex r' = commitIndex r \<and> lastApplied r' = lastApplied r \<and> applied r' = applied r"
proof -
  have e: "state (becomeLeader q) = Leader" for q
    by (simp add: becomeLeader_def sendHeartbeats_def close_pending_def)
  have el: "commitIndex (startElection r) = commitIndex r \<and> lastApplied (startElection r) = lastApplied r \<and> applied (startElection r) = applied r"
    by (simp add: startElection_def becomeLeader_def sendHeartbeats_def close_pending_def Let_def)
  show ?thesis
  proof (cases op)
    case (OpVoteReply addr t reply)
    then show ?thesis using assms
      by (auto simp: handleVoteReply_def becomeFollower_def close_pending_def e Let_def split: if_splits option.splits)
  qed (use assms el in \<open>auto simp: SubmitCommand_def handleAppendReply_def onHeartbeatTimer_def checkISR_def RequestVote_def onElectionTimer_def awaitVotes_def
      changeConfig_def appendStableConfig_def AppendEntries_def sendAppendEntries_plan_def applyCommittedEntries_def becomeFollower_def close_pending_def Let_def split: if_splits\<close>)
qed

lemma InstallSnapshot_follower:
  "commitIndex r \<le> lastApplied r \<Longrightarrow> commitIndex (snd (InstallSnapshot args r)) \<le> lastApplied (snd (InstallSnapshot args r))"
  "applied (snd (InstallSnapshot args r)) = applied r"
  by (simp_all add: InstallSnapshot_def becomeFollower_def close_pending_def Let_def)

definition idle :: "Process \<Rightarrow> bool" where
  "idle s \<longleftrightarrow> state (p_node s) \<noteq> Leader \<and> commitIndex (p_node s) \<le> lastApplied (p_node s) \<and> applied (p_node s) = [] \<and>
     p_received s = 0 \<and> in_flight (p_appliers s) = []"

lemma idle_Sending: "idle s \<Longrightarrow> i < length (p_appliers s) \<Longrightarrow> p_appliers s ! i \<noteq> Sending e"
  using in_flight_split [of i "p_appliers s"] by (auto simp: idle_def)

lemma idle_op:
  assumes "run_op op (p_node s) = Ret r" and "state r \<noteq> Leader" and "idle s"
  shows "idle (entered r s)"
  using run_op_follower [OF assms(1)] assms(2,3) by (simp add: idle_def entered_def)

lemma idle_proc_step:
  assumes "proc_step k s s'" and "state (p_node s') \<noteq> Leader" and "idle s"
  shows "idle s'"
  using assms(1)
proof cases
  case (enter op r)
  with idle_op [of op s r] assms(2,3) show ?thesis by (simp add: entered_def)
next
  case (turn i)
  have "lock_and_apply (p_node s) = Ret (None, p_node s)" using assms(3) by (simp add: lock_and_apply_def idle_def)
  with turn assms(3) in_flight_update(3) [of i "p_appliers s"] show ?thesis by (simp add: take_turn_def idle_def)
qed (use assms(3) idle_Sending [OF assms(3)] in \<open>auto simp: idle_def leave_def buffered_def\<close>)

lemma idle_step:
  assumes "follower_step k s s'" and "idle s"
  shows "idle s'"
proof -
  have n: "state (p_node s') \<noteq> Leader" using assms(1) by (simp add: follower_step_def)
  consider "proc_step k s s'" | op r where "run_op op (p_node s) = Ret r" "s' = entered r s"
    | args where "s' = entered (snd (InstallSnapshot args (p_node s))) s"
    using assms(1) by (auto simp: follower_step_def)
  then show ?thesis
  proof cases
    case 1
    then show ?thesis using idle_proc_step n assms(2) by blast
  next
    case (2 op r)
    then show ?thesis using idle_op [of op s r] n assms(2) by (simp add: entered_def)
  next
    case (3 args)
    then show ?thesis using InstallSnapshot_follower [where r = "p_node s" and args = args] n assms(2) by (simp add: idle_def entered_def)
  qed
qed

lemma idle_reach: "(follower_step k)\<^sup>*\<^sup>* s s' \<Longrightarrow> idle s \<Longrightarrow> idle s'"
  by (induction rule: rtranclp_induct) (auto intro: idle_step)

text \<open>
  C24. A node that does not lead hands nothing to its broker. In every interleaving of its operations, among them those that replace entries or
  install a snapshot, the commit index never gets past \<open>lastApplied\<close>: a request of a leader that says more is committed than the node knows of, and is
  consistent with its log, blocks on the node's own mutex and never returns, and a snapshot moves both indexes at once. So the broker of a node that
  has never led has no messages, while the node may have them in its log.
\<close>

theorem follower_never_applies:
  assumes "state r \<noteq> Leader" and "applied r = []" and "commitIndex r \<le> lastApplied r" and "(follower_step k)\<^sup>*\<^sup>* (boot r) s"
  shows "applied (p_node s) = [] \<and> p_received s = 0 \<and> commitIndex (p_node s) \<le> lastApplied (p_node s) \<and>
    (\<forall>args. currentTerm (p_node s) \<le> ae_Term args \<and> ae_consistent args (p_node s) \<and> commitIndex (p_node s) < ae_LeaderCommit args \<longrightarrow>
       AppendEntries args (p_node s) = Deadlock)"
proof -
  have "idle (boot r)" using assms(1-3) by (simp add: idle_def boot_def)
  then have "idle s" by (rule idle_reach [OF assms(4)])
  then show ?thesis using AppendEntries_blocks by (auto simp: idle_def)
qed

definition new_follower :: RaftNode where
  "new_follower = NewRaftNode ''b'' [''a'', ''b''] True ''d'' apply_disk 65"

definition leader_request :: "nat \<Rightarrow> AppendEntriesArgs" where
  "leader_request c = \<lparr>ae_Term = 1, ae_LeaderId = ''a'', ae_PrevLogIndex = 0, ae_PrevLogTerm = 0, ae_Entries = [command_entry 1 [1]], ae_LeaderCommit = c\<rparr>"

definition replicated :: Process where
  "replicated = (case run_op (OpAppend (leader_request 0)) new_follower of
     Ret r \<Rightarrow> (boot new_follower)\<lparr>p_node := r, p_locked := True, p_inside := 1\<rparr> | _ \<Rightarrow> boot new_follower)"

theorem follower_never_applies_witness:
  "log (p_node replicated) = [sentinel, command_entry 1 [1]] \<and> applied (p_node replicated) = [] \<and>
   AppendEntries (leader_request 1) (p_node replicated) = Deadlock"
proof -
  have n: "state new_follower = Follower" "applied new_follower = []" "commitIndex new_follower = 0" "lastApplied new_follower = 0"
    "log new_follower = [sentinel]" "currentTerm new_follower = 0"
    by (simp_all add: new_follower_def apply_disk_def leader_eval)
  obtain reply r where a: "AppendEntries (leader_request 0) new_follower = Ret (reply, r)" "log r = [sentinel, command_entry 1 [1]]"
      "currentTerm r = 1" "state r = Follower" "commitIndex r = 0"
    by (auto simp: AppendEntries_def leader_request_def n Let_def becomeFollower_def close_pending_def)
  then have e: "replicated = (boot new_follower)\<lparr>p_node := r, p_locked := True, p_inside := 1\<rparr>" by (simp add: replicated_def)
  have "proc_step 1 (boot new_follower) replicated"
    using proc_step.enter [of "boot new_follower" "OpAppend (leader_request 0)" r 1] a n
    by (simp add: e boot_def keeps_committed_def sentinel_def)
  then have "(follower_step 1)\<^sup>*\<^sup>* (boot new_follower) replicated" using a by (intro r_into_rtranclp) (simp add: follower_step_def e)
  from follower_never_applies [OF _ _ _ this] have t: "applied (p_node replicated) = []"
      "\<forall>args. currentTerm r \<le> ae_Term args \<and> ae_consistent args r \<and> 0 < ae_LeaderCommit args \<longrightarrow> AppendEntries args r = Deadlock"
    by (simp_all add: n e a)
  have "AppendEntries (leader_request 1) r = Deadlock" using t(2) a by (simp add: leader_request_def ae_consistent_def)
  with t(1) a show ?thesis by (simp add: e)
qed

end
