(* ===== verification/Storage.thy ===== *)
theory Storage
  imports Go_Prelude
begin

text \<open>
  The commit log and the sparse index of a partition, \<open>src/cluster/go/broker/storage/bridge_go.go\<close>. A log
  is a directory of segment files; a file that is open for appending is an inode, so that removing its name
  does not close it. Shown: the header bytes, reading back what was appended in the first segment, what goes
  wrong in the later ones, what reopening finds, batches against single appends, and the index.
\<close>

section \<open>Data\<close>

record CommitLog =
  dir :: "(int, nat) gomap"
  inodes :: "byte list list"
  segments :: "(int, nat) gomap"
  lastOffset :: int
  batchBuffer :: "byte list list"
  batchSize :: int
  flushCh :: bool

text \<open>\<open>dir\<close> maps the number in \<open>segment_%d.log\<close> to an inode. The outcome of the system calls of one append:
  \<open>WriteFails n\<close> has written \<open>n\<close> bytes before the error.\<close>

datatype io = IoOk | OpenFails | WriteFails nat

datatype io_error = IoErr | NotExist | EOF

definition segmentBytes :: int where "segmentBytes = 1024 * 1024"

definition headerSize :: nat where "headerSize = 20"

section \<open>The commit log\<close>

text \<open>\<open>byte((v >> (8*(n-1) - i*8)) & 0xFF)\<close> for \<open>i < n\<close>: the loops that build the header.\<close>

definition shift_bytes :: "nat \<Rightarrow> int \<Rightarrow> byte list" where
  "shift_bytes n v = map (\<lambda>i. of_int (v div 2 ^ (8 * (n - 1 - i)) mod 256)) [0..<n]"

definition header :: "int \<Rightarrow> int \<Rightarrow> nat \<Rightarrow> byte list" where
  "header offset timestamp n = shift_bytes 8 offset @ shift_bytes 8 timestamp @ shift_bytes 4 (int n)"

definition segKey :: "int \<Rightarrow> int" where
  "segKey offset = go_div (go_div offset 1024) 1024"

text \<open>\<open>cl.segments[segKey]\<close>, or \<open>os.OpenFile\<close> with \<open>O_CREATE|O_APPEND\<close>.\<close>

definition open_segment :: "int \<Rightarrow> CommitLog \<Rightarrow> nat \<times> CommitLog" where
  "open_segment k cl =
     (case map_of (segments cl) k of
        Some i \<Rightarrow> (i, cl)
      | None \<Rightarrow>
          (case map_of (dir cl) k of
             Some i \<Rightarrow> (i, cl\<lparr>segments := put k i (segments cl)\<rparr>)
           | None \<Rightarrow> let i = length (inodes cl)
                     in (i, cl\<lparr>inodes := inodes cl @ [[]], dir := put k i (dir cl), segments := put k i (segments cl)\<rparr>)))"

definition write_inode :: "nat \<Rightarrow> byte list \<Rightarrow> CommitLog \<Rightarrow> CommitLog" where
  "write_inode i bs cl = cl\<lparr>inodes := (inodes cl)[i := inodes cl ! i @ bs]\<rparr>"

definition Append :: "io \<Rightarrow> time \<Rightarrow> byte list \<Rightarrow> CommitLog \<Rightarrow> (io_error + int) \<times> CommitLog" where
  "Append io now data cl =
     (let offset = lastOffset cl;
          fullData = header offset (UnixNano now) (length data) @ data;
          k = segKey offset
      in if io = OpenFails \<and> \<not> has (segments cl) k then (Inl IoErr, cl)
         else let (i, cl1) = open_segment k cl
              in case io of
                   WriteFails n \<Rightarrow> (Inl IoErr, write_inode i (take n fullData) cl1)
                 | _ \<Rightarrow> (Inr offset, (write_inode i fullData cl1)\<lparr>lastOffset := lastOffset cl1 + int (length fullData)\<rparr>))"

text \<open>\<open>AppendAsync\<close> and the flush of a batch; \<open>env i\<close> is the outcome and the clock reading of entry \<open>i\<close>.\<close>

definition AppendAsync :: "byte list \<Rightarrow> CommitLog \<Rightarrow> CommitLog" where
  "AppendAsync data cl =
     (let b = batchBuffer cl @ [data]
      in cl\<lparr>batchBuffer := b, flushCh := (flushCh cl \<or> batchSize cl \<le> int (length b))\<rparr>)"

fun flush_loop :: "(nat \<Rightarrow> io \<times> time) \<Rightarrow> nat \<Rightarrow> byte list list \<Rightarrow> CommitLog \<Rightarrow> CommitLog" where
  "flush_loop env i [] cl = cl"
| "flush_loop env i (data # rest) cl =
     (let offset = lastOffset cl;
          fullData = header offset (UnixNano (snd (env i))) (length data) @ data;
          k = segKey offset
      in flush_loop env (i + 1) rest
           (if fst (env i) = OpenFails \<and> \<not> has (segments cl) k then cl
            else let (ino, cl1) = open_segment k cl
                 in case fst (env i) of
                      WriteFails n \<Rightarrow> write_inode ino (take n fullData) cl1
                    | _ \<Rightarrow> (write_inode ino fullData cl1)\<lparr>lastOffset := lastOffset cl1 + int (length fullData)\<rparr>))"

definition batchFlush :: "(nat \<Rightarrow> io \<times> time) \<Rightarrow> CommitLog \<Rightarrow> CommitLog" where
  "batchFlush env cl =
     (if batchBuffer cl = [] then cl
      else let batch = batchBuffer cl; cl1 = cl\<lparr>batchBuffer := []\<rparr>
           in if length batch = 1 then snd (Append (fst (env 0)) (snd (env 0)) (batch ! 0) cl1)
              else flush_loop env 0 batch cl1)"

definition SetBatchConfig :: "int \<Rightarrow> CommitLog \<Rightarrow> CommitLog" where
  "SetBatchConfig sz cl = cl\<lparr>batchSize := sz\<rparr>"

text \<open>\<open>OpenCommitLog\<close>: the offset is the size of the largest segment file.\<close>

definition OpenCommitLog :: "(int, nat) gomap \<Rightarrow> byte list list \<Rightarrow> CommitLog" where
  "OpenCommitLog d inos =
     \<lparr>dir = d, inodes = inos, segments = [],
      lastOffset = foldl (\<lambda>last (k, i). let segOffset = int (length (inos ! i)) in if last < segOffset then segOffset else last) 0 d,
      batchBuffer = [], batchSize = 100, flushCh = False\<rparr>"

text \<open>\<open>Read\<close>: a short read leaves the rest of the buffer zero, no byte at all is \<open>io.EOF\<close>.\<close>

definition Read :: "int \<Rightarrow> nat \<Rightarrow> CommitLog \<Rightarrow> io_error + byte list" where
  "Read offset sz cl =
     (case map_of (dir cl) (segKey offset) of
        None \<Rightarrow> Inl NotExist
      | Some i \<Rightarrow>
          let seekOffset = go_mod offset segmentBytes + int headerSize;
              bytes = take sz (drop (nat seekOffset) (inodes cl ! i))
          in if 0 < sz \<and> bytes = [] then Inl EOF
             else Inr (bytes @ replicate (sz - length bytes) 0))"

definition GetOffset :: "CommitLog \<Rightarrow> int" where
  "GetOffset cl = lastOffset cl"

text \<open>\<open>CleanupOldSegments\<close> removes names, whatever is open; \<open>mtime\<close> is the modification time of a segment.\<close>

fun cleanup_loop :: "int \<Rightarrow> int \<Rightarrow> int \<Rightarrow> (int \<Rightarrow> time) \<Rightarrow> byte list list \<Rightarrow> (int \<times> nat) list \<Rightarrow> nat \<times> (int \<times> nat) list" where
  "cleanup_loop now retentionMs retentionBytes mtime inos [] = (0, [])"
| "cleanup_loop now retentionMs retentionBytes mtime inos ((k, i) # rest) =
     (let (count, kept) = cleanup_loop now retentionMs retentionBytes mtime inos rest
      in if 0 < retentionMs \<and> go_div retentionMs 1000 < now - Unix (mtime k) then (count + 1, kept)
         else if 0 < retentionBytes \<and> retentionBytes < int (length (inos ! i)) then (count + 1, kept)
         else (count, (k, i) # kept))"

definition CleanupOldSegments :: "time \<Rightarrow> int \<Rightarrow> int \<Rightarrow> (int \<Rightarrow> time) \<Rightarrow> CommitLog \<Rightarrow> nat \<times> CommitLog" where
  "CleanupOldSegments now retentionMs retentionBytes mtime cl =
     (let (count, kept) = cleanup_loop (Unix now) retentionMs retentionBytes mtime (inodes cl) (dir cl)
      in (count, cl\<lparr>dir := kept\<rparr>))"

section \<open>The sparse index\<close>

record IndexEntry =
  ie_Offset :: int
  ie_Size :: int
  ie_Timestamp :: int

type_synonym SparseIndex = "(int, IndexEntry) gomap"

definition OpenSparseIndex :: SparseIndex where "OpenSparseIndex = []"

definition idx_Put :: "int \<Rightarrow> int \<Rightarrow> int \<Rightarrow> SparseIndex \<Rightarrow> SparseIndex" where
  "idx_Put offset sz timestamp idx = put offset \<lparr>ie_Offset = offset, ie_Size = sz, ie_Timestamp = timestamp\<rparr> idx"

definition idx_Get :: "int \<Rightarrow> SparseIndex \<Rightarrow> IndexEntry option" where
  "idx_Get offset idx = map_of idx offset"

definition PutBatch :: "IndexEntry list \<Rightarrow> SparseIndex \<Rightarrow> SparseIndex" where
  "PutBatch es idx = fold (\<lambda>e. put (ie_Offset e) e) es idx"

fun lookup_loop :: "int \<Rightarrow> IndexEntry option \<Rightarrow> (int \<times> IndexEntry) list \<Rightarrow> IndexEntry option" where
  "lookup_loop ts best [] = best"
| "lookup_loop ts best ((k, e) # es) =
     lookup_loop ts
       (if ie_Timestamp e \<le> ts
        then (case best of None \<Rightarrow> Some e | Some b \<Rightarrow> if ie_Timestamp b < ie_Timestamp e then Some e else best)
        else best) es"

type_synonym idx_order = "(int \<times> IndexEntry) list \<Rightarrow> (int \<times> IndexEntry) list"

definition Lookup :: "idx_order \<Rightarrow> int \<Rightarrow> SparseIndex \<Rightarrow> IndexEntry option" where
  "Lookup ord timestamp idx = lookup_loop timestamp None (ord idx)"

definition GetLastOffset :: "idx_order \<Rightarrow> SparseIndex \<Rightarrow> int" where
  "GetLastOffset ord idx = foldl (\<lambda>maxOffset (offset, e). if maxOffset < offset then offset else maxOffset) 0 (ord idx)"

definition GetEntriesAfter :: "idx_order \<Rightarrow> int \<Rightarrow> SparseIndex \<Rightarrow> IndexEntry list" where
  "GetEntriesAfter ord offset idx = filter (\<lambda>e. offset < ie_Offset e) (map snd (ord idx))"

section \<open>Header bytes\<close>

lemma byte_mod: "(of_int (x mod 256) :: byte) = of_int x"
proof -
  have "(256::byte) = 0" by simp
  then have "of_int (256 * (x div 256)) = (0::byte)" by (simp only: of_int_mult of_int_numeral mult_zero_left)
  then show ?thesis by (metis add.left_neutral mult_div_mod_eq of_int_add)
qed

lemma byte_mod_dvd: "256 dvd m \<Longrightarrow> (of_int (x mod m) :: byte) = of_int x"
  by (metis byte_mod mod_mod_cancel)

lemma shift_bytes_Suc: "shift_bytes (Suc n) v = shift_bytes n (v div 256) @ [of_int v]"
proof -
  have "v div 2 ^ (8 * (n - i)) = (v div 256) div 2 ^ (8 * (n - Suc i))" if "i < n" for i
  proof -
    have "8 * (n - i) = 8 + 8 * (n - Suc i)" using that by simp
    then have "(2::int) ^ (8 * (n - i)) = 256 * 2 ^ (8 * (n - Suc i))" by (simp add: power_add)
    then show ?thesis by (simp add: div_mult2_eq zdiv_zmult2_eq)
  qed
  then show ?thesis by (simp add: shift_bytes_def byte_mod)
qed

lemma shift_bytes_put_be: "shift_bytes n v = put_be n (to_u (8 * n) v)"
proof (induction n arbitrary: v)
  case 0
  then show ?case by (simp add: shift_bytes_def)
next
  case (Suc n)
  have p: "(2::int) ^ (8 * Suc n) = 256 * 2 ^ (8 * n)" by (simp add: power_add)
  have "to_u (8 * Suc n) v div 256 = to_u (8 * n) (v div 256)"
    unfolding to_u_def p by (simp add: nat_div_distrib' [symmetric] zmod_zmult2_eq)
  moreover have "(of_nat (to_u (8 * Suc n) v) :: byte) = of_int v"
    unfolding to_u_def p by (simp add: byte_mod_dvd)
  ultimately show ?case by (simp add: shift_bytes_Suc Suc)
qed

lemma length_header [simp]: "length (header offset ts n) = 20"
  by (simp add: header_def shift_bytes_put_be)

text \<open>
  The header loops write big-endian integers: the offset and the time stamp as 64 bits and the length as 32
  bits, so the three fields of any entry that fits are read back from the first 20 bytes.
\<close>

theorem header_roundtrip:
  assumes "int64_range offset" and "int64_range ts" and "n < 2 ^ 32"
  shows "to_s 64 (get_be (take 8 (header offset ts n @ data))) = offset \<and>
    to_s 64 (get_be (take 8 (drop 8 (header offset ts n @ data)))) = ts \<and>
    get_be (take 4 (drop 16 (header offset ts n @ data))) = n"
proof -
  have h: "header offset ts n = put_be 8 (to_u 64 offset) @ put_be 8 (to_u 64 ts) @ put_be 4 n"
    using assms(3) by (simp add: header_def shift_bytes_put_be to_u_def)
  show ?thesis
    using be_int64.dec_enc [OF assms(1)] be_int64.dec_enc [OF assms(2)] be32.dec_enc [OF assms(3)] by (simp add: h)
qed

theorem header_roundtrip_witness:
  "get_be (take 4 (drop 16 (header 40 5 7 @ [1, 2]))) = 7"
  using header_roundtrip [of 40 5 7 "[1, 2]"] by (simp add: int64_range_def)

section \<open>Files and offsets\<close>

definition seg_file :: "int \<Rightarrow> CommitLog \<Rightarrow> byte list" where
  "seg_file k cl = (case map_of (dir cl) k of None \<Rightarrow> [] | Some i \<Rightarrow> inodes cl ! i)"

definition total_bytes :: "(int, nat) gomap \<Rightarrow> byte list list \<Rightarrow> nat" where
  "total_bytes d inos = sum_list (map (\<lambda>(k, i). length (inos ! i)) d)"

text \<open>What appends keep: names and inodes correspond one to one, every open segment has its name, no file is
  empty, and the offset is the number of bytes in all files.\<close>

definition log_inv :: "CommitLog \<Rightarrow> bool" where
  "log_inv cl \<longleftrightarrow> gm_ok (dir cl) \<and> distinct (map snd (dir cl)) \<and>
     (\<forall>(k, i) \<in> set (dir cl). i < length (inodes cl) \<and> inodes cl ! i \<noteq> []) \<and>
     (\<forall>k i. map_of (segments cl) k = Some i \<longrightarrow> map_of (dir cl) k = Some i) \<and>
     lastOffset cl = int (total_bytes (dir cl) (inodes cl))"

lemma total_update:
  assumes "distinct (map snd d)" and "\<forall>(k, i) \<in> set d. i < length inos" and "i < length inos"
  shows "total_bytes d (inos[i := inos ! i @ bs]) = total_bytes d inos + (if i \<in> snd ` set d then length bs else 0)"
  using assms
proof (induction d)
  case (Cons a d)
  then show ?case by (cases a) (auto simp: total_bytes_def nth_list_update)
qed (simp add: total_bytes_def)

lemma total_append: "\<forall>(k, i) \<in> set d. i < length inos \<Longrightarrow> total_bytes d (inos @ xs) = total_bytes d inos"
  unfolding total_bytes_def by (intro arg_cong [where f = sum_list] map_cong) (auto simp: nth_append)

lemma put_new: "map_of m k = None \<Longrightarrow> put k v m = m @ [(k, v)]"
  by (induction m) (auto split: if_splits)

lemma distinct_snd_key: "distinct (map snd d) \<Longrightarrow> (k, i) \<in> set d \<Longrightarrow> (k', i) \<in> set d \<Longrightarrow> k = k'"
  by (induction d) force+

text \<open>\<open>open_segment\<close> on a log in good order: the segment has a name and a handle, nothing else changes.\<close>

lemma open_segment_facts:
  assumes "log_inv cl" and "open_segment k cl = (i, cl1)"
  shows "map_of (dir cl1) k = Some i" "i < length (inodes cl1)" "\<And>k'. seg_file k' cl1 = seg_file k' cl"
    "gm_ok (dir cl1)" "distinct (map snd (dir cl1))" "\<forall>(k, i) \<in> set (dir cl1). i < length (inodes cl1)"
    "\<And>k' i'. k' \<noteq> k \<Longrightarrow> (k', i') \<in> set (dir cl1) \<Longrightarrow> inodes cl1 ! i' \<noteq> []"
    "\<And>k' i'. map_of (segments cl1) k' = Some i' \<Longrightarrow> map_of (dir cl1) k' = Some i'"
    "lastOffset cl1 = int (total_bytes (dir cl1) (inodes cl1))" "lastOffset cl1 = lastOffset cl"
proof -
  note inv = assms(1) [unfolded log_inv_def]
  consider (old) "dir cl1 = dir cl" "inodes cl1 = inodes cl" "lastOffset cl1 = lastOffset cl" "map_of (dir cl) k = Some i"
      "segments cl1 = segments cl \<or> segments cl1 = put k i (segments cl)"
    | (new) "map_of (dir cl) k = None" "i = length (inodes cl)" "dir cl1 = dir cl @ [(k, i)]"
      "inodes cl1 = inodes cl @ [[]]" "segments cl1 = put k i (segments cl)" "lastOffset cl1 = lastOffset cl"
    using assms(2) inv by (auto simp: open_segment_def Let_def put_new split: option.splits)
  note cases = this
  show "map_of (dir cl1) k = Some i" by (rule cases) (auto simp: map_add_def)
  show "i < length (inodes cl1)" by (rule cases) (use inv in \<open>auto dest: map_of_SomeD\<close>)
  show "seg_file k' cl1 = seg_file k' cl" for k'
    by (rule cases) (use inv in \<open>auto simp: seg_file_def map_add_def nth_append split: option.splits dest: map_of_SomeD\<close>)
  show "gm_ok (dir cl1)" by (rule cases) (use inv in \<open>auto simp: map_of_eq_None_iff\<close>)
  show "distinct (map snd (dir cl1))" by (rule cases) (use inv in auto)
  show "\<forall>(k, i) \<in> set (dir cl1). i < length (inodes cl1)" by (rule cases) (use inv in auto)
  show "inodes cl1 ! i' \<noteq> []" if "k' \<noteq> k" "(k', i') \<in> set (dir cl1)" for k' i'
    by (rule cases) (use inv that in \<open>auto simp: nth_append\<close>)
  show "map_of (dir cl1) k' = Some i'" if "map_of (segments cl1) k' = Some i'" for k' i'
  proof -
    have seg: "\<And>k i. map_of (segments cl) k = Some i \<Longrightarrow> map_of (dir cl) k = Some i" using inv by blast
    show ?thesis by (rule cases) (use seg [of k'] that in \<open>auto simp: map_add_def split: if_splits option.splits\<close>)
  qed
  show "lastOffset cl1 = int (total_bytes (dir cl1) (inodes cl1))"
  proof (rule cases)
    assume new: "dir cl1 = dir cl @ [(k, i)]" "inodes cl1 = inodes cl @ [[]]" "i = length (inodes cl)" "lastOffset cl1 = lastOffset cl"
    have "total_bytes (dir cl) (inodes cl @ [[]]) = total_bytes (dir cl) (inodes cl)" using inv by (intro total_append) auto
    then show ?thesis using new inv by (simp add: total_bytes_def)
  qed (use inv in auto)
  show "lastOffset cl1 = lastOffset cl" by (rule cases)
qed

lemma Append_IoOk:
  assumes "log_inv cl" and "Append IoOk now data cl = (res, cl')"
  shows "res = Inr (lastOffset cl)" "lastOffset cl' = lastOffset cl + int (20 + length data)" "log_inv cl'"
    "seg_file k cl' = (if k = segKey (lastOffset cl)
       then seg_file k cl @ header (lastOffset cl) (UnixNano now) (length data) @ data else seg_file k cl)"
    "has (dir cl') (segKey (lastOffset cl))"
proof -
  let ?k = "segKey (lastOffset cl)" and ?bs = "header (lastOffset cl) (UnixNano now) (length data) @ data"
  obtain i cl1 where o: "open_segment ?k cl = (i, cl1)" by fastforce
  note f = open_segment_facts [OF assms(1) o]
  have cl': "res = Inr (lastOffset cl)"
    "cl' = (write_inode i ?bs cl1)\<lparr>lastOffset := lastOffset cl1 + int (length ?bs)\<rparr>"
    using assms(2) by (simp_all add: Append_def Let_def o)
  then show "res = Inr (lastOffset cl)" "lastOffset cl' = lastOffset cl + int (20 + length data)" using f(10) by simp_all
  have d: "dir cl' = dir cl1" "segments cl' = segments cl1" "inodes cl' = (inodes cl1)[i := inodes cl1 ! i @ ?bs]"
    by (simp_all add: cl' write_inode_def)
  have ik: "(?k, i) \<in> set (dir cl1)" using f(1) by (rule map_of_SomeD)
  have other: "i' \<noteq> i" if "(k', i') \<in> set (dir cl1)" "k' \<noteq> ?k" for k' i'
    using distinct_snd_key [OF f(5) ik, of k'] that by blast
  show "has (dir cl') ?k" using f(1) d by simp
  show "seg_file k cl' = (if k = ?k then seg_file k cl @ ?bs else seg_file k cl)"
  proof (cases "k = ?k")
    case True
    then show ?thesis using f(1,2) f(3) [of ?k] d by (simp add: seg_file_def)
  next
    case False
    show ?thesis
    proof (cases "map_of (dir cl1) k")
      case None
      then show ?thesis using False f(3) [of k] d by (simp add: seg_file_def)
    next
      case (Some j)
      then have "j \<noteq> i" using other [OF map_of_SomeD False] by blast
      then show ?thesis using False f(3) [of k] d Some by (simp add: seg_file_def)
    qed
  qed
  have "total_bytes (dir cl1) (inodes cl') = total_bytes (dir cl1) (inodes cl1) + length ?bs"
    using total_update [OF f(5,6,2), of ?bs] ik d(3) by (force simp: image_iff)
  then have "lastOffset cl' = int (total_bytes (dir cl') (inodes cl'))" using cl'(2) d f(9) by simp
  moreover have "inodes cl' ! i' \<noteq> []" if "(k', i') \<in> set (dir cl1)" for k' i'
  proof (cases "k' = ?k")
    case True
    then have "i' = i" using that ik f(4) by (metis eq_key_imp_eq_value)
    then show ?thesis using f(2) d(3) by (simp add: header_def shift_bytes_def)
  next
    case False
    then show ?thesis using f(7) [OF False that] other [OF that False] d(3) by simp
  qed
  ultimately show "log_inv cl'" using f(4,5,6,8) d by (auto simp: log_inv_def)
qed

section \<open>Reading back\<close>

text \<open>A sequence of successful appends: the offsets returned and the log.\<close>

fun append_all :: "(time \<times> byte list) list \<Rightarrow> CommitLog \<Rightarrow> (io_error + int) list \<times> CommitLog" where
  "append_all [] cl = ([], cl)"
| "append_all ((now, data) # rest) cl =
     (let (res, cl1) = Append IoOk now data cl; (ress, cl2) = append_all rest cl1 in (res # ress, cl2))"

definition fresh_log :: CommitLog where "fresh_log = OpenCommitLog [] []"

lemma log_inv_fresh: "log_inv fresh_log" "lastOffset fresh_log = 0" "dir fresh_log = []"
  by (simp_all add: fresh_log_def OpenCommitLog_def log_inv_def total_bytes_def)

text \<open>\<open>data\<close> lies where \<open>Read offset\<close> looks for it.\<close>

definition stored :: "int \<Rightarrow> byte list \<Rightarrow> CommitLog \<Rightarrow> bool" where
  "stored offset data cl \<longleftrightarrow> has (dir cl) (segKey offset) \<and>
     (\<exists>pre post. seg_file (segKey offset) cl = pre @ data @ post \<and>
        int (length pre) = go_mod offset segmentBytes + int headerSize)"

lemma stored_Read:
  assumes "stored offset data cl"
  shows "Read offset (length data) cl = Inr data"
proof -
  obtain pre post where f: "seg_file (segKey offset) cl = pre @ data @ post"
    and l: "int (length pre) = go_mod offset segmentBytes + int headerSize"
    using assms by (auto simp: stored_def)
  obtain i where i: "map_of (dir cl) (segKey offset) = Some i" using assms by (auto simp: stored_def)
  have "nat (go_mod offset segmentBytes + int headerSize) = length pre" using l by (simp flip: l)
  moreover have "inodes cl ! i = pre @ data @ post" using f i by (simp add: seg_file_def)
  ultimately show ?thesis unfolding Read_def i Let_def option.case by simp
qed

lemma has_dir_Append:
  assumes "log_inv cl" and "Append IoOk now data cl = (res, cl')" and "has (dir cl) k"
  shows "has (dir cl') k"
proof -
  have "k = segKey (lastOffset cl) \<or> has (dir cl') k"
    using assms(2,3) by (auto simp: Append_def Let_def open_segment_def write_inode_def split: option.splits prod.splits)
  then show ?thesis using Append_IoOk(5) [OF assms(1,2)] by auto
qed

lemma stored_Append:
  assumes "log_inv cl" and "Append IoOk now d cl = (res, cl')" and "stored offset data cl"
  shows "stored offset data cl'"
proof -
  obtain pre post where p: "seg_file (segKey offset) cl = pre @ data @ post"
    "int (length pre) = go_mod offset segmentBytes + int headerSize"
    using assms(3) by (auto simp: stored_def)
  have "\<exists>post'. seg_file (segKey offset) cl' = pre @ data @ post'"
    unfolding Append_IoOk(4) [OF assms(1,2)] p(1) by auto
  with p(2) has_dir_Append [OF assms(1,2)] assms(3) show ?thesis by (auto simp: stored_def)
qed

text \<open>While the log is in its first segment, the offset is the position in the file.\<close>

definition aligned :: "CommitLog \<Rightarrow> bool" where
  "aligned cl \<longleftrightarrow> 0 \<le> lastOffset cl \<and> (lastOffset cl < segmentBytes \<longrightarrow> int (length (seg_file 0 cl)) = lastOffset cl)"

lemma segKey_nonneg: "0 \<le> offset \<Longrightarrow> segKey offset = offset div segmentBytes"
  by (simp add: segKey_def segmentBytes_def zdiv_zmult2_eq)

lemma segKey_first: "0 \<le> offset \<Longrightarrow> offset < segmentBytes \<Longrightarrow> segKey offset = 0"
  by (simp add: segKey_nonneg)

lemma aligned_Append:
  assumes "log_inv cl" and "aligned cl" and "Append IoOk now d cl = (res, cl')"
  shows "aligned cl'"
  using assms(2) Append_IoOk(2) [OF assms(1,3)] Append_IoOk(4) [OF assms(1,3), of 0] segKey_first [of "lastOffset cl"]
  by (auto simp: aligned_def)

lemma aligned_stored:
  assumes "log_inv cl" and "aligned cl" and "Append IoOk now d cl = (res, cl')" and "lastOffset cl < segmentBytes"
  shows "stored (lastOffset cl) d cl'"
proof -
  have k: "segKey (lastOffset cl) = 0" using assms(2,4) by (intro segKey_first) (auto simp: aligned_def)
  let ?pre = "seg_file 0 cl @ header (lastOffset cl) (UnixNano now) (length d)"
  have "seg_file 0 cl' = ?pre @ d @ []" using Append_IoOk(4) [OF assms(1,3), of 0] k by simp
  moreover have "int (length ?pre) = go_mod (lastOffset cl) segmentBytes + int headerSize"
    using assms(2,4) by (simp add: aligned_def headerSize_def segmentBytes_def)
  ultimately show ?thesis
    using Append_IoOk(5) [OF assms(1,3)] unfolding stored_def k by blast
qed

lemma append_all_keeps:
  assumes "log_inv cl" and "append_all ops cl = (ress, cl')" and "stored off d cl"
  shows "stored off d cl'"
  using assms
proof (induction ops arbitrary: cl ress)
  case (Cons op ops)
  obtain now data where op: "op = (now, data)" by fastforce
  obtain res cl1 rs where "Append IoOk now data cl = (res, cl1)" "append_all ops cl1 = (rs, cl')"
    using Cons.prems(2) by (auto simp: op split: prod.splits)
  then show ?case using Cons.IH stored_Append [OF Cons.prems(1)] Append_IoOk(3) [OF Cons.prems(1)] Cons.prems(3) by blast
qed simp

lemma append_all_stored:
  assumes "log_inv cl" and "aligned cl" and "append_all ops cl = (ress, cl')" and "i < length ops"
    and "ress ! i = Inr off" and "off < segmentBytes"
  shows "stored off (snd (ops ! i)) cl'"
  using assms(1-5)
proof (induction ops arbitrary: cl ress i)
  case (Cons op ops)
  obtain now data where op: "op = (now, data)" by fastforce
  obtain res cl1 rs where a: "Append IoOk now data cl = (res, cl1)" and r: "append_all ops cl1 = (rs, cl')" "ress = res # rs"
    using Cons.prems(3) by (auto simp: op split: prod.splits)
  note inv1 = Append_IoOk(3) [OF Cons.prems(1) a]
  show ?case
  proof (cases i)
    case 0
    then have "lastOffset cl = off" using Append_IoOk(1) [OF Cons.prems(1) a] Cons.prems(5) r(2) by simp
    then have "stored off data cl1" using aligned_stored [OF Cons.prems(1,2) a] assms(6) by simp
    from append_all_keeps [OF inv1 r(1) this] show ?thesis by (simp add: 0 op)
  next
    case (Suc j)
    then show ?thesis
      using Cons.IH [OF inv1 aligned_Append [OF Cons.prems(1,2) a] r(1), of j] Cons.prems(4,5) r(2) by simp
  qed
qed simp

lemma append_all_results:
  assumes "log_inv cl" and "append_all ops cl = (ress, cl')"
  shows "length ress = length ops \<and> log_inv cl' \<and> (\<forall>r \<in> set ress. \<exists>off. r = Inr off \<and> lastOffset cl \<le> off)"
  using assms
proof (induction ops arbitrary: cl ress)
  case (Cons op ops)
  obtain now data where op: "op = (now, data)" by fastforce
  obtain res cl1 rs where a: "Append IoOk now data cl = (res, cl1)" and r: "append_all ops cl1 = (rs, cl')" "ress = res # rs"
    using Cons.prems(2) by (auto simp: op split: prod.splits)
  from Cons.IH [OF Append_IoOk(3) [OF Cons.prems(1) a] r(1)] Append_IoOk(1,2) [OF Cons.prems(1) a] r(2)
  show ?case by fastforce
qed simp

text \<open>
  C10. Reading back. Messages appended to an empty log are read back unchanged, as long as their offset lies in
  the first segment (the first mebibyte): \<open>Read\<close> at the offset \<open>Append\<close> returned, with the length of the
  message, gives the message, whatever was appended before and after it.
\<close>

theorem commitlog_read_back:
  assumes "append_all ops fresh_log = (ress, cl)" and "i < length ops" and "ress ! i = Inr offset"
    and "offset < segmentBytes"
  shows "Read offset (length (snd (ops ! i))) cl = Inr (snd (ops ! i))"
proof -
  have "aligned fresh_log" by (simp add: aligned_def log_inv_fresh seg_file_def)
  from append_all_stored [OF log_inv_fresh(1) this assms] show ?thesis by (rule stored_Read)
qed

definition append_demo :: "(time \<times> byte list) list" where
  "append_demo = [(7, [1, 2, 3]), (8, []), (9, [4, 5])]"

theorem commitlog_read_back_witness:
  "fst (append_all append_demo fresh_log) = [Inr 0, Inr 23, Inr 43] \<and>
   Read 43 2 (snd (append_all append_demo fresh_log)) = Inr [4, 5]"
proof -
  have r: "fst (append_all append_demo fresh_log) = [Inr 0, Inr 23, Inr 43]"
    by (simp add: append_demo_def fresh_log_def OpenCommitLog_def Append_def open_segment_def write_inode_def segKey_def Let_def)
  have "Read 43 (length (snd (append_demo ! 2))) (snd (append_all append_demo fresh_log)) = Inr (snd (append_demo ! 2))"
    by (rule commitlog_read_back [OF prod.collapse [symmetric]])
      (simp_all only: r, simp_all add: append_demo_def segmentBytes_def)
  moreover have "snd (append_demo ! 2) = [4, 5]" by (simp add: append_demo_def)
  moreover have "length [4, 5 :: byte] = 2" by simp
  ultimately show ?thesis using r by (simp only:)
qed

text \<open>
  Later segments are misread. The first entry of a new segment rarely starts at a multiple of the segment
  size. \<open>Read\<close> still seeks to the offset modulo the segment size, \<open>d\<close> bytes too far in the new file, so it
  fails with \<open>EOF\<close> or returns the message without its first \<open>d\<close> bytes, padded with zeros.
\<close>

theorem new_segment_misread:
  assumes "log_inv cl" and "map_of (dir cl) (segKey (lastOffset cl)) = None"
    and "Append IoOk now data cl = (res, cl')" and "data \<noteq> []" and "d = nat (lastOffset cl mod segmentBytes)"
  shows "res = Inr (lastOffset cl) \<and>
    Read (lastOffset cl) (length data) cl' =
      (if length data \<le> d then Inl EOF else Inr (drop d data @ replicate d 0))"
proof -
  let ?o = "lastOffset cl"
  have o: "0 \<le> ?o" using assms(1) by (simp add: log_inv_def)
  have gm: "go_mod ?o segmentBytes = ?o mod segmentBytes" using o by (simp add: segmentBytes_def)
  have c: "seg_file (segKey ?o) cl' = header ?o (UnixNano now) (length data) @ data"
    using Append_IoOk(4) [OF assms(1,3), of "segKey ?o"] assms(2) by (simp add: seg_file_def)
  obtain i where i: "map_of (dir cl') (segKey ?o) = Some i" using Append_IoOk(5) [OF assms(1,3)] by auto
  then have "inodes cl' ! i = header ?o (UnixNano now) (length data) @ data" using c by (simp add: seg_file_def)
  moreover have "nat (?o mod segmentBytes + int headerSize) = 20 + d"
    using assms(5) by (simp add: headerSize_def segmentBytes_def nat_add_distrib)
  ultimately have "Read ?o (length data) cl' =
      (let bytes = take (length data) (drop d data)
       in if 0 < length data \<and> bytes = [] then Inl EOF else Inr (bytes @ replicate (length data - length bytes) 0))"
    unfolding Read_def i option.case gm Let_def by simp
  moreover have "take (length data) (drop d data) = drop d data" by simp
  ultimately show ?thesis
    using assms(4) Append_IoOk(1) [OF assms(1,3)] by (simp only: Let_def) (auto simp: not_le)
qed

definition straddle :: CommitLog where
  "straddle = \<lparr>dir = [(0, 0)], inodes = [replicate 1048579 0], segments = [(0, 0)], lastOffset = 1048579,
               batchBuffer = [], batchSize = 100, flushCh = False\<rparr>"

theorem new_segment_misread_witness:
  "Read 1048579 5 (snd (Append IoOk 7 [1, 2, 3, 4, 5] straddle)) = Inr [4, 5, 0, 0, 0]"
proof -
  have "log_inv straddle" "lastOffset straddle = 1048579"
    by (simp_all add: log_inv_def straddle_def total_bytes_def)
  moreover have "map_of (dir straddle) (segKey (lastOffset straddle)) = None"
    by (simp add: straddle_def segKey_def)
  moreover have "3 = nat (lastOffset straddle mod segmentBytes)" by (simp add: straddle_def segmentBytes_def)
  ultimately have "Read 1048579 (length [1, 2, 3, 4, 5 :: byte]) (snd (Append IoOk 7 [1, 2, 3, 4, 5] straddle)) =
      (if length [1, 2, 3, 4, 5 :: byte] \<le> 3 then Inl EOF else Inr (drop 3 [1, 2, 3, 4, 5] @ replicate 3 0))"
    using new_segment_misread [of straddle 7 "[1, 2, 3, 4, 5]" _ _ 3, OF _ _ prod.collapse [symmetric]]
    by (simp only: list.distinct simp_thms)
  then show ?thesis by (simp add: eval_nat_numeral)
qed

section \<open>Reopening\<close>

lemma foldl_max_less:
  fixes m :: int
  assumes "0 < m" and "xs \<noteq> []" and "\<forall>x \<in> set xs. 0 < x"
  shows "foldl max m xs < m + sum_list xs"
  using assms
proof (induction xs arbitrary: m)
  case (Cons x xs)
  show ?case
  proof (cases "xs = []")
    case False
    then have "foldl max (max m x) xs < max m x + sum_list xs" using Cons by simp
    then show ?thesis using Cons.prems by (cases "m \<le> x") (simp_all add: max_absorb1 max_absorb2)
  qed (use Cons.prems in auto)
qed simp

lemma foldl_max_sum:
  fixes xs :: "int list"
  assumes "\<forall>x \<in> set xs. 0 < x"
  shows "foldl max 0 xs = sum_list xs \<longleftrightarrow> length xs \<le> 1"
proof (cases xs)
  case (Cons x ys)
  then show ?thesis
    using assms foldl_max_less [of x ys] by (cases "ys = []") (auto simp: max_def)
qed simp

lemma OpenCommitLog_offset:
  "lastOffset (OpenCommitLog d inos) = foldl max 0 (map (\<lambda>(k, i). int (length (inos ! i))) d)"
proof -
  have "foldl (\<lambda>last (k, i). let seg = int (length (inos ! i)) in if last < seg then seg else last) a d =
      foldl max a (map (\<lambda>(k, i). int (length (inos ! i))) d)" for a
    by (induction d arbitrary: a) (auto simp: Let_def max_def)
  then show ?thesis by (simp add: OpenCommitLog_def)
qed

text \<open>
  Reopening. After successful appends to an empty log, \<open>OpenCommitLog\<close> finds the old end of the log exactly
  if there is at most one segment file; with two or more it takes the size of the largest file, which is too
  small, and the next append reuses an offset.
\<close>

theorem reopen_offset:
  assumes "append_all ops fresh_log = (ress, cl)"
  shows "let reopened = OpenCommitLog (dir cl) (inodes cl)
    in lastOffset reopened \<le> lastOffset cl \<and> (lastOffset reopened = lastOffset cl \<longleftrightarrow> length (dir cl) \<le> 1)"
proof -
  have inv: "log_inv cl" using append_all_results [OF log_inv_fresh(1) assms] by simp
  let ?xs = "map (\<lambda>(k, i). int (length (inodes cl ! i))) (dir cl)"
  have pos: "\<forall>x \<in> set ?xs. 0 < x" using inv by (fastforce simp: log_inv_def)
  have "int (total_bytes d (inodes cl)) = sum_list (map (\<lambda>(k, i). int (length (inodes cl ! i))) d)" for d
    by (induction d) (auto simp: total_bytes_def)
  then have l: "lastOffset cl = sum_list ?xs" using inv by (simp add: log_inv_def)
  have "foldl max 0 xs \<le> sum_list xs" if "\<forall>x \<in> set xs. 0 < x" for xs :: "int list"
  proof (cases xs)
    case (Cons x ys)
    then show ?thesis
      using that foldl_max_less [of x ys] by (cases "ys = []") (auto simp: max_def)
  qed simp
  then show ?thesis
    using foldl_max_sum [OF pos] pos by (simp add: OpenCommitLog_offset l Let_def)
qed

theorem reopen_offset_witness:
  "let cl = snd (append_all append_demo fresh_log) in lastOffset (OpenCommitLog (dir cl) (inodes cl)) = lastOffset cl"
proof -
  let ?cl = "snd (append_all append_demo fresh_log)"
  have "length (dir ?cl) \<le> 1"
    by (simp add: append_demo_def fresh_log_def OpenCommitLog_def Append_def open_segment_def write_inode_def segKey_def Let_def)
  then show ?thesis using reopen_offset [OF prod.collapse [symmetric], of append_demo] by (simp only: Let_def simp_thms)
qed

section \<open>Batches\<close>

lemma batchFlush_appends:
  "batchFlush env cl =
     foldl (\<lambda>cl' (i, data). snd (Append (fst (env i)) (snd (env i)) data cl')) (cl\<lparr>batchBuffer := []\<rparr>)
       (enumerate 0 (batchBuffer cl))"
proof -
  have loop: "flush_loop env n batch c =
      foldl (\<lambda>cl' (i, data). snd (Append (fst (env i)) (snd (env i)) data cl')) c (enumerate n batch)" for n batch c
  proof (induction batch arbitrary: n c)
    case (Cons data batch)
    have "snd (Append (fst (env n)) (snd (env n)) data c) =
        (if fst (env n) = OpenFails \<and> \<not> has (segments c) (segKey (lastOffset c)) then c
         else let (ino, cl1) = open_segment (segKey (lastOffset c)) c;
                  fullData = header (lastOffset c) (UnixNano (snd (env n))) (length data) @ data
              in case fst (env n) of
                   WriteFails m \<Rightarrow> write_inode ino (take m fullData) cl1
                 | _ \<Rightarrow> (write_inode ino fullData cl1)\<lparr>lastOffset := lastOffset cl1 + int (length fullData)\<rparr>)"
      by (simp add: Append_def Let_def split: io.split prod.split)
    then show ?case using Cons.IH by (simp add: Let_def split_def)
  qed simp
  show ?thesis
  proof (cases "batchBuffer cl")
    case Nil
    then have "cl\<lparr>batchBuffer := []\<rparr> = cl" by simp
    then show ?thesis by (simp add: batchFlush_def Nil)
  next
    case (Cons data rest)
    then show ?thesis
      by (cases rest) (simp_all add: batchFlush_def Let_def loop del: flush_loop.simps)
  qed
qed

text \<open>
  A batch is the same as appending its entries one after the other: the copy of the append code inside
  \<open>batchFlush\<close>, with its own error handling, leaves the log as the calls of \<open>Append\<close> would.
\<close>

theorem batchFlush_equivalent:
  "batchFlush env cl =
     foldl (\<lambda>cl' (i, data). snd (Append (fst (env i)) (snd (env i)) data cl')) (cl\<lparr>batchBuffer := []\<rparr>)
       (enumerate 0 (batchBuffer cl))"
  by (rule batchFlush_appends)

section \<open>The index\<close>

lemma lookup_loop_spec:
  assumes "\<And>b. best = Some b \<Longrightarrow> ie_Timestamp b \<le> ts"
  shows "case lookup_loop ts best es of
      None \<Rightarrow> best = None \<and> (\<forall>e \<in> snd ` set es. ts < ie_Timestamp e)
    | Some e \<Rightarrow> (best = Some e \<or> e \<in> snd ` set es) \<and> ie_Timestamp e \<le> ts \<and>
        (\<forall>e' \<in> snd ` set es. ie_Timestamp e' \<le> ts \<longrightarrow> ie_Timestamp e' \<le> ie_Timestamp e) \<and>
        (\<forall>b. best = Some b \<longrightarrow> ie_Timestamp b \<le> ie_Timestamp e)"
  using assms
proof (induction es arbitrary: best)
  case Nil
  then show ?case by (auto split: option.split)
next
  case (Cons ke es)
  obtain k e where ke: "ke = (k, e)" by fastforce
  define nb where "nb = (if ie_Timestamp e \<le> ts
        then (case best of None \<Rightarrow> Some e | Some b \<Rightarrow> if ie_Timestamp b < ie_Timestamp e then Some e else best)
        else best)"
  have step: "lookup_loop ts best (ke # es) = lookup_loop ts nb es" by (simp add: ke nb_def)
  have ts: "ie_Timestamp b \<le> ts" if "nb = Some b" for b
    using Cons.prems that by (auto simp: nb_def split: option.splits if_splits)
  have ih: "case lookup_loop ts nb es of
      None \<Rightarrow> nb = None \<and> (\<forall>e \<in> snd ` set es. ts < ie_Timestamp e)
    | Some e \<Rightarrow> (nb = Some e \<or> e \<in> snd ` set es) \<and> ie_Timestamp e \<le> ts \<and>
        (\<forall>e' \<in> snd ` set es. ie_Timestamp e' \<le> ts \<longrightarrow> ie_Timestamp e' \<le> ie_Timestamp e) \<and>
        (\<forall>b. nb = Some b \<longrightarrow> ie_Timestamp b \<le> ie_Timestamp e)"
    by (rule Cons.IH) (rule ts)
  show ?case
  proof (cases "lookup_loop ts nb es")
    case None
    then show ?thesis using ih by (auto simp: ke nb_def split: option.splits if_splits)
  next
    case (Some r)
    with ih have r: "nb = Some r \<or> r \<in> snd ` set es" "ie_Timestamp r \<le> ts"
      "\<forall>e' \<in> snd ` set es. ie_Timestamp e' \<le> ts \<longrightarrow> ie_Timestamp e' \<le> ie_Timestamp r"
      "\<And>b. nb = Some b \<Longrightarrow> ie_Timestamp b \<le> ie_Timestamp r"
      by simp_all
    have "ie_Timestamp e \<le> ie_Timestamp r" if "ie_Timestamp e \<le> ts"
      using that r(4) by (force simp: nb_def split: option.splits if_splits)
    moreover have "ie_Timestamp b \<le> ie_Timestamp r" if "best = Some b" for b
      using that r(4) by (force simp: nb_def split: if_splits)
    moreover have "best = Some r \<or> r = e \<or> r \<in> snd ` set es"
      using r(1) by (auto simp: nb_def split: option.splits if_splits)
    ultimately show ?thesis using r(2,3) unfolding step Some by (auto simp: ke)
  qed
qed

text \<open>
  \<open>Lookup\<close> finds, for every iteration order of the map, an entry with the greatest time stamp that is not
  after the one asked for, and fails exactly if there is none.
\<close>

theorem Lookup_greatest:
  assumes "range_order ord"
  shows "case Lookup ord ts idx of
      None \<Rightarrow> (\<forall>e \<in> snd ` set idx. ts < ie_Timestamp e)
    | Some e \<Rightarrow> e \<in> snd ` set idx \<and> ie_Timestamp e \<le> ts \<and>
        (\<forall>e' \<in> snd ` set idx. ie_Timestamp e' \<le> ts \<longrightarrow> ie_Timestamp e' \<le> ie_Timestamp e)"
  using lookup_loop_spec [of None ts "ord idx"] range_order_set [OF assms]
  by (auto simp: Lookup_def split: option.splits)

theorem Lookup_greatest_witness:
  "\<exists>e. Lookup rev 8 (idx_Put 40 5 9 (idx_Put 23 4 7 (idx_Put 0 3 5 OpenSparseIndex))) = Some e \<and> ie_Timestamp e = 7 \<and>
     (\<forall>e' \<in> snd ` set (idx_Put 40 5 9 (idx_Put 23 4 7 (idx_Put 0 3 5 OpenSparseIndex))).
        ie_Timestamp e' \<le> 8 \<longrightarrow> ie_Timestamp e' \<le> 7)"
  using Lookup_greatest [where ord = rev and ts = 8 and idx = "idx_Put 40 5 9 (idx_Put 23 4 7 (idx_Put 0 3 5 OpenSparseIndex))"]
  by (simp add: Lookup_def idx_Put_def OpenSparseIndex_def)

lemma GetEntriesAfter_set:
  "range_order ord \<Longrightarrow> set (GetEntriesAfter ord offset idx) = {e \<in> snd ` set idx. offset < ie_Offset e}"
  by (auto simp: GetEntriesAfter_def range_order_set)

lemma PutBatch_get: "idx_Get off (PutBatch es idx) =
    (case find (\<lambda>e. ie_Offset e = off) (rev es) of Some e \<Rightarrow> Some e | None \<Rightarrow> idx_Get off idx)"
  by (induction es arbitrary: idx rule: rev_induct) (auto simp: PutBatch_def idx_Get_def)

end
