(* ===== verification/Namespaces.thy ===== *)
theory Namespaces
  imports Go_Prelude
begin

text \<open>
  Namespaces and access control, \<open>src/cluster/go/broker/namespace/namespace.go\<close>: the records,
  every operation of \<open>NamespaceManager\<close>, the invariant that ties \<open>topicToNS\<close> to the
  namespaces, and what \<open>CheckPermission\<close> decides.
\<close>

section \<open>Data\<close>

type_synonym Action = string

definition ActionProduce :: Action where "ActionProduce = ''PRODUCE''"
definition ActionConsume :: Action where "ActionConsume = ''CONSUME''"
definition ActionAdmin :: Action where "ActionAdmin = ''ADMIN''"

record Quota =
  MaxMessagesPerSecond :: int
  MaxBytesPerSecond :: int
  MaxTopics :: int
  MaxPartitions :: int

record ACL =
  acl_UserID :: string
  acl_Topic :: string
  acl_Actions :: "Action list"
  acl_Allow :: bool

record Namespace =
  ns_Name :: string
  ns_Topics :: "string list"
  ns_Quota :: Quota
  ns_ACLs :: "ACL list"
  ns_CreatedAt :: time
  ns_ModifiedAt :: time

record NamespaceManager =
  namespaces :: "(string, Namespace) gomap"
  topicToNS :: "(string, string) gomap"
  userToNS :: "(string, string list) gomap"

datatype ns_error =
    NamespaceExists string
  | NamespaceNotFound string
  | MaxTopicsExceeded string
  | TopicNotInNamespace string string
  | NamespaceNotFoundForTopic string

section \<open>Operations\<close>

definition NewNamespaceManager :: NamespaceManager where
  "NewNamespaceManager = \<lparr>namespaces = [], topicToNS = [], userToNS = []\<rparr>"

text \<open>\<open>created\<close> and \<open>modified\<close> are the two readings of the clock.\<close>

definition CreateNamespace ::
    "string \<Rightarrow> Quota \<Rightarrow> time \<Rightarrow> time \<Rightarrow> NamespaceManager \<Rightarrow> (ns_error + Namespace) \<times> NamespaceManager" where
  "CreateNamespace name quota created modified nm =
     (if has (namespaces nm) name then (Inl (NamespaceExists name), nm)
      else let ns = \<lparr>ns_Name = name, ns_Topics = [], ns_Quota = quota, ns_ACLs = [],
                     ns_CreatedAt = created, ns_ModifiedAt = modified\<rparr>
           in (Inr ns, nm\<lparr>namespaces := put name ns (namespaces nm)\<rparr>))"

definition GetNamespace :: "string \<Rightarrow> NamespaceManager \<Rightarrow> Namespace option" where
  "GetNamespace name nm = map_of (namespaces nm) name"

definition DeleteNamespace :: "string \<Rightarrow> NamespaceManager \<Rightarrow> (ns_error + unit) \<times> NamespaceManager" where
  "DeleteNamespace name nm =
     (case map_of (namespaces nm) name of
        None \<Rightarrow> (Inl (NamespaceNotFound name), nm)
      | Some ns \<Rightarrow>
          (Inr (), nm\<lparr>topicToNS := fold del (ns_Topics ns) (topicToNS nm),
                      namespaces := del name (namespaces nm)\<rparr>))"

definition AddTopic :: "string \<Rightarrow> string \<Rightarrow> time \<Rightarrow> NamespaceManager \<Rightarrow> (ns_error + unit) \<times> NamespaceManager" where
  "AddTopic namespace topic now nm =
     (case map_of (namespaces nm) namespace of
        None \<Rightarrow> (Inl (NamespaceNotFound namespace), nm)
      | Some ns \<Rightarrow>
          if MaxTopics (ns_Quota ns) \<le> int (length (ns_Topics ns)) \<and> 0 < MaxTopics (ns_Quota ns)
          then (Inl (MaxTopicsExceeded namespace), nm)
          else if topic \<in> set (ns_Topics ns) then (Inr (), nm)
          else (Inr (),
            nm\<lparr>namespaces := put namespace
                 (ns\<lparr>ns_Topics := ns_Topics ns @ [topic], ns_ModifiedAt := now\<rparr>) (namespaces nm),
               topicToNS := put topic namespace (topicToNS nm)\<rparr>))"

text \<open>\<open>RemoveTopic\<close> deletes the first occurrence, \<open>append(Topics[:i], Topics[i+1:]...)\<close>.\<close>

definition RemoveTopic :: "string \<Rightarrow> string \<Rightarrow> time \<Rightarrow> NamespaceManager \<Rightarrow> (ns_error + unit) \<times> NamespaceManager" where
  "RemoveTopic namespace topic now nm =
     (case map_of (namespaces nm) namespace of
        None \<Rightarrow> (Inl (NamespaceNotFound namespace), nm)
      | Some ns \<Rightarrow>
          if topic \<in> set (ns_Topics ns)
          then (Inr (),
            nm\<lparr>namespaces := put namespace
                 (ns\<lparr>ns_Topics := remove1 topic (ns_Topics ns), ns_ModifiedAt := now\<rparr>) (namespaces nm),
               topicToNS := del topic (topicToNS nm)\<rparr>)
          else (Inl (TopicNotInNamespace topic namespace), nm))"

definition GetNamespaceByTopic :: "string \<Rightarrow> NamespaceManager \<Rightarrow> Namespace option" where
  "GetNamespaceByTopic topic nm =
     (case map_of (topicToNS nm) topic of
        None \<Rightarrow> None
      | Some nsName \<Rightarrow> map_of (namespaces nm) nsName)"

definition AddACL ::
    "string \<Rightarrow> string \<Rightarrow> string \<Rightarrow> Action list \<Rightarrow> bool \<Rightarrow> time \<Rightarrow> NamespaceManager \<Rightarrow>
     (ns_error + unit) \<times> NamespaceManager" where
  "AddACL namespace userID topic actions allow now nm =
     (case map_of (namespaces nm) namespace of
        None \<Rightarrow> (Inl (NamespaceNotFound namespace), nm)
      | Some ns \<Rightarrow>
          let acl = \<lparr>acl_UserID = userID, acl_Topic = topic, acl_Actions = actions, acl_Allow = allow\<rparr>;
              ns' = ns\<lparr>ns_ACLs := ns_ACLs ns @ [acl], ns_ModifiedAt := now\<rparr>;
              users = (if has (userToNS nm) userID then userToNS nm else put userID [] (userToNS nm));
              names = the (map_of users userID);
              users' = (if namespace \<in> set names then users
                        else put userID (names @ [namespace]) users)
          in (Inr (), nm\<lparr>namespaces := put namespace ns' (namespaces nm), userToNS := users'\<rparr>))"

text \<open>The two nested loops of \<open>CheckPermission\<close>.\<close>

fun action_listed :: "Action \<Rightarrow> Action list \<Rightarrow> bool" where
  "action_listed action [] = False"
| "action_listed action (act # acts) =
     (if act = action \<or> act = ActionAdmin then True else action_listed action acts)"

fun acl_loop :: "string \<Rightarrow> string \<Rightarrow> Action \<Rightarrow> ACL list \<Rightarrow> bool" where
  "acl_loop userID topic action [] = True"
| "acl_loop userID topic action (acl # acls) =
     (if acl_UserID acl \<noteq> userID then acl_loop userID topic action acls
      else if acl_Topic acl \<noteq> '''' \<and> acl_Topic acl \<noteq> topic then acl_loop userID topic action acls
      else if action_listed action (acl_Actions acl) then acl_Allow acl
      else acl_loop userID topic action acls)"

definition CheckPermission :: "string \<Rightarrow> string \<Rightarrow> Action \<Rightarrow> NamespaceManager \<Rightarrow> ns_error + bool" where
  "CheckPermission userID topic action nm =
     (case map_of (topicToNS nm) topic of
        None \<Rightarrow> Inr True
      | Some nsName \<Rightarrow>
          (case map_of (namespaces nm) nsName of
             None \<Rightarrow> Inl (NamespaceNotFoundForTopic topic)
           | Some ns \<Rightarrow> Inr (acl_loop userID topic action (ns_ACLs ns))))"

definition GetAllNamespaces ::
    "((string \<times> Namespace) list \<Rightarrow> (string \<times> Namespace) list) \<Rightarrow> NamespaceManager \<Rightarrow> Namespace list" where
  "GetAllNamespaces ord nm = map snd (ord (namespaces nm))"

section \<open>The invariant\<close>

definition ns_inv :: "NamespaceManager \<Rightarrow> bool" where
  "ns_inv nm \<longleftrightarrow>
     (\<forall>t n. map_of (topicToNS nm) t = Some n \<longrightarrow>
        (\<exists>ns. map_of (namespaces nm) n = Some ns \<and> t \<in> set (ns_Topics ns))) \<and>
     (\<forall>n ns. map_of (namespaces nm) n = Some ns \<longrightarrow>
        ns_Name ns = n \<and> distinct (ns_Topics ns) \<and>
        (0 < MaxTopics (ns_Quota ns) \<longrightarrow> int (length (ns_Topics ns)) \<le> MaxTopics (ns_Quota ns)))"

lemma ns_invI:
  assumes "\<And>t n. map_of (topicToNS nm) t = Some n \<Longrightarrow>
             \<exists>ns. map_of (namespaces nm) n = Some ns \<and> t \<in> set (ns_Topics ns)"
    and "\<And>n ns. map_of (namespaces nm) n = Some ns \<Longrightarrow>
             ns_Name ns = n \<and> distinct (ns_Topics ns) \<and>
             (0 < MaxTopics (ns_Quota ns) \<longrightarrow> int (length (ns_Topics ns)) \<le> MaxTopics (ns_Quota ns))"
  shows "ns_inv nm"
  using assms by (simp add: ns_inv_def)

lemma ns_invD:
  assumes "ns_inv nm"
  shows "map_of (topicToNS nm) t = Some n \<Longrightarrow>
           \<exists>ns. map_of (namespaces nm) n = Some ns \<and> t \<in> set (ns_Topics ns)"
    and "map_of (namespaces nm) n = Some ns \<Longrightarrow> ns_Name ns = n"
    and "map_of (namespaces nm) n = Some ns \<Longrightarrow> distinct (ns_Topics ns)"
    and "map_of (namespaces nm) n = Some ns \<Longrightarrow> 0 < MaxTopics (ns_Quota ns) \<Longrightarrow>
           int (length (ns_Topics ns)) \<le> MaxTopics (ns_Quota ns)"
  using assms by (auto simp: ns_inv_def)

lemma map_of_fold_del: "map_of (fold del ks m) = (\<lambda>k. if k \<in> set ks then None else map_of m k)"
  by (induction ks arbitrary: m) auto

lemma ns_inv_CreateNamespace: "ns_inv nm \<Longrightarrow> ns_inv (snd (CreateNamespace n q t1 t2 nm))"
  by (fastforce simp: CreateNamespace_def Let_def intro!: ns_invI dest: ns_invD split: if_splits)

lemma ns_inv_DeleteNamespace: "ns_inv nm \<Longrightarrow> ns_inv (snd (DeleteNamespace n nm))"
  by (fastforce simp: DeleteNamespace_def map_of_fold_del intro!: ns_invI dest: ns_invD
      split: option.splits if_splits)

lemma ns_inv_AddTopic: "ns_inv nm \<Longrightarrow> ns_inv (snd (AddTopic n t now nm))"
  by (fastforce simp: AddTopic_def intro!: ns_invI dest: ns_invD split: option.splits if_splits)

lemma ns_inv_RemoveTopic:
  assumes "ns_inv nm"
  shows "ns_inv (snd (RemoveTopic n t now nm))"
proof (cases "\<exists>ns. map_of (namespaces nm) n = Some ns \<and> t \<in> set (ns_Topics ns)")
  case True
  then obtain ns where ns: "map_of (namespaces nm) n = Some ns" "t \<in> set (ns_Topics ns)" by auto
  note facts = ns_invD(2-4) [OF assms ns(1)]
  show ?thesis
  proof (rule ns_invI)
    fix t' n' assume "map_of (topicToNS (snd (RemoveTopic n t now nm))) t' = Some n'"
    with ns have "map_of (topicToNS nm) t' = Some n'" "t' \<noteq> t"
      by (auto simp: RemoveTopic_def split: if_splits)
    then show "\<exists>ns. map_of (namespaces (snd (RemoveTopic n t now nm))) n' = Some ns \<and> t' \<in> set (ns_Topics ns)"
      using ns ns_invD(1) [OF assms, of t' n'] by (auto simp: RemoveTopic_def)
  next
    fix n' ns' assume "map_of (namespaces (snd (RemoveTopic n t now nm))) n' = Some ns'"
    then show "ns_Name ns' = n' \<and> distinct (ns_Topics ns') \<and>
        (0 < MaxTopics (ns_Quota ns') \<longrightarrow> int (length (ns_Topics ns')) \<le> MaxTopics (ns_Quota ns'))"
      using ns facts ns_invD(2-4) [OF assms, of n' ns']
      by (auto simp: RemoveTopic_def length_remove1 split: if_splits)
  qed
next
  case False
  then show ?thesis using assms by (auto simp: RemoveTopic_def split: option.splits)
qed

lemma ns_inv_AddACL: "ns_inv nm \<Longrightarrow> ns_inv (snd (AddACL n u t acts al now nm))"
  by (fastforce simp: AddACL_def Let_def intro!: ns_invI dest: ns_invD split: option.splits if_splits)

section \<open>The manager as a machine\<close>

datatype ns_op =
    OpCreate string Quota time time
  | OpDelete string
  | OpAddTopic string string time
  | OpRemoveTopic string string time
  | OpAddACL string string string "Action list" bool time

fun ns_step :: "NamespaceManager \<Rightarrow> ns_op \<Rightarrow> NamespaceManager" where
  "ns_step nm (OpCreate n q t1 t2) = snd (CreateNamespace n q t1 t2 nm)"
| "ns_step nm (OpDelete n) = snd (DeleteNamespace n nm)"
| "ns_step nm (OpAddTopic n t now) = snd (AddTopic n t now nm)"
| "ns_step nm (OpRemoveTopic n t now) = snd (RemoveTopic n t now nm)"
| "ns_step nm (OpAddACL n u t acts al now) = snd (AddACL n u t acts al now nm)"

lemmas ns_inv_ops =
  ns_inv_CreateNamespace ns_inv_DeleteNamespace ns_inv_AddTopic ns_inv_RemoveTopic ns_inv_AddACL

interpretation nsm: machine ns_step ns_inv "\<lambda>_. True"
proof unfold_locales
  fix nm a assume "ns_inv nm"
  then show "ns_inv (ns_step nm a)" by (cases a) (auto intro: ns_inv_ops)
qed

definition ns_run :: "ns_op list \<Rightarrow> NamespaceManager" where
  "ns_run ops = foldl ns_step NewNamespaceManager ops"

lemma ns_inv_New: "ns_inv NewNamespaceManager"
  by (simp add: ns_inv_def NewNamespaceManager_def)

lemma ns_inv_run: "ns_inv (ns_run ops)"
  unfolding ns_run_def by (rule nsm.inv_run [OF ns_inv_New]) (simp add: list_all_iff)

section \<open>What a permission check decides\<close>

text \<open>An ACL entry applies to a request when it names the user, covers the topic (the empty topic
  covers all) and lists the action or \<open>ADMIN\<close>.\<close>

definition acl_applies :: "string \<Rightarrow> string \<Rightarrow> Action \<Rightarrow> ACL \<Rightarrow> bool" where
  "acl_applies userID topic action acl \<longleftrightarrow>
     acl_UserID acl = userID \<and> (acl_Topic acl = [] \<or> acl_Topic acl = topic) \<and>
     (action \<in> set (acl_Actions acl) \<or> ActionAdmin \<in> set (acl_Actions acl))"

definition acl_decision :: "string \<Rightarrow> string \<Rightarrow> Action \<Rightarrow> ACL list \<Rightarrow> bool" where
  "acl_decision userID topic action acls =
     (case List.find (acl_applies userID topic action) acls of None \<Rightarrow> True | Some acl \<Rightarrow> acl_Allow acl)"

lemma action_listed_iff: "action_listed action acts \<longleftrightarrow> action \<in> set acts \<or> ActionAdmin \<in> set acts"
  by (induction acts) auto

lemma acl_loop_decision: "acl_loop userID topic action acls = acl_decision userID topic action acls"
  by (induction acls) (auto simp: acl_decision_def acl_applies_def action_listed_iff)

text \<open>
  C36. In every state the manager can reach, a permission check never fails with the internal error
  \<open>namespace not found for topic\<close>: a topic without a namespace is open to everybody, otherwise the
  first ACL entry of its namespace that applies to the request decides, and with none the request is
  allowed.
\<close>

theorem CheckPermission_first_match:
  "CheckPermission userID topic action (ns_run ops) =
     Inr (case GetNamespaceByTopic topic (ns_run ops) of
            None \<Rightarrow> True
          | Some ns \<Rightarrow> acl_decision userID topic action (ns_ACLs ns))"
  using ns_invD(1) [OF ns_inv_run, of ops topic]
  by (auto simp: CheckPermission_def GetNamespaceByTopic_def acl_loop_decision split: option.splits)

text \<open>
  C37. In every reachable state a namespace with a topic quota holds at most that many topics, each
  once.
\<close>

theorem namespace_quota_respected:
  assumes "GetNamespace name (ns_run ops) = Some ns" and "0 < MaxTopics (ns_Quota ns)"
  shows "int (length (ns_Topics ns)) \<le> MaxTopics (ns_Quota ns) \<and> distinct (ns_Topics ns)"
  using assms ns_invD(3,4) [OF ns_inv_run] by (auto simp: GetNamespace_def)

definition example_quota :: Quota where
  "example_quota =
     \<lparr>MaxMessagesPerSecond = 0, MaxBytesPerSecond = 0, MaxTopics = 1, MaxPartitions = 0\<rparr>"

lemmas ns_eval =
  ns_run_def example_quota_def NewNamespaceManager_def CreateNamespace_def AddTopic_def AddACL_def
  GetNamespace_def DeleteNamespace_def CheckPermission_def Let_def

theorem namespace_quota_respected_witness:
  "\<exists>ns. GetNamespace ''a'' (ns_run [OpCreate ''a'' example_quota 1 1, OpAddTopic ''a'' ''t'' 2,
          OpAddTopic ''a'' ''u'' 3]) = Some ns \<and> ns_Topics ns = [''t''] \<and>
        int (length (ns_Topics ns)) \<le> MaxTopics (ns_Quota ns) \<and> distinct (ns_Topics ns)"
proof -
  let ?ns = "\<lparr>ns_Name = ''a'', ns_Topics = [''t''], ns_Quota = example_quota, ns_ACLs = [],
              ns_CreatedAt = 1, ns_ModifiedAt = 2\<rparr>"
  have "GetNamespace ''a'' (ns_run [OpCreate ''a'' example_quota 1 1, OpAddTopic ''a'' ''t'' 2,
          OpAddTopic ''a'' ''u'' 3]) = Some ?ns"
    by (simp add: ns_eval)
  from this namespace_quota_respected [OF this] show ?thesis by (simp add: example_quota_def)
qed

text \<open>
  A topic may be listed by two namespaces. Deleting one of them drops the topic's entry in
  \<open>topicToNS\<close>, so the ACL of the other namespace, which still lists the topic, is no longer
  consulted and every request is allowed.
\<close>

theorem DeleteNamespace_lifts_other_acl:
  assumes "map_of (namespaces nm) a = Some nsA" and "topic \<in> set (ns_Topics nsA)"
    and "map_of (namespaces nm) b = Some nsB" and "a \<noteq> b"
  shows "map_of (namespaces (snd (DeleteNamespace a nm))) b = Some nsB \<and>
    CheckPermission userID topic action (snd (DeleteNamespace a nm)) = Inr True"
  using assms by (auto simp: DeleteNamespace_def CheckPermission_def map_of_fold_del)

theorem DeleteNamespace_lifts_other_acl_witness:
  "let nm = ns_run [OpCreate ''a'' example_quota 1 1, OpCreate ''b'' example_quota 1 1,
          OpAddTopic ''a'' ''t'' 2, OpAddTopic ''b'' ''t'' 2,
          OpAddACL ''b'' ''u'' ''t'' [ActionProduce] False 3]
   in CheckPermission ''u'' ''t'' ActionProduce nm = Inr False \<and>
      CheckPermission ''u'' ''t'' ActionProduce (snd (DeleteNamespace ''a'' nm)) = Inr True"
proof -
  let ?nm = "ns_run [OpCreate ''a'' example_quota 1 1, OpCreate ''b'' example_quota 1 1,
          OpAddTopic ''a'' ''t'' 2, OpAddTopic ''b'' ''t'' 2,
          OpAddACL ''b'' ''u'' ''t'' [ActionProduce] False 3]"
  obtain nsA nsB where "map_of (namespaces ?nm) ''a'' = Some nsA" "''t'' \<in> set (ns_Topics nsA)"
    "map_of (namespaces ?nm) ''b'' = Some nsB" "''a'' \<noteq> ''b''"
    by (simp add: ns_eval)
  from DeleteNamespace_lifts_other_acl [OF this]
  have "CheckPermission ''u'' ''t'' ActionProduce (snd (DeleteNamespace ''a'' ?nm)) = Inr True"
    by blast
  moreover have "CheckPermission ''u'' ''t'' ActionProduce ?nm = Inr False"
    by (simp add: ns_eval)
  ultimately show ?thesis by (simp only: Let_def simp_thms)
qed

end
