(* ===== verification/Idempotent.thy ===== *)
theory Idempotent
  imports Go_Prelude
begin

text \<open>
  Duplicate detection for producers, \<open>src/cluster/go/broker/idempotent/idempotent.go\<close>: the last
  sequence number of every producer, bounded by evicting the producer that was active longest ago. Shown:
  while a producer is remembered, what is accepted from it strictly increases and stays on one partition;
  the table never grows past its bound; an evicted producer's duplicate is accepted again.
\<close>

section \<open>Data\<close>

record ProducerState =
  LastSequenceNumber :: int
  LastActiveTime :: time
  ps_TopicPartition :: string

record IdempotentManager =
  producerState :: "(string, ProducerState) gomap"
  maxProducers :: int
  im_expireAfter :: int

datatype idem_error =
    BoundToOther string string string
  | SequenceTooLow int int

section \<open>Operations\<close>

definition NewIdempotentManager :: "int \<Rightarrow> int \<Rightarrow> IdempotentManager" where
  "NewIdempotentManager maxP expire = \<lparr>producerState = [], maxProducers = maxP, im_expireAfter = expire\<rparr>"

text \<open>One tick of \<open>cleanupExpired\<close>.\<close>

definition idem_cleanupExpired :: "time \<Rightarrow> IdempotentManager \<Rightarrow> IdempotentManager" where
  "idem_cleanupExpired now im =
     im\<lparr>producerState := filter (\<lambda>(pid, st). \<not> im_expireAfter im < now - LastActiveTime st) (producerState im)\<rparr>"

definition CheckAndRecord ::
    "((string \<times> ProducerState) list \<Rightarrow> (string \<times> ProducerState) list) \<Rightarrow> string \<Rightarrow> int \<Rightarrow> string \<Rightarrow> time \<Rightarrow>
     IdempotentManager \<Rightarrow> (idem_error + bool) \<times> IdempotentManager" where
  "CheckAndRecord ord pid seq topicPartition now im =
     (case map_of (producerState im) pid of
        None \<Rightarrow>
          let m = (if maxProducers im \<le> int (length (producerState im))
                   then evict_oldest LastActiveTime [] ord (producerState im) else producerState im);
              st = \<lparr>LastSequenceNumber = seq, LastActiveTime = now, ps_TopicPartition = topicPartition\<rparr>
          in (Inr True, im\<lparr>producerState := put pid st m\<rparr>)
      | Some st \<Rightarrow>
          if ps_TopicPartition st \<noteq> topicPartition
          then (Inl (BoundToOther pid (ps_TopicPartition st) topicPartition), im)
          else if seq < LastSequenceNumber st then (Inl (SequenceTooLow seq (LastSequenceNumber st)), im)
          else if seq = LastSequenceNumber st then (Inr False, im)
          else (Inr True, im\<lparr>producerState := put pid (st\<lparr>LastSequenceNumber := seq, LastActiveTime := now\<rparr>)
                                              (producerState im)\<rparr>))"

definition GetProducerState :: "string \<Rightarrow> IdempotentManager \<Rightarrow> ProducerState option" where
  "GetProducerState pid im = map_of (producerState im) pid"

definition RemoveProducer :: "string \<Rightarrow> IdempotentManager \<Rightarrow> IdempotentManager" where
  "RemoveProducer pid im = im\<lparr>producerState := del pid (producerState im)\<rparr>"

definition GetActiveProducers :: "IdempotentManager \<Rightarrow> nat" where
  "GetActiveProducers im = length (producerState im)"

section \<open>Runs\<close>

datatype idem_op =
    IdemCheck "(string \<times> ProducerState) list \<Rightarrow> (string \<times> ProducerState) list" string int string time
  | IdemTick time
  | IdemRemove string

fun idem_step :: "IdempotentManager \<Rightarrow> idem_op \<Rightarrow> IdempotentManager" where
  "idem_step im (IdemCheck ord pid seq tp now) = snd (CheckAndRecord ord pid seq tp now im)"
| "idem_step im (IdemTick now) = idem_cleanupExpired now im"
| "idem_step im (IdemRemove pid) = RemoveProducer pid im"

text \<open>A check happens at a time the clock can show and ranges over the map in some order.\<close>

fun idem_ok :: "idem_op \<Rightarrow> bool" where
  "idem_ok (IdemCheck ord pid seq tp now) \<longleftrightarrow> range_order ord \<and> 0 < now"
| "idem_ok _ \<longleftrightarrow> True"

definition idem_inv :: "IdempotentManager \<Rightarrow> bool" where
  "idem_inv im \<longleftrightarrow> gm_ok (producerState im) \<and> (\<forall>(pid, st) \<in> set (producerState im). 0 < LastActiveTime st)"

lemma idem_invD: "idem_inv im \<Longrightarrow> gm_ok (producerState im)"
  by (simp add: idem_inv_def)

lemma idem_inv_put:
  assumes "gm_ok m" and "\<forall>(pid, st) \<in> set m. 0 < LastActiveTime st" and "0 < LastActiveTime st'"
  shows "idem_inv (im\<lparr>producerState := put pid st' m\<rparr>)"
  using assms by (auto simp: idem_inv_def dest!: set_put_subset)

lemma idem_inv_CheckAndRecord:
  assumes "idem_inv im" and "0 < now"
  shows "idem_inv (snd (CheckAndRecord ord pid seq tp now im))"
proof -
  have "\<forall>(pid, st) \<in> set (evict_oldest LastActiveTime [] ord (producerState im)). 0 < LastActiveTime st"
    using assms(1) evict_oldest_subset [of LastActiveTime "[]" ord "producerState im"] by (auto simp: idem_inv_def)
  then have new: "idem_inv (im\<lparr>producerState := put pid st (if b then evict_oldest LastActiveTime [] ord (producerState im)
      else producerState im)\<rparr>)" if "0 < LastActiveTime st" for b st
    using assms(1) that by (intro idem_inv_put) (auto simp: idem_inv_def)
  show ?thesis
  proof (cases "map_of (producerState im) pid")
    case None
    then show ?thesis using new assms(2) by (simp add: CheckAndRecord_def Let_def)
  next
    case (Some st)
    then show ?thesis
      using assms new [of "st\<lparr>LastSequenceNumber := seq, LastActiveTime := now\<rparr>" False]
      by (simp add: CheckAndRecord_def)
  qed
qed

lemma idem_inv_step: "idem_inv im \<Longrightarrow> idem_ok op \<Longrightarrow> idem_inv (idem_step im op)"
proof (cases op)
  case (IdemTick now)
  then show "idem_inv im \<Longrightarrow> idem_inv (idem_step im op)"
    by (auto simp: idem_inv_def idem_cleanupExpired_def intro: distinct_map_filter)
next
  case (IdemRemove pid)
  then show "idem_inv im \<Longrightarrow> idem_inv (idem_step im op)"
    by (auto simp: idem_inv_def RemoveProducer_def dest: set_delete_subset)
qed (simp add: idem_inv_CheckAndRecord)

lemma maxProducers_step: "maxProducers (idem_step im op) = maxProducers im"
  by (cases op) (auto simp: idem_cleanupExpired_def RemoveProducer_def CheckAndRecord_def Let_def split: option.split)

lemma CheckAndRecord_length:
  assumes "idem_inv im" and "range_order ord" and le: "length (producerState im) \<le> max 1 (nat (maxProducers im))"
  shows "length (producerState (snd (CheckAndRecord ord pid seq tp now im))) \<le> max 1 (nat (maxProducers im))"
proof (cases "map_of (producerState im) pid")
  case None
  then show ?thesis
    using length_evict_put [OF _ assms(2) _ le, of LastActiveTime] assms(1)
    by (simp add: CheckAndRecord_def Let_def idem_inv_def)
next
  case (Some st)
  with le show ?thesis by (simp add: CheckAndRecord_def length_put_old)
qed

interpretation idem: bounded_machine idem_step idem_inv idem_ok "\<lambda>im. length (producerState im)"
    "\<lambda>im. nat (maxProducers im)"
proof unfold_locales
  fix im op assume "idem_inv im" "idem_ok op" "length (producerState im) \<le> max 1 (nat (maxProducers im))"
  then show "length (producerState (idem_step im op)) \<le> max 1 (nat (maxProducers im))"
  proof (cases op)
    case (IdemTick now)
    then show ?thesis using \<open>length (producerState im) \<le> _\<close>
      by (simp add: idem_cleanupExpired_def) (meson le_trans length_filter_le)
  next
    case (IdemRemove pid)
    then show ?thesis using \<open>length (producerState im) \<le> _\<close> length_del_le [of pid "producerState im"]
      by (simp add: RemoveProducer_def)
  next
    case (IdemCheck ord pid seq tp now)
    then show ?thesis using CheckAndRecord_length [of im ord] \<open>idem_inv im\<close> \<open>idem_ok op\<close> \<open>length (producerState im) \<le> _\<close>
      by simp
  qed
qed (simp_all add: idem_inv_step maxProducers_step)

lemma idem_inv_New: "idem_inv (NewIdempotentManager maxP expire)"
  by (simp add: idem_inv_def NewIdempotentManager_def)

text \<open>
  The table is bounded: after any operations, in any order and for every iteration order of the map, at
  most \<open>maxProducers\<close> producers are remembered (one, if the bound is not positive).
\<close>

theorem idempotent_table_bounded:
  assumes "list_all idem_ok ops"
  shows "GetActiveProducers (foldl idem_step (NewIdempotentManager maxP expire) ops) \<le> max 1 (nat maxP)"
  using idem.entries_run [OF idem_inv_New assms] by (simp add: GetActiveProducers_def NewIdempotentManager_def)

theorem idempotent_table_bounded_witness:
  "GetActiveProducers (foldl idem_step (NewIdempotentManager 1 10)
      [IdemCheck id ''p'' 1 ''t-0'' 5, IdemCheck id ''q'' 1 ''t-0'' 6]) \<le> 1"
  using idempotent_table_bounded [of "[IdemCheck id ''p'' 1 ''t-0'' 5, IdemCheck id ''q'' 1 ''t-0'' 6]" 1 10] by simp

section \<open>Sequence numbers only go up\<close>

text \<open>The producer is remembered in all states of a run.\<close>

fun remembered :: "string \<Rightarrow> IdempotentManager \<Rightarrow> idem_op list \<Rightarrow> bool" where
  "remembered pid im [] \<longleftrightarrow> has (producerState im) pid"
| "remembered pid im (op # ops) \<longleftrightarrow> has (producerState im) pid \<and> remembered pid (idem_step im op) ops"

text \<open>Every step keeps the partition of a producer and never lowers its sequence number.\<close>

definition advances :: "ProducerState \<Rightarrow> ProducerState \<Rightarrow> bool" where
  "advances st st' \<longleftrightarrow> LastSequenceNumber st \<le> LastSequenceNumber st' \<and> ps_TopicPartition st' = ps_TopicPartition st"

lemma advances_step:
  assumes "idem_inv im" and "map_of (producerState im) pid = Some st"
    and "map_of (producerState (idem_step im op)) pid = Some st'"
  shows "advances st st'"
proof (cases op)
  case (IdemCheck ord q seq tp now)
  show ?thesis
  proof (cases "map_of (producerState im) q")
    case None
    then have "q \<noteq> pid" using assms(2) by auto
    with None assms show ?thesis
      by (auto simp: IdemCheck CheckAndRecord_def Let_def evict_oldest_def advances_def split: if_splits)
  next
    case (Some sq)
    with assms show ?thesis
      by (auto simp: IdemCheck CheckAndRecord_def advances_def split: if_splits)
  qed
next
  case (IdemTick now)
  with assms(3) have "map_of (producerState im) pid = Some st'"
    using map_of_filter_distinct [OF idem_invD [OF assms(1)]] by (simp add: idem_cleanupExpired_def)
  with assms(2) show ?thesis by (simp add: advances_def)
next
  case (IdemRemove q)
  with assms show ?thesis by (auto simp: RemoveProducer_def advances_def split: if_splits)
qed

lemma advances_run:
  assumes "idem_inv im" and "list_all idem_ok ops" and "map_of (producerState im) pid = Some st"
    and "remembered pid im ops"
  shows "\<exists>st'. map_of (producerState (foldl idem_step im ops)) pid = Some st' \<and> advances st st'"
  using assms
proof (induction ops arbitrary: im st)
  case Nil
  then show ?case by (simp add: advances_def)
next
  case (Cons op ops)
  then obtain st1 where st1: "map_of (producerState (idem_step im op)) pid = Some st1"
    by (cases ops) auto
  have "idem_inv (idem_step im op)" using Cons.prems by (simp add: idem_inv_step)
  with Cons.IH [OF _ _ st1] Cons.prems obtain st' where
    "map_of (producerState (foldl idem_step im (op # ops))) pid = Some st'" "advances st1 st'" by auto
  moreover have "advances st st1" using advances_step [OF Cons.prems(1,3) st1] .
  ultimately show ?case by (auto simp: advances_def)
qed

lemma CheckAndRecord_accepted:
  assumes "CheckAndRecord ord pid seq tp now im = (Inr True, im')"
  shows "\<exists>st. map_of (producerState im') pid = Some st \<and> LastSequenceNumber st = seq \<and> ps_TopicPartition st = tp"
    and "map_of (producerState im) pid = Some st0 \<Longrightarrow> LastSequenceNumber st0 < seq \<and> ps_TopicPartition st0 = tp"
  using assms by (auto simp: CheckAndRecord_def Let_def split: option.splits if_splits)

text \<open>
  C12. No duplicates. If a message \<open>(pid, seq)\<close> was accepted and the producer has been remembered ever since
  (not evicted, expired or removed), then whatever else happened, the next accepted message of that
  producer has a larger sequence number and goes to the same partition; the same or a smaller number is
  never accepted again.
\<close>

theorem idempotent_no_duplicate:
  assumes "idem_inv im0" and "CheckAndRecord ord pid seq tp now im0 = (Inr True, im1)" and "0 < now"
    and "list_all idem_ok ops" and "remembered pid im1 ops"
    and "CheckAndRecord ord' pid seq' tp' now' (foldl idem_step im1 ops) = (Inr True, im2)"
  shows "seq < seq' \<and> tp' = tp"
proof -
  have "idem_inv im1" using idem_inv_CheckAndRecord [OF assms(1,3)] assms(2) by (metis snd_conv)
  moreover obtain st where st: "map_of (producerState im1) pid = Some st" "LastSequenceNumber st = seq"
    "ps_TopicPartition st = tp"
    using CheckAndRecord_accepted(1) [OF assms(2)] by auto
  ultimately obtain st' where "map_of (producerState (foldl idem_step im1 ops)) pid = Some st'" "advances st st'"
    using advances_run assms(4,5) by blast
  with CheckAndRecord_accepted(2) [OF assms(6)] st show ?thesis by (auto simp: advances_def)
qed

theorem idempotent_no_duplicate_witness:
  "let im1 = snd (CheckAndRecord id ''p'' 1 ''t-0'' 5 (NewIdempotentManager 10 100));
       im = foldl idem_step im1 [IdemCheck id ''p'' 1 ''t-0'' 6, IdemCheck id ''q'' 9 ''u-0'' 7]
   in fst (CheckAndRecord id ''p'' 1 ''t-0'' 8 im) = Inr False \<and>
      fst (CheckAndRecord id ''p'' 2 ''t-0'' 8 im) = Inr True \<and> (1::int) < 2"
proof -
  let ?im1 = "snd (CheckAndRecord id ''p'' 1 ''t-0'' 5 (NewIdempotentManager 10 100))"
  let ?ops = "[IdemCheck id ''p'' 1 ''t-0'' 6, IdemCheck id ''q'' 9 ''u-0'' 7]"
  note defs = CheckAndRecord_def NewIdempotentManager_def Let_def
  have "(1::int) < 2 \<and> ''t-0'' = ''t-0''"
    by (rule idempotent_no_duplicate [of "NewIdempotentManager 10 100" id "''p''" 1 "''t-0''" 5 ?im1 ?ops id 2 "''t-0''" 8
          "snd (CheckAndRecord id ''p'' 2 ''t-0'' 8 (foldl idem_step ?im1 ?ops))"])
      (simp_all add: idem_inv_New, simp_all add: defs)
  then show ?thesis by (simp add: defs)
qed

text \<open>
  Eviction forgets. When the table is full and the least recently active producer is \<open>pid\<close>, the first
  message of any new producer makes the manager forget \<open>pid\<close>: a retry of \<open>pid\<close>'s last message, a
  duplicate, is then accepted as new.
\<close>

theorem eviction_accepts_duplicate:
  assumes "idem_inv im" and "range_order ord"
    and "map_of (producerState im) pid = Some st" and "maxProducers im \<le> int (length (producerState im))"
    and "\<And>p s. p \<noteq> pid \<Longrightarrow> map_of (producerState im) p = Some s \<Longrightarrow> LastActiveTime st < LastActiveTime s"
    and "map_of (producerState im) q = None"
  shows "fst (CheckAndRecord ord' pid (LastSequenceNumber st) (ps_TopicPartition st) now'
           (snd (CheckAndRecord ord q seq tp now im))) = Inr True"
proof -
  let ?m = "producerState im"
  have s: "set (ord ?m) = set ?m" using assms(2) by (rule range_order_set)
  have in_m: "(pid, st) \<in> set ?m" using assms(3) by (rule map_of_SomeD)
  then have "ord ?m \<noteq> []" using s by (metis empty_iff list.set(1))
  moreover have "\<forall>(k, v) \<in> set (ord ?m). 0 < LastActiveTime v" using assms(1) s by (simp add: idem_inv_def)
  ultimately obtain v where v: "(fst (oldest_loop LastActiveTime [] 0 (ord ?m)), v) \<in> set ?m"
    "\<forall>(k', v') \<in> set ?m. LastActiveTime v \<le> LastActiveTime v'"
    using oldest_loop_oldest [of "ord ?m" LastActiveTime "[]"] s by auto
  have "fst (oldest_loop LastActiveTime [] 0 (ord ?m)) = pid"
  proof (rule ccontr)
    assume "fst (oldest_loop LastActiveTime [] 0 (ord ?m)) \<noteq> pid"
    moreover have "map_of ?m (fst (oldest_loop LastActiveTime [] 0 (ord ?m))) = Some v"
      using v(1) idem_invD [OF assms(1)] by simp
    ultimately have "LastActiveTime st < LastActiveTime v" by (rule assms(5))
    moreover have "LastActiveTime v \<le> LastActiveTime st" using v(2) in_m by auto
    ultimately show False by simp
  qed
  moreover have "q \<noteq> pid" using assms(3,6) by auto
  ultimately have "map_of (producerState (snd (CheckAndRecord ord q seq tp now im))) pid = None"
    using assms(4,6) by (simp add: CheckAndRecord_def Let_def evict_oldest_def)
  then show ?thesis by (simp add: CheckAndRecord_def Let_def)
qed

theorem eviction_accepts_duplicate_witness:
  "let im = snd (CheckAndRecord id ''p'' 7 ''t-0'' 5 (NewIdempotentManager 1 100))
   in fst (CheckAndRecord id ''p'' 7 ''t-0'' 6 im) = Inr False \<and>
      fst (CheckAndRecord id ''p'' 7 ''t-0'' 8 (snd (CheckAndRecord id ''q'' 1 ''t-0'' 6 im))) = Inr True"
proof -
  let ?im = "snd (CheckAndRecord id ''p'' 7 ''t-0'' 5 (NewIdempotentManager 1 100))"
  let ?st = "\<lparr>LastSequenceNumber = 7, LastActiveTime = 5, ps_TopicPartition = ''t-0''\<rparr>"
  have "producerState ?im = [(''p'', ?st)]" "maxProducers ?im = 1"
    by (simp_all add: CheckAndRecord_def NewIdempotentManager_def Let_def)
  then show ?thesis
    using eviction_accepts_duplicate [of ?im id "''p''" ?st "''q''" id 8 1 "''t-0''" 6]
    by (simp add: idem_inv_def) (simp add: CheckAndRecord_def)
qed

end
