(* ===== verification/Transactions.thy ===== *)
theory Transactions
  imports Go_Prelude "HOL-Library.Sublist"
begin

text \<open>
  Transactions of the broker, \<open>src/cluster/go/broker/transaction/transaction.go\<close>. A \<open>*Transaction\<close> is an
  index into \<open>heap\<close>, because \<open>transactions\<close> and \<open>pendingTxns\<close> share the objects. Shown: the life of a
  transaction and of its messages, the bound of the table, and what eviction leaves behind.
\<close>

section \<open>Data\<close>

datatype TransactionState =
    TransactionPending | TransactionPrepared | TransactionCommitted | TransactionRolledBack | TransactionUnknown

record TransactionMessage =
  tm_Topic :: string
  tm_Partition :: int
  tm_Data :: "byte list"
  tm_Offset :: int

record Transaction =
  txn_ID :: string
  txn_State :: TransactionState
  txn_Messages :: "TransactionMessage list"
  txn_ProducerID :: string
  StartTime :: time
  PrepareTime :: time
  CommitTime :: time
  RollbackTime :: time

record TransactionManager =
  heap :: "Transaction list"
  transactions :: "(string, nat) gomap"
  pendingTxns :: "(string, nat list) gomap"
  maxTransactions :: int
  tm_expireAfter :: int

datatype txn_error =
    TxnNotFound string
  | CannotAddMessage TransactionState
  | CannotPrepare TransactionState
  | EmptyTransaction
  | CannotCommit TransactionState
  | CannotRollback TransactionState

section \<open>Operations\<close>

definition NewTransactionManager :: "int \<Rightarrow> int \<Rightarrow> TransactionManager" where
  "NewTransactionManager maxT expire =
     \<lparr>heap = [], transactions = [], pendingTxns = [], maxTransactions = maxT, tm_expireAfter = expire\<rparr>"

definition active :: "Transaction \<Rightarrow> bool" where
  "active txn \<longleftrightarrow> txn_State txn = TransactionPending \<or> txn_State txn = TransactionPrepared"

text \<open>\<open>txn.f = v\<close> for the object at \<open>ref\<close>.\<close>

definition upd_txn :: "nat \<Rightarrow> (Transaction \<Rightarrow> Transaction) \<Rightarrow> TransactionManager \<Rightarrow> TransactionManager" where
  "upd_txn ref f tm = tm\<lparr>heap := (heap tm)[ref := f (heap tm ! ref)]\<rparr>"

text \<open>One tick of \<open>cleanupExpired\<close>.\<close>

definition expire_txn :: "time \<Rightarrow> int \<Rightarrow> Transaction \<Rightarrow> Transaction" where
  "expire_txn now expire txn =
     (if expire < now - StartTime txn \<and> active txn
      then txn\<lparr>txn_State := TransactionRolledBack, RollbackTime := now\<rparr> else txn)"

definition txn_cleanupExpired :: "time \<Rightarrow> TransactionManager \<Rightarrow> TransactionManager" where
  "txn_cleanupExpired now tm =
     foldl (\<lambda>tm' (id, ref). upd_txn ref (expire_txn now (tm_expireAfter tm)) tm') tm (transactions tm)"

text \<open>\<open>BeginTransaction\<close> reads the clock twice, for the id and for the start time.\<close>

definition BeginTransaction ::
    "((string \<times> nat) list \<Rightarrow> (string \<times> nat) list) \<Rightarrow> string \<Rightarrow> time \<Rightarrow> time \<Rightarrow> TransactionManager \<Rightarrow>
     string \<times> TransactionManager" where
  "BeginTransaction ord producerID nowId nowStart tm =
     (let m = (if maxTransactions tm \<le> int (length (transactions tm))
               then evict_oldest (\<lambda>ref. StartTime (heap tm ! ref)) [] ord (transactions tm) else transactions tm);
          txnID = producerID @ ''-'' @ itoa (UnixNano nowId);
          txn = \<lparr>txn_ID = txnID, txn_State = TransactionPending, txn_Messages = [], txn_ProducerID = producerID,
                 StartTime = nowStart, PrepareTime = 0, CommitTime = 0, RollbackTime = 0\<rparr>;
          ref = length (heap tm);
          old = (case map_of (pendingTxns tm) producerID of None \<Rightarrow> [] | Some refs \<Rightarrow> refs)
      in (txnID, tm\<lparr>heap := heap tm @ [txn], transactions := put txnID ref m,
                    pendingTxns := put producerID (old @ [ref]) (pendingTxns tm)\<rparr>))"

definition AddMessage ::
    "string \<Rightarrow> string \<Rightarrow> int \<Rightarrow> byte list \<Rightarrow> TransactionManager \<Rightarrow> (txn_error + unit) \<times> TransactionManager" where
  "AddMessage txnID topic part data tm =
     (case map_of (transactions tm) txnID of
        None \<Rightarrow> (Inl (TxnNotFound txnID), tm)
      | Some ref \<Rightarrow>
          let txn = heap tm ! ref
          in if txn_State txn \<noteq> TransactionPending then (Inl (CannotAddMessage (txn_State txn)), tm)
             else let msg = \<lparr>tm_Topic = topic, tm_Partition = part, tm_Data = data, tm_Offset = 0\<rparr>
                  in (Inr (), upd_txn ref (\<lambda>txn. txn\<lparr>txn_Messages := txn_Messages txn @ [msg]\<rparr>) tm))"

definition Prepare :: "string \<Rightarrow> time \<Rightarrow> TransactionManager \<Rightarrow> (txn_error + unit) \<times> TransactionManager" where
  "Prepare txnID now tm =
     (case map_of (transactions tm) txnID of
        None \<Rightarrow> (Inl (TxnNotFound txnID), tm)
      | Some ref \<Rightarrow>
          let txn = heap tm ! ref
          in if txn_State txn \<noteq> TransactionPending then (Inl (CannotPrepare (txn_State txn)), tm)
             else if txn_Messages txn = [] then (Inl EmptyTransaction, tm)
             else (Inr (), upd_txn ref (\<lambda>txn. txn\<lparr>txn_State := TransactionPrepared, PrepareTime := now\<rparr>) tm))"

definition Commit ::
    "string \<Rightarrow> time \<Rightarrow> TransactionManager \<Rightarrow> (txn_error + TransactionMessage list) \<times> TransactionManager" where
  "Commit txnID now tm =
     (case map_of (transactions tm) txnID of
        None \<Rightarrow> (Inl (TxnNotFound txnID), tm)
      | Some ref \<Rightarrow>
          let txn = heap tm ! ref
          in if txn_State txn \<noteq> TransactionPrepared then (Inl (CannotCommit (txn_State txn)), tm)
             else (Inr (txn_Messages txn),
                   upd_txn ref (\<lambda>txn. txn\<lparr>txn_State := TransactionCommitted, CommitTime := now\<rparr>) tm))"

definition Rollback :: "string \<Rightarrow> time \<Rightarrow> TransactionManager \<Rightarrow> (txn_error + unit) \<times> TransactionManager" where
  "Rollback txnID now tm =
     (case map_of (transactions tm) txnID of
        None \<Rightarrow> (Inl (TxnNotFound txnID), tm)
      | Some ref \<Rightarrow>
          let txn = heap tm ! ref
          in if \<not> active txn then (Inl (CannotRollback (txn_State txn)), tm)
             else (Inr (), upd_txn ref (\<lambda>txn. txn\<lparr>txn_State := TransactionRolledBack, RollbackTime := now\<rparr>) tm))"

definition GetTransaction :: "string \<Rightarrow> TransactionManager \<Rightarrow> Transaction option" where
  "GetTransaction txnID tm = map_option (\<lambda>ref. heap tm ! ref) (map_of (transactions tm) txnID)"

definition GetProducerTransactions :: "string \<Rightarrow> TransactionManager \<Rightarrow> Transaction list" where
  "GetProducerTransactions producerID tm =
     (case map_of (pendingTxns tm) producerID of
        None \<Rightarrow> []
      | Some refs \<Rightarrow> filter active (map (\<lambda>ref. heap tm ! ref) refs))"

definition GetActiveTransactions :: "TransactionManager \<Rightarrow> nat" where
  "GetActiveTransactions tm = length (filter (\<lambda>(id, ref). active (heap tm ! ref)) (transactions tm))"

section \<open>Runs and the invariant\<close>

datatype txn_op =
    TBegin "(string \<times> nat) list \<Rightarrow> (string \<times> nat) list" string time time
  | TAdd string string int "byte list"
  | TPrepare string time
  | TCommit string time
  | TRollback string time
  | TTick time

fun txn_step :: "TransactionManager \<Rightarrow> txn_op \<Rightarrow> TransactionManager" where
  "txn_step tm (TBegin ord p t1 t2) = snd (BeginTransaction ord p t1 t2 tm)"
| "txn_step tm (TAdd tid topic part data) = snd (AddMessage tid topic part data tm)"
| "txn_step tm (TPrepare tid now) = snd (Prepare tid now tm)"
| "txn_step tm (TCommit tid now) = snd (Commit tid now tm)"
| "txn_step tm (TRollback tid now) = snd (Rollback tid now tm)"
| "txn_step tm (TTick now) = txn_cleanupExpired now tm"

fun txn_ok :: "txn_op \<Rightarrow> bool" where
  "txn_ok (TBegin ord p t1 t2) \<longleftrightarrow> range_order ord \<and> 0 < t2"
| "txn_ok _ \<longleftrightarrow> True"

definition txn_wf :: "Transaction \<Rightarrow> bool" where
  "txn_wf txn \<longleftrightarrow> 0 < StartTime txn \<and>
     (txn_State txn = TransactionPrepared \<or> txn_State txn = TransactionCommitted \<longrightarrow> txn_Messages txn \<noteq> [])"

definition txn_inv :: "TransactionManager \<Rightarrow> bool" where
  "txn_inv tm \<longleftrightarrow> gm_ok (transactions tm) \<and> (\<forall>ref \<in> snd ` set (transactions tm). ref < length (heap tm)) \<and>
     (\<forall>txn \<in> set (heap tm). txn_wf txn)"

lemma upd_txn_simps [simp]:
  "transactions (upd_txn ref f tm) = transactions tm" "pendingTxns (upd_txn ref f tm) = pendingTxns tm"
  "maxTransactions (upd_txn ref f tm) = maxTransactions tm" "tm_expireAfter (upd_txn ref f tm) = tm_expireAfter tm"
  "length (heap (upd_txn ref f tm)) = length (heap tm)"
  by (simp_all add: upd_txn_def)

lemma heap_upd_txn: "i < length (heap tm) \<Longrightarrow> heap (upd_txn ref f tm) ! i = (if i = ref then f (heap tm ! i) else heap tm ! i)"
  by (simp add: upd_txn_def nth_list_update)

lemma txn_inv_upd:
  assumes "txn_inv tm" and "ref < length (heap tm) \<Longrightarrow> txn_wf (f (heap tm ! ref))"
  shows "txn_inv (upd_txn ref f tm)"
proof (cases "ref < length (heap tm)")
  case True
  have "txn_wf txn" if "txn \<in> set ((heap tm)[ref := f (heap tm ! ref)])" for txn
    using that assms True set_update_subset_insert [of "heap tm" ref "f (heap tm ! ref)"]
    by (auto simp: txn_inv_def)
  then show ?thesis using assms(1) by (simp add: txn_inv_def upd_txn_def)
next
  case False
  then show ?thesis using assms(1) by (simp add: upd_txn_def txn_inv_def list_update_beyond)
qed

lemma txn_inv_wf: "txn_inv tm \<Longrightarrow> ref < length (heap tm) \<Longrightarrow> txn_wf (heap tm ! ref)"
  by (simp add: txn_inv_def)

lemma txn_inv_ref: "txn_inv tm \<Longrightarrow> map_of (transactions tm) tid = Some ref \<Longrightarrow> ref < length (heap tm)"
  by (force simp: txn_inv_def dest: map_of_SomeD)

text \<open>A tick of the clean-up is a sequence of updates.\<close>

lemma txn_tick_induct:
  assumes "P tm" and "\<And>ref tm'. P tm' \<Longrightarrow> P (upd_txn ref (expire_txn now e) tm')"
  shows "P (foldl (\<lambda>tm' (id, ref). upd_txn ref (expire_txn now e) tm') tm ts)"
  using assms(1) by (induction ts arbitrary: tm) (auto intro: assms(2))

lemma txn_wf_expire: "txn_wf txn \<Longrightarrow> txn_wf (expire_txn now e txn)"
  by (simp add: expire_txn_def txn_wf_def)

lemma txn_inv_Begin:
  assumes "txn_inv tm" and "0 < t2"
  shows "txn_inv (snd (BeginTransaction ord p t1 t2 tm))"
proof -
  let ?e = "evict_oldest (\<lambda>ref. StartTime (heap tm ! ref)) [] ord (transactions tm)"
  have sub: "set ?e \<subseteq> set (transactions tm)" by (rule evict_oldest_subset)
  define m where "m = (if maxTransactions tm \<le> int (length (transactions tm)) then ?e else transactions tm)"
  have m: "gm_ok m" "set m \<subseteq> set (transactions tm)" using assms(1) sub by (auto simp: m_def txn_inv_def)
  have "ref < Suc (length (heap tm))" if "ref \<in> snd ` set (put k (length (heap tm)) m)" for ref k
    using that m(2) assms(1) by (fastforce simp: txn_inv_def dest!: set_put_subset)
  with m(1) assms show ?thesis by (auto simp: BeginTransaction_def Let_def txn_inv_def txn_wf_def m_def [symmetric])
qed

lemma txn_inv_step: "txn_inv tm \<Longrightarrow> txn_ok op \<Longrightarrow> txn_inv (txn_step tm op)"
proof (cases op)
  case (TTick now)
  assume inv: "txn_inv tm"
  show "txn_inv (txn_step tm op)" unfolding TTick txn_step.simps txn_cleanupExpired_def
    by (rule txn_tick_induct [where P = txn_inv, OF inv]) (auto intro!: txn_inv_upd txn_wf_expire txn_inv_wf)
next
  case (TAdd tid topic part data)
  assume "txn_inv tm"
  then show "txn_inv (txn_step tm op)"
    by (auto simp: TAdd AddMessage_def Let_def txn_wf_def split: option.split intro!: txn_inv_upd dest: txn_inv_wf)
next
  case (TPrepare tid now)
  assume "txn_inv tm"
  then show "txn_inv (txn_step tm op)"
    by (auto simp: TPrepare Prepare_def Let_def txn_wf_def split: option.split intro!: txn_inv_upd dest: txn_inv_wf)
next
  case (TCommit tid now)
  assume "txn_inv tm"
  then show "txn_inv (txn_step tm op)"
    by (auto simp: TCommit Commit_def Let_def txn_wf_def split: option.split intro!: txn_inv_upd dest: txn_inv_wf)
next
  case (TRollback tid now)
  assume "txn_inv tm"
  then show "txn_inv (txn_step tm op)"
    by (auto simp: TRollback Rollback_def Let_def txn_wf_def split: option.split intro!: txn_inv_upd dest: txn_inv_wf)
qed (simp add: txn_inv_Begin)

section \<open>The life of a transaction\<close>

fun rank :: "TransactionState \<Rightarrow> nat" where
  "rank TransactionPending = 0"
| "rank TransactionPrepared = 1"
| "rank _ = 2"

text \<open>What may happen to state and messages: a pending transaction collects messages at the end; once it is
  prepared the messages are fixed; committed and rolled back are final.\<close>

type_synonym txn_status = "TransactionState \<times> TransactionMessage list"

definition evolves :: "txn_status \<Rightarrow> txn_status \<Rightarrow> bool" where
  "evolves a b \<longleftrightarrow> rank (fst a) \<le> rank (fst b) \<and> (rank (fst a) = 2 \<longrightarrow> fst b = fst a) \<and>
     (if fst a = TransactionPending then prefix (snd a) (snd b) else snd b = snd a)"

definition txn_status_of :: "Transaction \<Rightarrow> txn_status" where
  "txn_status_of txn = (txn_State txn, txn_Messages txn)"

definition status_at :: "TransactionManager \<Rightarrow> nat \<Rightarrow> txn_status option" where
  "status_at tm ref = (if ref < length (heap tm) then Some (txn_status_of (heap tm ! ref)) else None)"

lemma rank_simps: "rank s = 0 \<longleftrightarrow> s = TransactionPending" "rank s = 1 \<longleftrightarrow> s = TransactionPrepared" "rank s \<le> 2"
  by (cases s; simp)+

lemma evolves_refl: "evolves a a"
  by (simp add: evolves_def)

lemma evolves_trans: "evolves a b \<Longrightarrow> evolves b c \<Longrightarrow> evolves a c"
  by (auto simp: evolves_def rank_simps(1) split: if_splits intro: prefix_order.trans)

declare split_paired_Ex [simp del]

lemma evolves_upd:
  assumes "status_at tm i = Some x" and "i = ref \<Longrightarrow> evolves x (txn_status_of (f (heap tm ! ref)))"
  shows "\<exists>y. status_at (upd_txn ref f tm) i = Some y \<and> evolves x y"
  using assms by (auto simp: status_at_def heap_upd_txn evolves_refl split: if_splits)

lemma evolves_tick:
  assumes "status_at tm i = Some x"
  shows "\<exists>y. status_at (txn_cleanupExpired now tm) i = Some y \<and> evolves x y"
proof -
  have step: "\<exists>y. status_at (upd_txn ref (expire_txn now e) tm') i = Some y \<and> evolves z y"
    if "status_at tm' i = Some z" for tm' z ref e
    by (rule evolves_upd [OF that])
      (use that in \<open>auto simp: status_at_def txn_status_of_def expire_txn_def active_def evolves_def split: if_splits\<close>)
  show ?thesis unfolding txn_cleanupExpired_def
    by (rule txn_tick_induct [where P = "\<lambda>tm'. \<exists>y. status_at tm' i = Some y \<and> evolves x y"])
      (use assms evolves_refl step evolves_trans in blast)+
qed

lemma evolves_step:
  assumes "status_at tm i = Some x"
  shows "\<exists>y. status_at (txn_step tm op) i = Some y \<and> evolves x y"
proof (cases op)
  case (TTick now)
  then show ?thesis using evolves_tick [OF assms] by simp
next
  case (TBegin ord p t1 t2)
  then show ?thesis using assms
    by (auto simp: BeginTransaction_def Let_def status_at_def nth_append evolves_refl split: if_splits)
next
  case (TAdd tid topic part data)
  then show ?thesis using assms evolves_refl [of x]
    by (auto simp: AddMessage_def Let_def split: option.split
        intro!: evolves_upd [OF assms]) (auto simp: status_at_def txn_status_of_def evolves_def split: if_splits)
next
  case (TPrepare tid now)
  then show ?thesis using assms evolves_refl [of x]
    by (auto simp: Prepare_def Let_def split: option.split
        intro!: evolves_upd [OF assms]) (auto simp: status_at_def txn_status_of_def evolves_def split: if_splits)
next
  case (TCommit tid now)
  then show ?thesis using assms evolves_refl [of x]
    by (auto simp: Commit_def Let_def split: option.split
        intro!: evolves_upd [OF assms]) (auto simp: status_at_def txn_status_of_def evolves_def split: if_splits)
next
  case (TRollback tid now)
  then show ?thesis using assms evolves_refl [of x]
    by (auto simp: Rollback_def Let_def active_def split: option.split
        intro!: evolves_upd [OF assms]) (auto simp: status_at_def txn_status_of_def evolves_def split: if_splits)
qed

interpretation txns: lifecycle_machine txn_step txn_inv txn_ok status_at evolves
  by unfold_locales (auto simp: txn_inv_step evolves_refl evolves_step intro: evolves_trans)

text \<open>
  C11. The life of a transaction. Over any run, an object that is prepared keeps its messages, a pending one
  only gets messages appended, the state never goes back, and committed or rolled back is final.
\<close>

theorem transaction_lifecycle:
  assumes "txn_inv tm" and "list_all txn_ok ops" and "ref < length (heap tm)"
  shows "let tm' = foldl txn_step tm ops
    in ref < length (heap tm') \<and> evolves (txn_status_of (heap tm ! ref)) (txn_status_of (heap tm' ! ref))"
  using txns.status_run [OF assms(1,2), of ref] assms(3) by (auto simp: Let_def status_at_def split: if_splits)

definition txn_demo :: TransactionManager where
  "txn_demo = foldl txn_step (NewTransactionManager 2 100) [TBegin id ''p'' 62135596800000000001 62135596800000000001]"

lemma itoa_1: "itoa 1 = ''1''"
  by code_simp

lemma txn_demo_eq:
  "heap txn_demo = [\<lparr>txn_ID = ''p-1'', txn_State = TransactionPending, txn_Messages = [], txn_ProducerID = ''p'',
      StartTime = 62135596800000000001, PrepareTime = 0, CommitTime = 0, RollbackTime = 0\<rparr>]"
  "transactions txn_demo = [(''p-1'', 0)]" "pendingTxns txn_demo = [(''p'', [0])]" "maxTransactions txn_demo = 2"
  "tm_expireAfter txn_demo = 100"
  by (simp_all add: txn_demo_def BeginTransaction_def NewTransactionManager_def Let_def UnixNano_def Second_def
      Millisecond_def itoa_1)

lemma txn_demo_inv: "txn_inv txn_demo"
  by (simp add: txn_inv_def txn_demo_eq txn_wf_def)

lemmas txn_eval = AddMessage_def Prepare_def Commit_def Rollback_def BeginTransaction_def upd_txn_def active_def Let_def

theorem transaction_lifecycle_witness:
  "let tm' = foldl txn_step txn_demo [TAdd ''p-1'' ''t'' 0 [1], TPrepare ''p-1'' 5, TAdd ''p-1'' ''t'' 0 [2], TRollback ''p-1'' 6,
                                      TCommit ''p-1'' 7]
   in txn_State (heap tm' ! 0) = TransactionRolledBack \<and> length (txn_Messages (heap tm' ! 0)) = 1 \<and>
      evolves (txn_status_of (heap txn_demo ! 0)) (txn_status_of (heap tm' ! 0))"
proof -
  let ?ops = "[TAdd ''p-1'' ''t'' 0 [1], TPrepare ''p-1'' 5, TAdd ''p-1'' ''t'' 0 [2], TRollback ''p-1'' 6, TCommit ''p-1'' 7]"
  have "list_all txn_ok ?ops" "0 < length (heap txn_demo)" by (simp_all add: txn_demo_eq)
  from transaction_lifecycle [OF txn_demo_inv this] show ?thesis
    by (simp add: Let_def) (simp add: txn_eval txn_demo_eq)
qed

lemma Commit_ok:
  assumes "Commit tid now tm = (Inr ms, tm')"
  shows "\<exists>ref. map_of (transactions tm) tid = Some ref \<and> txn_State (heap tm ! ref) = TransactionPrepared \<and>
    ms = txn_Messages (heap tm ! ref)"
  using assms by (auto simp: Commit_def Let_def split: option.splits if_splits)

lemma Prepare_ok:
  assumes "Prepare tid now tm = (Inr (), tm1)" and "txn_inv tm"
  shows "\<exists>ref. map_of (transactions tm) tid = Some ref \<and> txn_Messages (heap tm ! ref) \<noteq> [] \<and>
    ref < length (heap tm1) \<and> txn_status_of (heap tm1 ! ref) = (TransactionPrepared, txn_Messages (heap tm ! ref))"
  using assms(1) txn_inv_ref [OF assms(2)]
  by (auto simp: Prepare_def Let_def heap_upd_txn txn_status_of_def split: option.splits if_splits)

text \<open>
  A commit delivers what was prepared. If \<open>Prepare\<close> succeeded and, after anything else happened, \<open>Commit\<close>
  succeeds on the same transaction object, the messages it returns are exactly those the transaction held when
  it was prepared, and there is at least one.
\<close>

theorem commit_returns_prepared:
  assumes "txn_inv tm" and "Prepare tid now tm = (Inr (), tm1)" and "list_all txn_ok ops"
    and "Commit tid now' (foldl txn_step tm1 ops) = (Inr ms, tm2)"
    and "map_of (transactions (foldl txn_step tm1 ops)) tid = map_of (transactions tm) tid"
  shows "ms \<noteq> [] \<and> map_option txn_Messages (GetTransaction tid tm) = Some ms"
proof -
  obtain ref where ref: "map_of (transactions tm) tid = Some ref" "txn_Messages (heap tm ! ref) \<noteq> []"
    "ref < length (heap tm1)" "txn_status_of (heap tm1 ! ref) = (TransactionPrepared, txn_Messages (heap tm ! ref))"
    using Prepare_ok [OF assms(2,1)] by auto
  have "txn_inv tm1" using txn_inv_step [OF assms(1), of "TPrepare tid now"] assms(2) by simp
  then obtain y where y: "status_at (foldl txn_step tm1 ops) ref = Some y" "evolves (txn_status_of (heap tm1 ! ref)) y"
    using txns.status_run [of tm1 ops ref] assms(3) ref(3) by (auto simp: status_at_def)
  have "ms = txn_Messages (heap (foldl txn_step tm1 ops) ! ref)"
    using Commit_ok [OF assms(4)] assms(5) ref(1) by auto
  then have "ms = txn_Messages (heap tm ! ref)"
    using y ref(4) by (auto simp: status_at_def evolves_def txn_status_of_def split: if_splits)
  with ref show ?thesis by (simp add: GetTransaction_def)
qed

theorem commit_returns_prepared_witness:
  "let tm = snd (AddMessage ''p-1'' ''t'' 0 [7] txn_demo); tm1 = snd (Prepare ''p-1'' 5 tm);
       tm2 = foldl txn_step tm1 [TAdd ''p-1'' ''t'' 0 [8]]
   in \<exists>m. fst (Commit ''p-1'' 6 tm2) = Inr [m] \<and> tm_Data m = [7] \<and> map_option txn_Messages (GetTransaction ''p-1'' tm) = Some [m]"
proof -
  let ?tm = "snd (AddMessage ''p-1'' ''t'' 0 [7] txn_demo)"
  let ?m = "\<lparr>tm_Topic = ''t'', tm_Partition = 0, tm_Data = [7], tm_Offset = 0\<rparr>"
  have "txn_inv ?tm" using txn_inv_step [OF txn_demo_inv, of "TAdd ''p-1'' ''t'' 0 [7]"] by simp
  moreover have "Prepare ''p-1'' 5 ?tm = (Inr (), snd (Prepare ''p-1'' 5 ?tm))" by (simp add: txn_eval txn_demo_eq)
  moreover have "list_all txn_ok [TAdd ''p-1'' ''t'' 0 [8]]" by simp
  moreover have "Commit ''p-1'' 6 (foldl txn_step (snd (Prepare ''p-1'' 5 ?tm)) [TAdd ''p-1'' ''t'' 0 [8]]) =
      (Inr [?m], snd (Commit ''p-1'' 6 (foldl txn_step (snd (Prepare ''p-1'' 5 ?tm)) [TAdd ''p-1'' ''t'' 0 [8]])))"
    "map_of (transactions (foldl txn_step (snd (Prepare ''p-1'' 5 ?tm)) [TAdd ''p-1'' ''t'' 0 [8]])) ''p-1'' =
     map_of (transactions ?tm) ''p-1''"
    by (simp_all add: txn_eval txn_demo_eq)
  ultimately have "[?m] \<noteq> [] \<and> map_option txn_Messages (GetTransaction ''p-1'' ?tm) = Some [?m]"
    by (rule commit_returns_prepared)
  then show ?thesis by (simp add: txn_eval txn_demo_eq)
qed

section \<open>Bound and eviction\<close>

lemma transactions_tick [simp]: "transactions (txn_cleanupExpired now tm) = transactions tm"
  "maxTransactions (txn_cleanupExpired now tm) = maxTransactions tm"
  "pendingTxns (txn_cleanupExpired now tm) = pendingTxns tm"
proof -
  have "transactions t = transactions tm \<and> maxTransactions t = maxTransactions tm \<and> pendingTxns t = pendingTxns tm"
    if "t = txn_cleanupExpired now tm" for t
    unfolding that txn_cleanupExpired_def
    by (rule txn_tick_induct [where P = "\<lambda>t. transactions t = transactions tm \<and>
          maxTransactions t = maxTransactions tm \<and> pendingTxns t = pendingTxns tm"]) simp_all
  then show "transactions (txn_cleanupExpired now tm) = transactions tm"
    "maxTransactions (txn_cleanupExpired now tm) = maxTransactions tm"
    "pendingTxns (txn_cleanupExpired now tm) = pendingTxns tm" by simp_all
qed

lemma maxTransactions_step: "maxTransactions (txn_step tm op) = maxTransactions tm"
  by (cases op) (auto simp: txn_eval split: option.split)

lemma Begin_length:
  assumes "txn_inv tm" and "range_order ord" and le: "length (transactions tm) \<le> max 1 (nat (maxTransactions tm))"
  shows "length (transactions (snd (BeginTransaction ord p t1 t2 tm))) \<le> max 1 (nat (maxTransactions tm))"
proof -
  have "0 < StartTime (heap tm ! ref)" if "(k, ref) \<in> set (transactions tm)" for k ref
    using that assms(1) txn_inv_wf [OF assms(1), of ref] by (force simp: txn_inv_def txn_wf_def)
  then have "\<forall>(k, ref) \<in> set (transactions tm). 0 < StartTime (heap tm ! ref)" by blast
  moreover have "gm_ok (transactions tm)" using assms(1) by (simp add: txn_inv_def)
  ultimately show ?thesis
    using length_evict_put [OF _ assms(2) _ le, of "\<lambda>ref. StartTime (heap tm ! ref)"]
    unfolding BeginTransaction_def Let_def by simp
qed

interpretation txnb: bounded_machine txn_step txn_inv txn_ok "\<lambda>tm. length (transactions tm)"
    "\<lambda>tm. nat (maxTransactions tm)"
proof unfold_locales
  fix tm op assume "txn_inv tm" "txn_ok op" "length (transactions tm) \<le> max 1 (nat (maxTransactions tm))"
  then show "length (transactions (txn_step tm op)) \<le> max 1 (nat (maxTransactions tm))"
  proof (cases op)
    case (TBegin ord p t1 t2)
    then show ?thesis using Begin_length [of tm ord] \<open>txn_inv tm\<close> \<open>txn_ok op\<close> \<open>length (transactions tm) \<le> _\<close> by simp
  qed (auto simp: AddMessage_def Prepare_def Commit_def Rollback_def Let_def split: option.split)
qed (simp_all add: maxTransactions_step)

lemma transaction_table_bounded:
  "list_all txn_ok ops \<Longrightarrow>
   length (transactions (foldl txn_step (NewTransactionManager maxT expire) ops)) \<le> max 1 (nat maxT)"
  using txnb.entries_run [of "NewTransactionManager maxT expire" ops]
  by (simp add: NewTransactionManager_def txn_inv_def)

text \<open>
  Eviction drops live transactions. When the table is full, \<open>BeginTransaction\<close> forgets the oldest
  transaction whatever its state; a prepared one can then neither be committed nor rolled back, while
  \<open>GetProducerTransactions\<close> goes on listing it as open.
\<close>

theorem evicted_transaction_stuck:
  assumes "txn_inv tm" and "range_order ord" and "maxTransactions tm \<le> int (length (transactions tm))"
    and "map_of (transactions tm) tid = Some ref" and "active (heap tm ! ref)"
    and "\<And>k r. k \<noteq> tid \<Longrightarrow> map_of (transactions tm) k = Some r \<Longrightarrow> StartTime (heap tm ! ref) < StartTime (heap tm ! r)"
    and "map_of (pendingTxns tm) p = Some refs" and "ref \<in> set refs"
    and "BeginTransaction ord q t1 t2 tm = (tid', tm')" and "tid' \<noteq> tid"
  shows "fst (Commit tid now tm') = Inl (TxnNotFound tid) \<and> fst (Rollback tid now tm') = Inl (TxnNotFound tid) \<and>
    heap tm ! ref \<in> set (GetProducerTransactions p tm')"
proof -
  let ?m = "transactions tm" and ?ts = "\<lambda>ref. StartTime (heap tm ! ref)"
  let ?o = "fst (oldest_loop ?ts [] 0 (ord ?m))"
  have s: "set (ord ?m) = set ?m" using assms(2) by (rule range_order_set)
  have in_m: "(tid, ref) \<in> set ?m" using assms(4) by (rule map_of_SomeD)
  then have "ord ?m \<noteq> []" using s by (metis empty_iff list.set(1))
  moreover have "\<forall>(k, v) \<in> set (ord ?m). 0 < ?ts v"
    using s assms(1) txn_inv_wf [OF assms(1)] by (force simp: txn_inv_def txn_wf_def)
  ultimately obtain v where v: "(?o, v) \<in> set ?m" "\<forall>(k', v') \<in> set ?m. ?ts v \<le> ?ts v'"
    using oldest_loop_oldest [of "ord ?m" ?ts "[]"] s by auto
  have "?o = tid"
  proof (rule ccontr)
    assume "?o \<noteq> tid"
    then have "?ts ref < ?ts v" using assms(1) v(1) by (intro assms(6)) (auto simp: txn_inv_def)
    with v(2) in_m show False by fastforce
  qed
  moreover have ref: "ref < length (heap tm)" using txn_inv_ref [OF assms(1,4)] .
  ultimately have none: "map_of (transactions tm') tid = None" and h: "heap tm' ! ref = heap tm ! ref"
    and "\<exists>refs'. map_of (pendingTxns tm') p = Some refs' \<and> set refs \<subseteq> set refs'"
    using assms(3,7,9,10) by (auto simp: BeginTransaction_def Let_def evict_oldest_def nth_append)
  then obtain refs' where "map_of (pendingTxns tm') p = Some refs'" "ref \<in> set refs'" using assms(8) by auto
  with h have "heap tm ! ref \<in> set (GetProducerTransactions p tm')"
    using assms(5) by (auto simp: GetProducerTransactions_def image_iff) (metis h)
  with none show ?thesis by (simp add: Commit_def Rollback_def)
qed

definition txn_full :: TransactionManager where
  "txn_full = txn_demo\<lparr>maxTransactions := 1\<rparr>"

lemma itoa_2: "itoa 2 = ''2''"
  by code_simp

theorem evicted_transaction_stuck_witness:
  "let tm' = snd (BeginTransaction id ''q'' 62135596800000000002 62135596800000000002 txn_full)
   in fst (Commit ''p-1'' 5 tm') = Inl (TxnNotFound ''p-1'') \<and> fst (Rollback ''p-1'' 5 tm') = Inl (TxnNotFound ''p-1'') \<and>
      heap txn_full ! 0 \<in> set (GetProducerTransactions ''p'' tm')"
proof -
  have "txn_inv txn_full" using txn_demo_inv by (simp add: txn_full_def txn_inv_def)
  moreover have "BeginTransaction id ''q'' 62135596800000000002 62135596800000000002 txn_full =
      (''q-2'', snd (BeginTransaction id ''q'' 62135596800000000002 62135596800000000002 txn_full))"
    by (simp add: BeginTransaction_def Let_def UnixNano_def Second_def Millisecond_def itoa_2)
  ultimately show ?thesis
    using evicted_transaction_stuck [of txn_full id "''p-1''" 0 "''p''" "[0]" "''q''" 62135596800000000002
        62135596800000000002 "''q-2''" _ 5]
    by (simp add: txn_full_def txn_demo_eq active_def Let_def)
qed

end
