(* ===== verification/Tracing.thy ===== *)
theory Tracing
  imports Go_Prelude
begin

text \<open>
  \<^verbatim>\<open>cluster/go/broker/tracing/tracing.go\<close>: the traces of messages on their way through the broker, a
  bounded table like those of producers and transactions. Shown: its bound, and how an event reaches a trace
  and the text that \<open>GetTraceSummary\<close> prints of it.
\<close>

datatype TraceEventType =
    TraceEventProduce | TraceEventReceive | TraceEventPersist | TraceEventReplicate | TraceEventCommit
  | TraceEventConsume | TraceEventAck | TraceEventRetry | TraceEventDLQ | TraceEventDelayed | TraceEventDispatch

text \<open>The values that the broker puts into \<open>Details\<close>: strings and integers.\<close>

datatype detail = DStr string | DInt int

record TraceEvent =
  te_Timestamp :: time
  EventType :: TraceEventType
  Service :: string
  NodeID :: string
  Details :: "(string, detail) gomap"

record TraceContext =
  TraceID :: string
  tr_Topic :: string
  tr_Partition :: int
  tr_Offset :: int
  Events :: "TraceEvent list"
  Created :: time
  Expires :: time

record Tracer =
  traces :: "(string, TraceContext) gomap"
  maxTraces :: int
  tr_expireAfter :: duration

definition NewTracer :: "int \<Rightarrow> duration \<Rightarrow> Tracer" where
  "NewTracer maxT expire = \<lparr>traces = [], maxTraces = maxT, tr_expireAfter = expire\<rparr>"

text \<open>One pulse of the ticker of \<open>cleanupExpired\<close>.\<close>

definition tr_cleanupExpired :: "time \<Rightarrow> Tracer \<Rightarrow> Tracer" where
  "tr_cleanupExpired now t = t\<lparr>traces := filter (\<lambda>(traceID, ctx). \<not> Expires ctx < now) (traces t)\<rparr>"

definition StartTrace ::
    "((string \<times> TraceContext) list \<Rightarrow> (string \<times> TraceContext) list) \<Rightarrow> string \<Rightarrow> int \<Rightarrow> time \<Rightarrow> time \<Rightarrow> time \<Rightarrow>
     Tracer \<Rightarrow> TraceContext \<times> Tracer" where
  "StartTrace ord topic part now1 now2 now3 t =
     (let traceID = itoa (UnixNano now1) @ ''-'' @ itoa part @ ''-'' @ itoa (int (length (traces t)));
          m = (if maxTraces t \<le> int (length (traces t)) then evict_oldest Created [] ord (traces t) else traces t);
          ctx = \<lparr>TraceID = traceID, tr_Topic = topic, tr_Partition = part, tr_Offset = 0, Events = [],
                 Created = now2, Expires = now3 + tr_expireAfter t\<rparr>
      in (ctx, t\<lparr>traces := put traceID ctx m\<rparr>))"

definition GetTrace :: "string \<Rightarrow> Tracer \<Rightarrow> TraceContext option" where
  "GetTrace traceID t = map_of (traces t) traceID"

definition AddEvent ::
    "string \<Rightarrow> TraceEventType \<Rightarrow> string \<Rightarrow> string \<Rightarrow> (string, detail) gomap \<Rightarrow> time \<Rightarrow> Tracer \<Rightarrow> Tracer" where
  "AddEvent traceID eventType service nodeID details now t =
     (case map_of (traces t) traceID of
        None \<Rightarrow> t
      | Some ctx \<Rightarrow>
          let ev = \<lparr>te_Timestamp = now, EventType = eventType, Service = service, NodeID = nodeID, Details = details\<rparr>
          in t\<lparr>traces := put traceID (ctx\<lparr>Events := Events ctx @ [ev]\<rparr>) (traces t)\<rparr>)"

definition UpdateOffset :: "string \<Rightarrow> int \<Rightarrow> Tracer \<Rightarrow> Tracer" where
  "UpdateOffset traceID offset t =
     (case map_of (traces t) traceID of
        None \<Rightarrow> t
      | Some ctx \<Rightarrow> t\<lparr>traces := put traceID (ctx\<lparr>tr_Offset := offset\<rparr>) (traces t)\<rparr>)"

definition GetActiveTraces ::
    "((string \<times> TraceContext) list \<Rightarrow> (string \<times> TraceContext) list) \<Rightarrow> Tracer \<Rightarrow> TraceContext list" where
  "GetActiveTraces ord t = map snd (ord (traces t))"

section \<open>Runs\<close>

datatype trace_op =
    TrStart "(string \<times> TraceContext) list \<Rightarrow> (string \<times> TraceContext) list" string int time time time
  | TrEvent string TraceEventType string string "(string, detail) gomap" time
  | TrOffset string int
  | TrTick time

fun trace_step :: "Tracer \<Rightarrow> trace_op \<Rightarrow> Tracer" where
  "trace_step t (TrStart ord topic part n1 n2 n3) = snd (StartTrace ord topic part n1 n2 n3 t)"
| "trace_step t (TrEvent tid ty s n d now) = AddEvent tid ty s n d now t"
| "trace_step t (TrOffset tid off) = UpdateOffset tid off t"
| "trace_step t (TrTick now) = tr_cleanupExpired now t"

fun trace_ok :: "trace_op \<Rightarrow> bool" where
  "trace_ok (TrStart ord topic part n1 n2 n3) \<longleftrightarrow> range_order ord \<and> 0 < n2"
| "trace_ok _ \<longleftrightarrow> True"

definition trace_inv :: "Tracer \<Rightarrow> bool" where
  "trace_inv t \<longleftrightarrow> gm_ok (traces t) \<and> (\<forall>(tid, ctx) \<in> set (traces t). 0 < Created ctx)"

lemma trace_inv_New [simp]: "trace_inv (NewTracer maxT expire)"
  by (simp add: trace_inv_def NewTracer_def)

lemma trace_inv_put:
  "gm_ok m \<Longrightarrow> \<forall>(tid, ctx) \<in> set m. 0 < Created ctx \<Longrightarrow> 0 < Created c \<Longrightarrow> trace_inv (t\<lparr>traces := put k c m\<rparr>)"
  by (auto simp: trace_inv_def dest!: set_put_subset)

lemma trace_inv_update:
  assumes "trace_inv t" and "map_of (traces t) k = Some ctx" and "Created c = Created ctx"
  shows "trace_inv (t\<lparr>traces := put k c (traces t)\<rparr>)"
proof (rule trace_inv_put)
  show "gm_ok (traces t)" "\<forall>(tid, ctx) \<in> set (traces t). 0 < Created ctx" using assms(1) by (simp_all add: trace_inv_def)
  then show "0 < Created c" using map_of_SomeD [OF assms(2)] assms(3) by auto
qed

lemma trace_inv_StartTrace:
  assumes "trace_inv t" and "0 < n2"
  shows "trace_inv (snd (StartTrace ord topic part n1 n2 n3 t))"
proof -
  have "\<forall>(tid, ctx) \<in> set (evict_oldest Created [] ord (traces t)). 0 < Created ctx"
    using assms(1) evict_oldest_subset [of Created "[]" ord "traces t"] by (auto simp: trace_inv_def)
  then show ?thesis using assms unfolding StartTrace_def Let_def snd_conv
    by (intro trace_inv_put) (auto simp: trace_inv_def)
qed

lemma trace_inv_step: "trace_inv t \<Longrightarrow> trace_ok a \<Longrightarrow> trace_inv (trace_step t a)"
proof (cases a)
  case (TrTick now)
  then show "trace_inv t \<Longrightarrow> trace_inv (trace_step t a)"
    by (auto simp: trace_inv_def tr_cleanupExpired_def intro: distinct_map_filter)
qed (simp_all add: trace_inv_StartTrace AddEvent_def UpdateOffset_def trace_inv_update split: option.split)

lemma maxTraces_step: "maxTraces (trace_step t a) = maxTraces t"
  by (cases a) (simp_all add: StartTrace_def AddEvent_def UpdateOffset_def tr_cleanupExpired_def Let_def split: option.split)

lemma traces_length_step:
  assumes "trace_inv t" and "trace_ok a" and le: "length (traces t) \<le> max 1 (nat (maxTraces t))"
  shows "length (traces (trace_step t a)) \<le> max 1 (nat (maxTraces t))"
proof (cases a)
  case (TrStart ord topic part n1 n2 n3)
  then show ?thesis
    using length_evict_put [OF _ _ _ le, of ord Created] assms(1,2) by (simp add: StartTrace_def Let_def trace_inv_def)
next
  case (TrTick now)
  then show ?thesis using le by (simp add: tr_cleanupExpired_def) (meson le_trans length_filter_le)
qed (use le in \<open>simp_all add: AddEvent_def UpdateOffset_def Let_def length_put_old split: option.split\<close>)

interpretation trc: bounded_machine trace_step trace_inv trace_ok "\<lambda>t. length (traces t)" "\<lambda>t. nat (maxTraces t)"
  by unfold_locales (blast intro: trace_inv_step, simp add: maxTraces_step, blast intro: traces_length_step)

text \<open>The table of traces never holds more than \<open>maxTraces\<close> traces (one, if the bound is not positive),
  whatever the operations and the iteration order.\<close>

theorem traces_bounded:
  assumes "list_all trace_ok as" and "range_order ord"
  shows "length (GetActiveTraces ord (foldl trace_step (NewTracer maxT expire) as)) \<le> max 1 (nat maxT)"
  using trc.entries_run [OF trace_inv_New assms(1)] assms(2)
  by (simp add: GetActiveTraces_def range_order_length NewTracer_def)

theorem traces_bounded_witness:
  "length (GetActiveTraces rev (foldl trace_step (NewTracer 1 5) [TrStart id ''t'' 0 1 2 3, TrStart id ''t'' 1 4 5 6])) \<le> 1"
  using traces_bounded [of "[TrStart id ''t'' 0 1 2 3, TrStart id ''t'' 1 4 5 6]" rev 1 5] by simp

lemma StartTrace_found:
  "GetTrace (TraceID (fst (StartTrace ord topic part n1 n2 n3 t))) (snd (StartTrace ord topic part n1 n2 n3 t))
   = Some (fst (StartTrace ord topic part n1 n2 n3 t))"
  by (simp add: StartTrace_def GetTrace_def Let_def)

lemma AddEvent_GetTrace:
  "GetTrace k (AddEvent tid ty s n d now t) =
     (case GetTrace k t of
        None \<Rightarrow> None
      | Some ctx \<Rightarrow> Some (if k = tid
          then ctx\<lparr>Events := Events ctx @ [\<lparr>te_Timestamp = now, EventType = ty, Service = s, NodeID = n, Details = d\<rparr>]\<rparr>
          else ctx))"
  by (auto simp: AddEvent_def GetTrace_def Let_def split: option.split)

section \<open>The printed trace\<close>

fun event_name :: "TraceEventType \<Rightarrow> string" where
  "event_name TraceEventProduce = ''PRODUCE''"
| "event_name TraceEventReceive = ''RECEIVE''"
| "event_name TraceEventPersist = ''PERSIST''"
| "event_name TraceEventReplicate = ''REPLICATE''"
| "event_name TraceEventCommit = ''COMMIT''"
| "event_name TraceEventConsume = ''CONSUME''"
| "event_name TraceEventAck = ''ACK''"
| "event_name TraceEventRetry = ''RETRY''"
| "event_name TraceEventDLQ = ''DLQ''"
| "event_name TraceEventDelayed = ''DELAYED''"
| "event_name TraceEventDispatch = ''DISPATCH''"

fun show_detail :: "detail \<Rightarrow> string" where
  "show_detail (DStr s) = s"
| "show_detail (DInt i) = itoa i"

text \<open>How a time is printed depends on the zone of the machine: \<open>full\<close> is the format of \<open>%v\<close>, \<open>clock\<close> the one of \<open>15:04:05.000\<close>. \<open>ord\<close> is the
  order in which the details of an event are visited.\<close>

definition event_summary :: "((string \<times> detail) list \<Rightarrow> (string \<times> detail) list) \<Rightarrow> (time \<Rightarrow> string) \<Rightarrow> nat \<Rightarrow> TraceEvent \<Rightarrow> string" where
  "event_summary ord clock i ev =
     ''  ['' @ itoa (int i + 1) @ ''] '' @ clock (te_Timestamp ev) @ '' '' @ Service ev @ ''/'' @ NodeID ev @ '': '' @ event_name (EventType ev) @ [CHR 0x0A]
     @ concat (map (\<lambda>(k, v). ''       '' @ k @ '': '' @ show_detail v @ [CHR 0x0A]) (ord (Details ev)))"

definition GetTraceSummary ::
    "((string \<times> detail) list \<Rightarrow> (string \<times> detail) list) \<Rightarrow> (time \<Rightarrow> string) \<Rightarrow> (time \<Rightarrow> string) \<Rightarrow> string \<Rightarrow> Tracer \<Rightarrow> string" where
  "GetTraceSummary ord full clock traceID t =
     (case GetTrace traceID t of
        None \<Rightarrow> ''Trace '' @ traceID @ '' not found''
      | Some ctx \<Rightarrow>
          ''TraceID: '' @ TraceID ctx @ [CHR 0x0A]
          @ ''Topic: '' @ tr_Topic ctx @ '', Partition: '' @ itoa (tr_Partition ctx) @ '', Offset: '' @ itoa (tr_Offset ctx) @ [CHR 0x0A]
          @ ''Created: '' @ full (Created ctx) @ [CHR 0x0A]
          @ ''Events:'' @ [CHR 0x0A]
          @ concat (map (\<lambda>(i, ev). event_summary ord clock i ev) (enumerate 0 (Events ctx))))"

text \<open>An event adds its lines at the end of the summary of its trace, under the next number, and leaves the summaries of the other traces alone.\<close>

theorem AddEvent_summary:
  assumes "GetTrace tid t = Some ctx"
  shows "GetTraceSummary ord full clock k (AddEvent tid ty s n d now t) = GetTraceSummary ord full clock k t
    @ (if k = tid then event_summary ord clock (length (Events ctx))
         \<lparr>te_Timestamp = now, EventType = ty, Service = s, NodeID = n, Details = d\<rparr> else [])"
  using assms by (simp add: GetTraceSummary_def AddEvent_GetTrace enumerate_append_eq split: option.split)

theorem AddEvent_summary_witness:
  "let (ctx, t) = StartTrace id ''t'' 0 1 2 3 (NewTracer 1 5)
   in GetTraceSummary rev (\<lambda>_. ''then'') (\<lambda>_. ''now'') (TraceID ctx) (AddEvent (TraceID ctx) TraceEventProduce ''s'' ''n'' [(''k'', DStr ''v'')] 4 t)
     = GetTraceSummary rev (\<lambda>_. ''then'') (\<lambda>_. ''now'') (TraceID ctx) t
       @ ''  [1] now s/n: PRODUCE'' @ [CHR 0x0A] @ ''       k: v'' @ [CHR 0x0A]"
proof -
  obtain ctx t where start: "StartTrace id ''t'' 0 1 2 3 (NewTracer 1 5) = (ctx, t)" by fastforce
  have e: "Events ctx = []" using start by (auto simp: StartTrace_def Let_def)
  from StartTrace_found [of id "''t''" 0 1 2 3 "NewTracer 1 5"] have "GetTrace (TraceID ctx) t = Some ctx" by (simp add: start)
  from AddEvent_summary [OF this, of rev "\<lambda>_. ''then''" "\<lambda>_. ''now''" "TraceID ctx" TraceEventProduce "''s''" "''n''" "[(''k'', DStr ''v'')]" 4]
  show ?thesis by (simp add: start e event_summary_def itoa_def nat_str.simps [of "Suc 0"] digit_char_def char_of_def bit_numeral_rec bit_0)
qed

end
