(* ===== verification/Time_Wheel.thy ===== *)
theory Time_Wheel
  imports Go_Prelude
begin

text \<open>
  \<^verbatim>\<open>cluster/go/broker/storage/timewheel.go\<close>: the wheel of delayed messages. A bucket is a Go slice;
  \<open>tick\<close> cuts it with \<open>messages[:0]\<close> and goes on reading the old slice while \<open>AddMessage\<close> appends to
  the new one, which shares the backing array. The model keeps the arrays, so that the aliasing is part of it.
  Shown: one tick does what it would do on separate lists (a refinement), no message is
  dispatched a millisecond or more early, and a due message is dispatched within one turn of the wheel.
\<close>

section \<open>Slices\<close>

text \<open>A slice is the address of an array and a length; the array's length is the capacity. \<open>append\<close> writes
  behind the slice if there is room and allocates a new array otherwise, of a capacity \<open>grow n\<close>
  that the runtime chooses.\<close>

record slice =
  s_arr :: nat
  s_len :: nat

definition slice_append :: "(nat \<Rightarrow> nat) \<Rightarrow> 'a \<Rightarrow> slice \<Rightarrow> 'a option list list \<Rightarrow> slice \<times> 'a option list list" where
  "slice_append grow x s arrs =
     (let n = s_len s; a = arrs ! s_arr s
      in if n < length a then (s\<lparr>s_len := n + 1\<rparr>, arrs[s_arr s := a[n := Some x]])
         else (\<lparr>s_arr = length arrs, s_len = n + 1\<rparr>,
               arrs @ [take n a @ [Some x] @ replicate (grow n - (n + 1)) None]))"

section \<open>The wheel\<close>

record DelayedMessage =
  dm_Topic :: string
  dm_Partition :: int
  dm_Data :: "byte list"
  DeliveryAt :: time

record TimeWheel =
  tickMs :: int
  wheelSize :: int
  currentIndex :: int
  buckets :: "slice list"
  arrays :: "DelayedMessage option list list"
  dispatchCh :: "DelayedMessage list"

text \<open>\<open>Time.Sub\<close> saturates at the bounds of an \<open>int64\<close>.\<close>

definition time_sub :: "time \<Rightarrow> time \<Rightarrow> duration" where
  "time_sub t u = max (- (2 ^ 63)) (min (2 ^ 63 - 1) (t - u))"

definition dispatchCap :: nat where "dispatchCap = 1000"

definition NewTimeWheel :: "int \<Rightarrow> int \<Rightarrow> TimeWheel go" where
  "NewTimeWheel tick wsize =
     (if wsize < 0 then Panic
      else Ret \<lparr>tickMs = tick, wheelSize = wsize, currentIndex = 0,
                buckets = map (\<lambda>i. \<lparr>s_arr = i, s_len = 0\<rparr>) [0..<nat wsize],
                arrays = replicate (nat wsize) [], dispatchCh = []\<rparr>)"

definition dispatchMessage :: "DelayedMessage \<Rightarrow> TimeWheel \<Rightarrow> TimeWheel" where
  "dispatchMessage msg tw =
     (if length (dispatchCh tw) < dispatchCap then tw\<lparr>dispatchCh := dispatchCh tw @ [msg]\<rparr> else tw)"

definition tw_AddMessage :: "(nat \<Rightarrow> nat) \<Rightarrow> time \<Rightarrow> DelayedMessage \<Rightarrow> TimeWheel \<Rightarrow> TimeWheel" where
  "tw_AddMessage grow now msg tw =
     (let delayMs = go_div (time_sub (DeliveryAt msg) now) Millisecond
      in if delayMs \<le> 0 then dispatchMessage msg tw
         else let ticks = go_div delayMs (tickMs tw);
                  index = nat (go_mod (currentIndex tw + ticks) (wheelSize tw));
                  (s, arrs) = slice_append grow msg (buckets tw ! index) (arrays tw)
              in tw\<lparr>buckets := (buckets tw)[index := s], arrays := arrs\<rparr>)"

text \<open>The loop of \<open>tick\<close> reads element \<open>i\<close> of the old slice at iteration \<open>i\<close>. \<open>clock i\<close> are the three
  readings of the clock in that iteration, the last one in \<open>AddMessage\<close>.\<close>

fun tick_loop ::
    "(nat \<Rightarrow> nat) \<Rightarrow> (nat \<Rightarrow> time \<times> time \<times> time) \<Rightarrow> nat \<Rightarrow> nat \<Rightarrow> nat \<Rightarrow> TimeWheel \<Rightarrow> TimeWheel go" where
  "tick_loop grow clock a i 0 tw = Ret tw"
| "tick_loop grow clock a i (Suc k) tw =
     (case arrays tw ! a ! i of
        None \<Rightarrow> Panic
      | Some msg \<Rightarrow>
          let (n1, n2, n3) = clock i
          in tick_loop grow clock a (Suc i) k
               (if DeliveryAt msg < n1 \<or> n2 = DeliveryAt msg then dispatchMessage msg tw
                else tw_AddMessage grow n3 msg tw))"

text \<open>The part of \<open>tick\<close> under the two mutexes, and the whole of it.\<close>

definition tick_cut :: "TimeWheel \<Rightarrow> TimeWheel" where
  "tick_cut tw =
     (let c = nat (currentIndex tw)
      in tw\<lparr>currentIndex := go_mod (currentIndex tw + 1) (wheelSize tw),
            buckets := (buckets tw)[c := (buckets tw ! c)\<lparr>s_len := 0\<rparr>]\<rparr>)"

definition tick :: "(nat \<Rightarrow> nat) \<Rightarrow> (nat \<Rightarrow> time \<times> time \<times> time) \<Rightarrow> TimeWheel \<Rightarrow> TimeWheel go" where
  "tick grow clock tw =
     (let b = buckets tw ! nat (currentIndex tw)
      in tick_loop grow clock (s_arr b) 0 (s_len b) (tick_cut tw))"

text \<open>\<open>run\<close>: one \<open>tick\<close> per pulse of the ticker.\<close>

fun tw_run :: "(nat \<Rightarrow> nat) \<Rightarrow> (nat \<Rightarrow> time \<times> time \<times> time) list \<Rightarrow> TimeWheel \<Rightarrow> TimeWheel go" where
  "tw_run grow [] tw = Ret tw"
| "tw_run grow (clock # clocks) tw = go_bind (tick grow clock tw) (tw_run grow clocks)"

definition GetPendingCount :: "TimeWheel \<Rightarrow> nat" where
  "GetPendingCount tw = sum_list (map s_len (buckets tw))"

section \<open>The wheel on lists\<close>

text \<open>What the wheel promises, with one list per bucket.\<close>

record Wheel =
  w_tickMs :: int
  w_index :: int
  w_buckets :: "DelayedMessage list list"
  w_out :: "DelayedMessage list"

definition spec_dispatch :: "DelayedMessage \<Rightarrow> Wheel \<Rightarrow> Wheel" where
  "spec_dispatch msg w = (if length (w_out w) < dispatchCap then w\<lparr>w_out := w_out w @ [msg]\<rparr> else w)"

definition spec_slot :: "time \<Rightarrow> DelayedMessage \<Rightarrow> Wheel \<Rightarrow> nat" where
  "spec_slot now msg w =
     nat ((w_index w + time_sub (DeliveryAt msg) now div Millisecond div w_tickMs w) mod int (length (w_buckets w)))"

definition spec_add :: "time \<Rightarrow> DelayedMessage \<Rightarrow> Wheel \<Rightarrow> Wheel" where
  "spec_add now msg w =
     (if DeliveryAt msg - now < Millisecond then spec_dispatch msg w
      else let i = spec_slot now msg w in w\<lparr>w_buckets := (w_buckets w)[i := w_buckets w ! i @ [msg]]\<rparr>)"

definition spec_visit :: "time \<times> time \<times> time \<Rightarrow> DelayedMessage \<Rightarrow> Wheel \<Rightarrow> Wheel" where
  "spec_visit c msg w =
     (case c of (n1, n2, n3) \<Rightarrow>
        if DeliveryAt msg < n1 \<or> n2 = DeliveryAt msg then spec_dispatch msg w else spec_add n3 msg w)"

fun spec_loop :: "(nat \<Rightarrow> time \<times> time \<times> time) \<Rightarrow> nat \<Rightarrow> DelayedMessage list \<Rightarrow> Wheel \<Rightarrow> Wheel" where
  "spec_loop clock i [] w = w"
| "spec_loop clock i (msg # msgs) w = spec_loop clock (Suc i) msgs (spec_visit (clock i) msg w)"

definition spec_tick :: "(nat \<Rightarrow> time \<times> time \<times> time) \<Rightarrow> Wheel \<Rightarrow> Wheel" where
  "spec_tick clock w =
     (let c = nat (w_index w)
      in spec_loop clock 0 (w_buckets w ! c)
           (w\<lparr>w_index := (w_index w + 1) mod int (length (w_buckets w)), w_buckets := (w_buckets w)[c := []]\<rparr>))"

section \<open>Refinement\<close>

definition slice_ok :: "'a option list list \<Rightarrow> slice \<Rightarrow> bool" where
  "slice_ok arrs s \<longleftrightarrow> s_arr s < length arrs \<and> s_len s \<le> length (arrs ! s_arr s)
     \<and> (\<forall>j < s_len s. arrs ! s_arr s ! j \<noteq> None)"

definition slice_view :: "'a option list list \<Rightarrow> slice \<Rightarrow> 'a list" where
  "slice_view arrs s = map the (take (s_len s) (arrs ! s_arr s))"

definition wheel_ok :: "TimeWheel \<Rightarrow> bool" where
  "wheel_ok tw \<longleftrightarrow> 0 < tickMs tw \<and> 0 \<le> currentIndex tw \<and> currentIndex tw < wheelSize tw
     \<and> length (buckets tw) = nat (wheelSize tw) \<and> distinct (map s_arr (buckets tw))
     \<and> list_all (slice_ok (arrays tw)) (buckets tw)"

definition wheel_abs :: "TimeWheel \<Rightarrow> Wheel" where
  "wheel_abs tw = \<lparr>w_tickMs = tickMs tw, w_index = currentIndex tw,
                   w_buckets = map (slice_view (arrays tw)) (buckets tw), w_out = dispatchCh tw\<rparr>"

lemma slice_append_same:
  assumes "slice_ok arrs s" and "slice_append grow x s arrs = (s', arrs')"
  shows "slice_ok arrs' s'" and "slice_view arrs' s' = slice_view arrs s @ [x]"
    and "s_arr s' = s_arr s \<or> s_arr s' = length arrs" and "s_len s' = Suc (s_len s)"
proof -
  let ?n = "s_len s" and ?a = "arrs ! s_arr s"
  have s: "s_arr s < length arrs" "?n \<le> length ?a" "\<forall>j < ?n. ?a ! j \<noteq> None"
    using assms(1) by (simp_all add: slice_ok_def)
  show "s_arr s' = s_arr s \<or> s_arr s' = length arrs" "s_len s' = Suc ?n"
    using assms(2) by (auto simp: slice_append_def Let_def split: if_splits)
  show "slice_ok arrs' s'" "slice_view arrs' s' = slice_view arrs s @ [x]"
    using assms(2) s
    by (auto simp: slice_append_def slice_ok_def slice_view_def Let_def nth_list_update nth_append
          take_Suc_conv_app_nth less_Suc_eq min_def split: if_splits)
qed

lemma slice_append_other:
  assumes "slice_ok arrs t" and "s_arr t \<noteq> s_arr s" and "slice_append grow x s arrs = (s', arrs')"
  shows "slice_ok arrs' t" and "slice_view arrs' t = slice_view arrs t" and "s_arr t \<noteq> s_arr s'"
  using assms by (auto simp: slice_append_def slice_ok_def slice_view_def Let_def nth_append split: if_splits)

lemma time_sub_ms [simp]: "time_sub t u < Millisecond \<longleftrightarrow> t - u < Millisecond"
  by (auto simp: time_sub_def Millisecond_def)

lemma go_div_ms: "go_div d Millisecond \<le> 0 \<longleftrightarrow> d < Millisecond"
proof (cases "0 \<le> d")
  case True
  then have "d div Millisecond \<le> 0 \<longleftrightarrow> d < Millisecond"
    using pos_imp_zdiv_pos_iff [of Millisecond d] by (auto simp: Millisecond_def)
  with True show ?thesis by (simp add: Millisecond_def)
next
  case False
  then have "0 \<le> - d div Millisecond" by (simp add: Millisecond_def pos_imp_zdiv_nonneg_iff)
  with False show ?thesis by (simp add: go_div_def Millisecond_def)
qed

lemma wheel_abs_simps [simp]:
  "w_tickMs (wheel_abs tw) = tickMs tw" "w_index (wheel_abs tw) = currentIndex tw"
  "w_out (wheel_abs tw) = dispatchCh tw" "length (w_buckets (wheel_abs tw)) = length (buckets tw)"
  by (simp_all add: wheel_abs_def)

lemma dispatchMessage_refines:
  "wheel_abs (dispatchMessage msg tw) = spec_dispatch msg (wheel_abs tw)"
  "wheel_ok tw \<Longrightarrow> wheel_ok (dispatchMessage msg tw)"
  "arrays (dispatchMessage msg tw) = arrays tw" "buckets (dispatchMessage msg tw) = buckets tw"
  by (simp_all add: dispatchMessage_def spec_dispatch_def wheel_abs_def wheel_ok_def)

text \<open>The old slice: address \<open>a\<close>, elements \<open>i\<close> to \<open>n\<close> still to be read, which are those of \<open>msgs\<close>.\<close>

definition unread :: "nat \<Rightarrow> nat \<Rightarrow> DelayedMessage list \<Rightarrow> TimeWheel \<Rightarrow> bool" where
  "unread a i msgs tw \<longleftrightarrow> a < length (arrays tw) \<and> length msgs \<le> length (arrays tw ! a)
     \<and> (\<forall>j. i \<le> j \<and> j < length msgs \<longrightarrow> arrays tw ! a ! j = Some (msgs ! j))
     \<and> (\<forall>b \<in> set (buckets tw). s_arr b = a \<longrightarrow> s_len b \<le> i)"

lemma unread_mono: "unread a i msgs tw \<Longrightarrow> i \<le> i' \<Longrightarrow> unread a i' msgs tw"
  by (fastforce simp: unread_def)

lemma spec_slot_bound: "w_buckets w \<noteq> [] \<Longrightarrow> spec_slot now msg w < length (w_buckets w)"
  by (simp add: spec_slot_def nat_less_iff)

text \<open>Where \<open>AddMessage\<close> does not dispatch, it appends to the slice of one bucket.\<close>

lemma AddMessage_cases:
  assumes "wheel_ok tw"
  obtains (now) "DeliveryAt msg - now < Millisecond" "tw_AddMessage grow now msg tw = dispatchMessage msg tw"
  | (later) i s arrs where "\<not> DeliveryAt msg - now < Millisecond" "i = spec_slot now msg (wheel_abs tw)"
      "i < length (buckets tw)" "slice_append grow msg (buckets tw ! i) (arrays tw) = (s, arrs)"
      "tw_AddMessage grow now msg tw = tw\<lparr>buckets := (buckets tw)[i := s], arrays := arrs\<rparr>"
proof (cases "DeliveryAt msg - now < Millisecond")
  case True
  then have "go_div (time_sub (DeliveryAt msg) now) Millisecond \<le> 0" by (simp add: go_div_ms)
  with True show ?thesis by (intro that(1)) (simp_all add: tw_AddMessage_def)
next
  case False
  let ?d = "time_sub (DeliveryAt msg) now" and ?i = "spec_slot now msg (wheel_abs tw)"
  obtain s arrs where app: "slice_append grow msg (buckets tw ! ?i) (arrays tw) = (s, arrs)" by fastforce
  have w: "0 < tickMs tw" "0 \<le> currentIndex tw" "0 < wheelSize tw" "length (buckets tw) = nat (wheelSize tw)"
    using assms by (simp_all add: wheel_ok_def)
  have d: "Millisecond \<le> ?d" using False time_sub_ms [of "DeliveryAt msg" now] by linarith
  then have d0: "0 \<le> ?d" "0 < Millisecond" by (simp_all add: Millisecond_def)
  then have "0 \<le> ?d div Millisecond" by (simp add: pos_imp_zdiv_nonneg_iff)
  moreover from this have "0 \<le> ?d div Millisecond div tickMs tw" using w by (simp add: pos_imp_zdiv_nonneg_iff)
  ultimately have "go_mod (currentIndex tw + go_div (go_div ?d Millisecond) (tickMs tw)) (wheelSize tw)
      = (currentIndex tw + ?d div Millisecond div tickMs tw) mod wheelSize tw"
    using w d0 by simp
  then have i: "nat (go_mod (currentIndex tw + go_div (go_div ?d Millisecond) (tickMs tw)) (wheelSize tw)) = ?i"
    using w by (simp add: spec_slot_def)
  have "buckets tw \<noteq> []" using w by auto
  then have "?i < length (buckets tw)"
    using spec_slot_bound [of "wheel_abs tw" now msg] by (simp add: wheel_abs_def)
  moreover have "tw_AddMessage grow now msg tw = tw\<lparr>buckets := (buckets tw)[?i := s], arrays := arrs\<rparr>"
    using False app i by (simp add: tw_AddMessage_def go_div_ms Let_def)
  ultimately show ?thesis using False app by (intro that(2)) simp_all
qed

lemma distinct_nth_neq: "distinct (map f xs) \<Longrightarrow> i < length xs \<Longrightarrow> j < length xs \<Longrightarrow> i \<noteq> j \<Longrightarrow> f (xs ! i) \<noteq> f (xs ! j)"
  by (metis distinct_conv_nth length_map nth_map)

lemma AddMessage_refines:
  assumes "wheel_ok tw"
  shows "wheel_abs (tw_AddMessage grow now msg tw) = spec_add now msg (wheel_abs tw)" (is ?A)
    and "wheel_ok (tw_AddMessage grow now msg tw)" (is ?B)
proof -
  have "?A \<and> ?B"
    using assms
  proof (cases rule: AddMessage_cases [where msg = msg and now = now and grow = grow])
    case now
    with assms show ?thesis by (simp add: spec_add_def dispatchMessage_refines)
  next
    case (later i s arrs)
    have ok: "slice_ok (arrays tw) (buckets tw ! j)" if "j < length (buckets tw)" for j
      using assms that by (simp add: wheel_ok_def list_all_length)
    note same = slice_append_same [OF ok [OF later(3)] later(4)]
    have ne: "s_arr (buckets tw ! j) \<noteq> s_arr (buckets tw ! i)" if "j < length (buckets tw)" "j \<noteq> i" for j
      using assms that later(3) distinct_nth_neq [of s_arr "buckets tw" j i] by (simp add: wheel_ok_def)
    note other = slice_append_other [OF ok ne later(4)]
    have dist: "distinct (map s_arr ((buckets tw)[i := s]))"
    proof -
      have "s_arr s \<notin> set (map s_arr (buckets tw)) - {s_arr (buckets tw ! i)}"
        using other(3) by (fastforce simp: in_set_conv_nth)
      moreover have "distinct (map s_arr (buckets tw))" using assms by (simp add: wheel_ok_def)
      ultimately show ?thesis using later(3)
        by (simp add: map_update distinct_list_update)
    qed
    have "list_all (slice_ok arrs) ((buckets tw)[i := s])"
      using same(1) other(1) later(3) by (auto simp: list_all_length nth_list_update)
    then have ?B using assms dist later(5) by (simp add: wheel_ok_def)
    moreover have "map (slice_view arrs) ((buckets tw)[i := s])
        = (map (slice_view (arrays tw)) (buckets tw))[i := slice_view (arrays tw) (buckets tw ! i) @ [msg]]"
      using same(2) other(2) later(3) by (auto intro!: nth_equalityI simp: nth_list_update)
    then have ?A using later by (simp add: spec_add_def Let_def wheel_abs_def)
    ultimately show ?thesis by blast
  qed
  then show ?A ?B by simp_all
qed

lemma AddMessage_unread:
  assumes "wheel_ok tw" and "unread a i msgs tw" and "i < length msgs"
  shows "unread a (Suc i) msgs (tw_AddMessage grow now msg tw)"
  using assms(1)
proof (cases rule: AddMessage_cases [where msg = msg and now = now and grow = grow])
  case now
  then show ?thesis using assms(2) by (auto simp: dispatchMessage_refines unread_def)
next
  case (later k s arrs)
  let ?b = "buckets tw ! k"
  have b: "slice_ok (arrays tw) ?b" using assms(1) later(3) by (simp add: wheel_ok_def list_all_length)
  have len: "s_len s = Suc (s_len ?b)" using slice_append_same [OF b later(4)] by simp
  have ua: "a < length (arrays tw)" "length msgs \<le> length (arrays tw ! a)"
    and ul: "s_arr ?b = a \<Longrightarrow> s_len ?b \<le> i"
    using assms(2) later(3) by (simp_all add: unread_def)
  have arr: "arrs ! a ! j = arrays tw ! a ! j \<and> length (arrs ! a) = length (arrays tw ! a) \<and> a < length arrs
      \<and> (s_arr s = a \<longrightarrow> s_len s \<le> Suc i)" if "i < j" for j
    using later(4) ua ul that b assms(3)
    by (auto simp: slice_append_def slice_ok_def Let_def nth_append nth_list_update split: if_splits)
  have "s_arr c = a \<longrightarrow> s_len c \<le> Suc i" if "c \<in> set ((buckets tw)[k := s])" for c
    using set_update_subset_insert [of "buckets tw" k s] that assms(2) arr [of "Suc i"] by (auto simp: unread_def)
  then show ?thesis
    using assms(2) arr [of "Suc i"] arr later(5) ua by (auto simp: unread_def)
qed

lemma tick_loop_refines:
  assumes "wheel_ok tw" and "unread a i msgs tw" and "i + k = length msgs"
  shows "\<exists>tw'. tick_loop grow clock a i k tw = Ret tw' \<and> wheel_ok tw'
           \<and> wheel_abs tw' = spec_loop clock i (drop i msgs) (wheel_abs tw)"
  using assms
proof (induction k arbitrary: i tw)
  case 0
  then show ?case by simp
next
  case (Suc k)
  obtain n1 n2 n3 where c: "clock i = (n1, n2, n3)" by (cases "clock i") auto
  let ?m = "msgs ! i"
  define tw1 where "tw1 = (if DeliveryAt ?m < n1 \<or> n2 = DeliveryAt ?m then dispatchMessage ?m tw
                           else tw_AddMessage grow n3 ?m tw)"
  have i: "i < length msgs" using Suc.prems(3) by simp
  have "arrays tw ! a ! i = Some ?m" using Suc.prems(2) i by (simp add: unread_def)
  then have step: "tick_loop grow clock a i (Suc k) tw = tick_loop grow clock a (Suc i) k tw1"
    by (simp add: c tw1_def)
  have "unread a (Suc i) msgs (dispatchMessage ?m tw)"
    using unread_mono [OF Suc.prems(2), of "Suc i"] by (simp add: unread_def dispatchMessage_refines)
  then have "unread a (Suc i) msgs tw1" and ok: "wheel_ok tw1"
    and abs: "wheel_abs tw1 = spec_visit (clock i) ?m (wheel_abs tw)"
    using Suc.prems(1) AddMessage_unread [OF Suc.prems(1,2) i]
    by (simp_all add: tw1_def spec_visit_def c dispatchMessage_refines AddMessage_refines)
  with Suc.IH [of tw1 "Suc i"] Suc.prems(3) obtain tw' where
    "tick_loop grow clock a (Suc i) k tw1 = Ret tw'" "wheel_ok tw'"
    "wheel_abs tw' = spec_loop clock (Suc i) (drop (Suc i) msgs) (wheel_abs tw1)" by auto
  moreover have "drop i msgs = ?m # drop (Suc i) msgs" using i by (rule Cons_nth_drop_Suc [symmetric])
  ultimately show ?case using step abs by simp
qed

lemma wheel_ok_cut:
  assumes "wheel_ok tw" and "c = nat (currentIndex tw)"
  defines "tw1 \<equiv> tick_cut tw"
  shows "wheel_ok tw1"
    and "wheel_abs tw1 = (wheel_abs tw)\<lparr>w_index := (w_index (wheel_abs tw) + 1) mod int (length (buckets tw)),
                                        w_buckets := (w_buckets (wheel_abs tw))[c := []]\<rparr>"
    and "unread (s_arr (buckets tw ! c)) 0 (slice_view (arrays tw) (buckets tw ! c)) tw1"
    and "length (slice_view (arrays tw) (buckets tw ! c)) = s_len (buckets tw ! c)"
proof -
  note tw1_def = tw1_def [unfolded tick_cut_def, folded assms(2), unfolded Let_def]
  have w: "0 \<le> currentIndex tw" "currentIndex tw < wheelSize tw" "length (buckets tw) = nat (wheelSize tw)"
    "distinct (map s_arr (buckets tw))" "list_all (slice_ok (arrays tw)) (buckets tw)"
    using assms(1) by (simp_all add: wheel_ok_def)
  then have c: "c < length (buckets tw)" and cb: "slice_ok (arrays tw) (buckets tw ! c)"
    by (simp_all add: assms(2) list_all_length)
  have arr: "map s_arr ((buckets tw)[c := (buckets tw ! c)\<lparr>s_len := 0\<rparr>]) = map s_arr (buckets tw)"
    using c by (auto intro!: nth_equalityI simp: nth_list_update)
  have "list_all (slice_ok (arrays tw)) ((buckets tw)[c := (buckets tw ! c)\<lparr>s_len := 0\<rparr>])"
    using w(5) c by (auto simp: list_all_length nth_list_update slice_ok_def)
  then show "wheel_ok tw1" using assms(1) w arr by (simp add: wheel_ok_def tw1_def)
  show "wheel_abs tw1 = (wheel_abs tw)\<lparr>w_index := (w_index (wheel_abs tw) + 1) mod int (length (buckets tw)),
                                      w_buckets := (w_buckets (wheel_abs tw))[c := []]\<rparr>"
    using w c by (auto simp: wheel_abs_def tw1_def slice_view_def map_update)
  show len: "length (slice_view (arrays tw) (buckets tw ! c)) = s_len (buckets tw ! c)"
    using cb by (simp add: slice_view_def slice_ok_def)
  have zero: "s_len b = 0" if b: "b \<in> set (buckets tw1)" "s_arr b = s_arr (buckets tw ! c)" for b
  proof -
    obtain j where j: "j < length (buckets tw)" "b = (buckets tw)[c := (buckets tw ! c)\<lparr>s_len := 0\<rparr>] ! j"
      using b(1) by (auto simp: tw1_def in_set_conv_nth)
    show ?thesis using j b(2) c distinct_nth_neq [OF w(4) j(1) c] by (cases "j = c") simp_all
  qed
  have "arrays tw ! s_arr (buckets tw ! c) ! j = Some (slice_view (arrays tw) (buckets tw ! c) ! j)"
    if "j < s_len (buckets tw ! c)" for j
    using cb that by (auto simp: slice_ok_def slice_view_def)
  then show "unread (s_arr (buckets tw ! c)) 0 (slice_view (arrays tw) (buckets tw ! c)) tw1"
    using cb len zero by (simp add: unread_def slice_ok_def tw1_def)
qed

lemma tick_ok:
  assumes "wheel_ok tw"
  shows "\<exists>tw'. tick grow clock tw = Ret tw' \<and> wheel_ok tw' \<and> wheel_abs tw' = spec_tick clock (wheel_abs tw)"
proof -
  define c where "c = nat (currentIndex tw)"
  note cut = wheel_ok_cut [OF assms c_def]
  have c: "c < length (buckets tw)" using assms by (simp add: wheel_ok_def c_def)
  have "w_buckets (wheel_abs tw) ! c = slice_view (arrays tw) (buckets tw ! c)"
    using c by (simp add: wheel_abs_def)
  with tick_loop_refines [OF cut(1,3), of "s_len (buckets tw ! c)" grow clock] cut(2,4) show ?thesis
    by (simp add: tick_def spec_tick_def Let_def c_def)
qed

section \<open>Delivery\<close>

definition wheel_load :: "Wheel \<Rightarrow> nat" where
  "wheel_load w = length (w_out w) + sum_list (map length (w_buckets w))"

lemma sum_list_append_at:
  "i < length xss \<Longrightarrow> sum_list (map length (xss[i := xss ! i @ [x]])) = Suc (sum_list (map length xss))"
  by (induction xss arbitrary: i) (auto split: nat.split)

lemma sum_list_clear_at:
  "i < length xss \<Longrightarrow> sum_list (map length (xss[i := []])) + length (xss ! i) = sum_list (map length xss)"
  by (induction xss arbitrary: i) (auto split: nat.split)

lemma spec_visit_frame [simp]:
  "w_index (spec_visit c msg w) = w_index w" "length (w_buckets (spec_visit c msg w)) = length (w_buckets w)"
  by (auto simp: spec_visit_def spec_add_def spec_dispatch_def Let_def split: prod.split)

lemma spec_loop_frame [simp]:
  "w_index (spec_loop clock i msgs w) = w_index w"
  "length (w_buckets (spec_loop clock i msgs w)) = length (w_buckets w)"
  by (induction msgs arbitrary: i w) simp_all

lemma spec_visit_load: "wheel_load (spec_visit c msg w) \<le> Suc (wheel_load w)"
proof (cases "w_buckets w = []")
  case False
  then show ?thesis using spec_slot_bound [OF False]
    by (auto simp: spec_visit_def spec_add_def spec_dispatch_def wheel_load_def Let_def
          sum_list_append_at split: prod.split)
qed (auto simp: spec_visit_def spec_add_def spec_dispatch_def wheel_load_def Let_def split: prod.split)

lemma spec_loop_load: "wheel_load (spec_loop clock i msgs w) \<le> length msgs + wheel_load w"
proof (induction msgs arbitrary: i w)
  case (Cons m msgs)
  show ?case
    using Cons [of "Suc i" "spec_visit (clock i) m w"] spec_visit_load [of "clock i" m w]
    by simp
qed simp

lemma nth_list_update': "b < length xs \<Longrightarrow> xs[i := y] ! b = (if i = b then y else xs ! b)"
  by (cases "i < length xs") (auto simp: nth_list_update)

lemma spec_visit_mono:
  "x \<in> set (w_out w) \<Longrightarrow> x \<in> set (w_out (spec_visit c msg w))"
  "x \<in> set (w_buckets w ! b) \<Longrightarrow> b < length (w_buckets w) \<Longrightarrow> x \<in> set (w_buckets (spec_visit c msg w) ! b)"
  by (auto simp: spec_visit_def spec_add_def spec_dispatch_def Let_def nth_list_update' split: prod.split)

lemma spec_loop_mono:
  "x \<in> set (w_out w) \<Longrightarrow> x \<in> set (w_out (spec_loop clock i msgs w))"
  "x \<in> set (w_buckets w ! b) \<Longrightarrow> b < length (w_buckets w) \<Longrightarrow> x \<in> set (w_buckets (spec_loop clock i msgs w) ! b)"
  by (induction msgs arbitrary: i w) (simp_all add: spec_visit_mono)

definition due_at :: "DelayedMessage \<Rightarrow> (nat \<Rightarrow> time \<times> time \<times> time) \<Rightarrow> bool" where
  "due_at m clock \<longleftrightarrow> (\<forall>i. DeliveryAt m \<le> snd (snd (clock i)))"

lemma spec_loop_due:
  "m \<in> set msgs \<Longrightarrow> due_at m clock \<Longrightarrow> wheel_load w + length msgs \<le> dispatchCap \<Longrightarrow>
   m \<in> set (w_out (spec_loop clock i msgs w))"
proof (induction msgs arbitrary: i w)
  case (Cons a msgs)
  have load: "wheel_load (spec_visit (clock i) a w) + length msgs \<le> dispatchCap"
    using Cons.prems(3) spec_visit_load [of "clock i" a w] by simp
  show ?case
  proof (cases "m = a")
    case True
    have "\<not> Millisecond \<le> DeliveryAt m - snd (snd (clock i))"
      using Cons.prems(2) by (simp add: due_at_def Millisecond_def not_le) (smt (verit))
    then have "m \<in> set (w_out (spec_visit (clock i) a w))"
      using Cons.prems(3) True
      by (auto simp: spec_visit_def spec_add_def spec_dispatch_def wheel_load_def split: prod.split)
    then show ?thesis by (simp add: spec_loop_mono)
  next
    case False
    then show ?thesis using Cons load by simp
  qed
qed simp

lemma mod_step_down: "0 < x mod n \<Longrightarrow> 0 < n \<Longrightarrow> (x - 1) mod n = x mod n - (1 :: int)"
proof -
  assume x: "0 < x mod n" and n: "0 < n"
  have "(x - 1) mod n = (x mod n - 1) mod n" by (simp add: mod_diff_left_eq)
  also have "\<dots> = x mod n - 1" using x pos_mod_bound [OF n, of x] by (simp add: mod_pos_pos_trivial)
  finally show ?thesis .
qed

text \<open>The number of ticks after which bucket \<open>b\<close> is visited.\<close>

definition until_visit :: "nat \<Rightarrow> Wheel \<Rightarrow> int" where
  "until_visit b w = (int b - w_index w) mod int (length (w_buckets w))"

lemma spec_tick_progress:
  assumes "0 \<le> w_index w" and "w_index w < int (length (w_buckets w))" and "wheel_load w \<le> dispatchCap"
    and "b < length (w_buckets w)" and "m \<in> set (w_buckets w ! b)" and "due_at m clock"
  shows "m \<in> set (w_out (spec_tick clock w))
    \<or> m \<in> set (w_buckets (spec_tick clock w) ! b) \<and> until_visit b (spec_tick clock w) = until_visit b w - 1"
proof (cases "nat (w_index w) = b")
  case True
  then have "wheel_load (w\<lparr>w_index := (w_index w + 1) mod int (length (w_buckets w)), w_buckets := (w_buckets w)[b := []]\<rparr>)
      + length (w_buckets w ! b) \<le> dispatchCap"
    using assms(3,4) sum_list_clear_at [of b "w_buckets w"] by (simp add: wheel_load_def)
  from spec_loop_due [OF assms(5,6) this, of 0] True show ?thesis by (simp add: spec_tick_def Let_def)
next
  case False
  let ?n = "int (length (w_buckets w))"
  have "(int b - w_index w) mod ?n \<noteq> 0"
  proof
    assume "(int b - w_index w) mod ?n = 0"
    then have "int b mod ?n = w_index w mod ?n" by (simp add: mod_eq_dvd_iff dvd_eq_mod_eq_0)
    then show False using assms(1,2,4) False by simp
  qed
  then have pos: "0 < (int b - w_index w) mod ?n" "0 < ?n"
    using assms(4) pos_mod_sign [of ?n "int b - w_index w"] by linarith+
  have "(int b - (w_index w + 1) mod ?n) mod ?n = (int b - w_index w - 1) mod ?n"
    by (simp add: mod_diff_right_eq diff_diff_eq)
  then have "until_visit b (spec_tick clock w) = until_visit b w - 1"
    using mod_step_down [OF pos] by (simp add: until_visit_def spec_tick_def Let_def)
  moreover have "m \<in> set (w_buckets (spec_tick clock w) ! b)"
    using assms(4,5) False by (simp add: spec_tick_def Let_def spec_loop_mono(2))
  ultimately show ?thesis by blast
qed

lemma spec_tick_out_mono: "x \<in> set (w_out w) \<Longrightarrow> x \<in> set (w_out (spec_tick clock w))"
  by (simp add: spec_tick_def Let_def spec_loop_mono(1))

lemma spec_tick_load:
  assumes "0 \<le> w_index w" and "w_index w < int (length (w_buckets w))"
  shows "wheel_load (spec_tick clock w) \<le> wheel_load w"
proof -
  let ?c = "nat (w_index w)"
  have "?c < length (w_buckets w)" using assms by simp
  from sum_list_clear_at [OF this]
    spec_loop_load [of clock 0 "w_buckets w ! ?c"
      "w\<lparr>w_index := (w_index w + 1) mod int (length (w_buckets w)), w_buckets := (w_buckets w)[?c := []]\<rparr>"]
  show ?thesis by (simp add: spec_tick_def Let_def wheel_load_def)
qed

lemma wheel_ok_abs:
  "wheel_ok tw \<Longrightarrow> 0 \<le> w_index (wheel_abs tw) \<and> w_index (wheel_abs tw) < int (length (w_buckets (wheel_abs tw)))"
  by (simp add: wheel_ok_def)

lemma tw_run_delivers:
  assumes "wheel_ok tw" and "wheel_load (wheel_abs tw) \<le> dispatchCap" and "\<forall>c \<in> set clocks. due_at m c"
    and "m \<in> set (dispatchCh tw)
      \<or> b < length (buckets tw) \<and> m \<in> set (w_buckets (wheel_abs tw) ! b) \<and> until_visit b (wheel_abs tw) < int (length clocks)"
  shows "\<exists>tw'. tw_run grow clocks tw = Ret tw' \<and> m \<in> set (dispatchCh tw')"
  using assms
proof (induction clocks arbitrary: tw)
  case Nil
  then show ?case
    using pos_mod_sign [of "int (length (buckets tw))" "int b - currentIndex tw"]
    by (cases "buckets tw = []") (auto simp: until_visit_def simp del: pos_mod_sign)
next
  case (Cons c clocks)
  obtain tw1 where t: "tick grow c tw = Ret tw1" "wheel_ok tw1" "wheel_abs tw1 = spec_tick c (wheel_abs tw)"
    using tick_ok [OF Cons.prems(1)] by blast
  note idx = wheel_ok_abs [OF Cons.prems(1), THEN conjunct1] wheel_ok_abs [OF Cons.prems(1), THEN conjunct2]
  have load: "wheel_load (wheel_abs tw1) \<le> dispatchCap"
    using spec_tick_load [OF idx] Cons.prems(2) t(3) by (metis order_trans)
  have len: "length (buckets tw1) = length (buckets tw)"
    using arg_cong [OF t(3), of "\<lambda>w. length (w_buckets w)"] by (simp add: spec_tick_def Let_def)
  have "m \<in> set (dispatchCh tw1)
      \<or> b < length (buckets tw1) \<and> m \<in> set (w_buckets (wheel_abs tw1) ! b) \<and> until_visit b (wheel_abs tw1) < int (length clocks)"
    using Cons.prems(4)
  proof
    assume "m \<in> set (dispatchCh tw)"
    then have "m \<in> set (w_out (wheel_abs tw1))" unfolding t(3) by (intro spec_tick_out_mono) simp
    then show ?thesis by simp
  next
    assume b: "b < length (buckets tw) \<and> m \<in> set (w_buckets (wheel_abs tw) ! b) \<and>
      until_visit b (wheel_abs tw) < int (length (c # clocks))"
    with spec_tick_progress [OF idx Cons.prems(2), of b m c] Cons.prems(3)
    have "m \<in> set (w_out (wheel_abs tw1))
      \<or> m \<in> set (w_buckets (wheel_abs tw1) ! b) \<and> until_visit b (wheel_abs tw1) = until_visit b (wheel_abs tw) - 1"
      unfolding t(3) by simp
    then show ?thesis using b len by auto
  qed
  with Cons.IH [OF t(2) load] Cons.prems(3) t(1) show ?case by auto
qed

lemma spec_loop_out:
  "x \<in> set (w_out (spec_loop clock i msgs w)) \<Longrightarrow>
   \<forall>i. fst (clock i) \<le> now \<and> fst (snd (clock i)) \<le> now \<and> snd (snd (clock i)) \<le> now \<Longrightarrow>
   x \<in> set (w_out w) \<or> x \<in> set msgs \<and> DeliveryAt x < now + Millisecond"
proof (induction msgs arbitrary: i w)
  case (Cons m msgs)
  obtain n1 n2 n3 where c: "clock i = (n1, n2, n3)" by (cases "clock i") auto
  have n: "n1 \<le> now" "n2 \<le> now" "n3 \<le> now" using Cons.prems(2) [rule_format, of i] by (simp_all add: c)
  have "x \<in> set (w_out (spec_visit (clock i) m w)) \<Longrightarrow> x \<in> set (w_out w) \<or> x = m \<and> DeliveryAt m < now + Millisecond"
    using n by (auto simp: c spec_visit_def spec_add_def spec_dispatch_def Let_def Millisecond_def split: if_splits)
  with Cons.IH [of "Suc i" "spec_visit (clock i) m w"] Cons.prems show ?case by auto
qed simp

section \<open>Properties\<close>

text \<open>A wheel of three buckets with one message in the second bucket.\<close>

definition demo_msg :: DelayedMessage where
  "demo_msg = \<lparr>dm_Topic = ''t'', dm_Partition = 0, dm_Data = [1], DeliveryAt = 110 * Millisecond\<rparr>"

definition demo_wheel :: TimeWheel where
  "demo_wheel = \<lparr>tickMs = 10, wheelSize = 3, currentIndex = 0,
                 buckets = [\<lparr>s_arr = 0, s_len = 0\<rparr>, \<lparr>s_arr = 3, s_len = 1\<rparr>, \<lparr>s_arr = 2, s_len = 0\<rparr>],
                 arrays = [[], [], [], [Some demo_msg]], dispatchCh = []\<rparr>"

lemma demo_wheel_ok: "wheel_ok demo_wheel" "wheel_ok (demo_wheel\<lparr>currentIndex := 1\<rparr>)"
  by (simp_all add: demo_wheel_def wheel_ok_def slice_ok_def)

lemma demo_wheel_load: "wheel_load (wheel_abs demo_wheel) = 1" "wheel_load (wheel_abs demo_wheel) \<le> dispatchCap"
  by (simp_all add: demo_wheel_def wheel_load_def wheel_abs_def slice_view_def dispatchCap_def)


text \<open>C14. One tick of the wheel on slices that share backing arrays never reads a nil pointer, keeps the
  buckets apart, and does what it does on separate lists: it takes the current bucket out, advances, and
  dispatches or files every message of the bucket once, in order.\<close>

theorem tick_refines_lists:
  assumes "wheel_ok tw"
  shows "\<exists>tw'. tick grow clock tw = Ret tw' \<and> wheel_ok tw' \<and> wheel_abs tw' = spec_tick clock (wheel_abs tw)"
  by (rule tick_ok [OF assms])

theorem tick_refines_lists_witness:
  "wheel_ok demo_wheel \<and> (\<exists>tw'. tick Suc (\<lambda>i. (0, 0, 0)) demo_wheel = Ret tw' \<and> wheel_ok tw'
     \<and> wheel_abs tw' = spec_tick (\<lambda>i. (0, 0, 0)) (wheel_abs demo_wheel))"
  using tick_refines_lists [OF demo_wheel_ok(1), of Suc "\<lambda>i. (0, 0, 0)"] demo_wheel_ok(1) by blast

text \<open>While the dispatch channel has room for everything that is on the wheel, a pending message
  whose time has come is dispatched within one turn of the wheel.\<close>

theorem delayed_message_dispatched:
  assumes "wheel_ok tw" and "wheel_load (wheel_abs tw) \<le> dispatchCap"
    and "m \<in> set (concat (w_buckets (wheel_abs tw)))"
    and "int (length clocks) = wheelSize tw" and "\<forall>c \<in> set clocks. due_at m c"
  shows "\<exists>tw'. tw_run grow clocks tw = Ret tw' \<and> m \<in> set (dispatchCh tw')"
proof -
  obtain b where b: "b < length (buckets tw)" "m \<in> set (w_buckets (wheel_abs tw) ! b)"
    using assms(3) in_set_conv_nth [of _ "w_buckets (wheel_abs tw)"] by auto
  have n: "int (length (buckets tw)) = int (length clocks)" "0 < int (length clocks)"
    using assms(1,4) by (simp_all add: wheel_ok_def)
  have "until_visit b (wheel_abs tw) < int (length clocks)"
    using pos_mod_bound [OF n(2)] n(1) by (simp add: until_visit_def)
  with tw_run_delivers [OF assms(1,2,5)] b show ?thesis by blast
qed

theorem delayed_message_dispatched_witness:
  "\<exists>tw'. tw_run Suc (replicate 3 (\<lambda>i. (200 * Millisecond, 200 * Millisecond, 200 * Millisecond))) demo_wheel = Ret tw'
     \<and> demo_msg \<in> set (dispatchCh tw')"
  by (rule delayed_message_dispatched [OF demo_wheel_ok(1) demo_wheel_load(2)])
    (simp_all add: demo_wheel_def demo_msg_def wheel_abs_def slice_view_def due_at_def Millisecond_def)

text \<open>A tick dispatches no message a millisecond or more before its delivery time.\<close>

theorem dispatched_not_early:
  assumes "wheel_ok tw" and "tick grow clock tw = Ret tw'"
    and "\<forall>i. fst (clock i) \<le> now \<and> fst (snd (clock i)) \<le> now \<and> snd (snd (clock i)) \<le> now"
    and "m \<in> set (dispatchCh tw')" and "m \<notin> set (dispatchCh tw)"
  shows "DeliveryAt m < now + Millisecond"
proof -
  have "m \<in> set (w_out (spec_tick clock (wheel_abs tw)))"
    using tick_ok [OF assms(1), of grow clock] assms(2,4) by (metis go.inject wheel_abs_simps(3))
  then show ?thesis
    using spec_loop_out [OF _ assms(3)] assms(5) by (fastforce simp: spec_tick_def Let_def)
qed

theorem dispatched_not_early_witness:
  "demo_msg \<notin> set (dispatchCh (demo_wheel\<lparr>currentIndex := 1\<rparr>)) \<and> DeliveryAt demo_msg < 200 * Millisecond + Millisecond"
proof -
  define n where "n = 200 * Millisecond"
  obtain tw' where t: "tick Suc (\<lambda>i. (n, n, n)) (demo_wheel\<lparr>currentIndex := 1\<rparr>) = Ret tw'"
    "demo_msg \<in> set (dispatchCh tw')"
    by (simp add: demo_wheel_def demo_msg_def tick_def tick_cut_def dispatchMessage_def dispatchCap_def n_def Millisecond_def)
  have m: "demo_msg \<notin> set (dispatchCh (demo_wheel\<lparr>currentIndex := 1\<rparr>))" by (simp add: demo_wheel_def)
  have "DeliveryAt demo_msg < n + Millisecond"
    by (rule dispatched_not_early [OF demo_wheel_ok(2) t(1) _ t(2) m]) simp
  with m show ?thesis by (simp add: n_def)
qed

text \<open>The loop of \<open>tick\<close> runs without the bucket's mutex: a message that another goroutine files in the
  same bucket meanwhile takes the place of the first message the loop has yet to read.\<close>

theorem concurrent_add_overwrites:
  assumes "wheel_ok tw" and "b = buckets tw ! nat (currentIndex tw)" and "0 < s_len b"
    and "\<not> DeliveryAt m - now < Millisecond"
    and "spec_slot now m (wheel_abs (tick_cut tw)) = nat (currentIndex tw)"
  shows "arrays (tw_AddMessage grow now m (tick_cut tw)) ! s_arr b ! 0 = Some m"
proof -
  let ?tw = "tick_cut tw" and ?c = "nat (currentIndex tw)"
  have c: "?c < length (buckets tw)" using assms(1) by (simp add: wheel_ok_def)
  have cut: "buckets ?tw ! ?c = b\<lparr>s_len := 0\<rparr>" "arrays ?tw = arrays tw" using c assms(2) by (simp_all add: tick_cut_def Let_def)
  have b: "slice_ok (arrays tw) b" using assms(1,2) c by (simp add: wheel_ok_def list_all_length)
  show ?thesis
    using wheel_ok_cut(1) [OF assms(1) refl]
  proof (cases rule: AddMessage_cases [where msg = m and now = now and grow = grow])
    case now
    then show ?thesis using assms(4) by simp
  next
    case (later i s arrs)
    then show ?thesis using assms(3,5) cut b
      by (auto simp: slice_append_def slice_ok_def Let_def split: if_splits)
  qed
qed

theorem concurrent_add_overwrites_witness:
  "arrays (tw_AddMessage Suc 0 (demo_msg\<lparr>dm_Topic := ''u'', DeliveryAt := 20 * Millisecond\<rparr>)
     (tick_cut (demo_wheel\<lparr>currentIndex := 1\<rparr>))) ! 3 ! 0 = Some (demo_msg\<lparr>dm_Topic := ''u'', DeliveryAt := 20 * Millisecond\<rparr>)"
proof -
  have "arrays (tw_AddMessage Suc 0 (demo_msg\<lparr>dm_Topic := ''u'', DeliveryAt := 20 * Millisecond\<rparr>)
     (tick_cut (demo_wheel\<lparr>currentIndex := 1\<rparr>))) ! s_arr \<lparr>s_arr = 3, s_len = 1\<rparr> ! 0
     = Some (demo_msg\<lparr>dm_Topic := ''u'', DeliveryAt := 20 * Millisecond\<rparr>)"
    by (rule concurrent_add_overwrites [OF demo_wheel_ok(2)])
      (simp_all add: demo_wheel_def tick_cut_def spec_slot_def wheel_abs_def time_sub_def Millisecond_def)
  then show ?thesis by simp
qed

end
