(* ===== verification/Audit_Log.thy ===== *)
theory Audit_Log
  imports Go_Prelude "HOL-Library.Sublist"
begin

text \<open>
  \<^verbatim>\<open>cluster/go/audit/logger.go\<close>: records go through a channel of 1000 places to a goroutine that
  writes them to a file. \<open>json.Marshal\<close> of a record of strings and integers does not fail; the file
  holds the records themselves, one per line. Shown: the file is an ordered extract of what was logged, complete while the channel
  never overflows and writes succeed.
\<close>

record AuditRecord =
  ar_Timestamp :: int
  ClientIP :: string
  Operation :: string
  ar_Topic :: string
  ar_Partition :: int
  ar_Offset :: int
  ar_GroupID :: string
  MsgSize :: int

record AuditLogger =
  audit_ch :: "AuditRecord list"
  audit_done :: bool
  audit_file :: "AuditRecord list"

definition auditCap :: nat where "auditCap = 1000"

text \<open>\<open>NewAuditLogger\<close> opens the file, which may hold the records of earlier runs; \<open>None\<close> if the
  directory or the file cannot be made.\<close>

definition NewAuditLogger :: "AuditRecord list option \<Rightarrow> AuditLogger option" where
  "NewAuditLogger opened = map_option (\<lambda>recs. \<lparr>audit_ch = [], audit_done = False, audit_file = recs\<rparr>) opened"

definition audit_write :: "time \<Rightarrow> bool \<Rightarrow> AuditRecord \<Rightarrow> AuditLogger \<Rightarrow> AuditLogger" where
  "audit_write now io_ok rec a =
     (if io_ok then a\<lparr>audit_file := audit_file a @ [rec\<lparr>ar_Timestamp := UnixNano now\<rparr>]\<rparr> else a)"

text \<open>One round of \<open>run\<close> that receives a record. A write after \<open>Close\<close> fails, since the file is closed.\<close>

definition audit_run :: "time \<Rightarrow> bool \<Rightarrow> AuditLogger \<Rightarrow> AuditLogger" where
  "audit_run now io_ok a =
     (case audit_ch a of
        [] \<Rightarrow> a
      | rec # recs \<Rightarrow> audit_write now (io_ok \<and> \<not> audit_done a) rec (a\<lparr>audit_ch := recs\<rparr>))"

definition Log :: "AuditRecord \<Rightarrow> AuditLogger \<Rightarrow> AuditLogger" where
  "Log rec a = (if length (audit_ch a) < auditCap then a\<lparr>audit_ch := audit_ch a @ [rec]\<rparr> else a)"

definition audit_Close :: "AuditLogger \<Rightarrow> AuditLogger go" where
  "audit_Close a = (if audit_done a then Panic else Ret (a\<lparr>audit_done := True\<rparr>))"

definition produce_record :: "string \<Rightarrow> string \<Rightarrow> int \<Rightarrow> int \<Rightarrow> int \<Rightarrow> AuditRecord" where
  "produce_record clientIP topic part offset msgSize =
     \<lparr>ar_Timestamp = 0, ClientIP = clientIP, Operation = ''PRODUCE'', ar_Topic = topic, ar_Partition = part,
      ar_Offset = offset, ar_GroupID = [], MsgSize = msgSize\<rparr>"

definition consume_record :: "string \<Rightarrow> string \<Rightarrow> int \<Rightarrow> int \<Rightarrow> string \<Rightarrow> int \<Rightarrow> AuditRecord" where
  "consume_record clientIP topic part offset groupID msgSize =
     \<lparr>ar_Timestamp = 0, ClientIP = clientIP, Operation = ''CONSUME'', ar_Topic = topic, ar_Partition = part,
      ar_Offset = offset, ar_GroupID = groupID, MsgSize = msgSize\<rparr>"

definition LogProduce :: "string \<Rightarrow> string \<Rightarrow> int \<Rightarrow> int \<Rightarrow> int \<Rightarrow> AuditLogger \<Rightarrow> AuditLogger" where
  "LogProduce clientIP topic part offset msgSize = Log (produce_record clientIP topic part offset msgSize)"

definition LogConsume :: "string \<Rightarrow> string \<Rightarrow> int \<Rightarrow> int \<Rightarrow> string \<Rightarrow> int \<Rightarrow> AuditLogger \<Rightarrow> AuditLogger" where
  "LogConsume clientIP topic part offset groupID msgSize = Log (consume_record clientIP topic part offset groupID msgSize)"

section \<open>Runs\<close>

datatype audit_op = ALog AuditRecord | ARun time bool

fun audit_step :: "AuditLogger \<Rightarrow> audit_op \<Rightarrow> AuditLogger" where
  "audit_step a (ALog rec) = Log rec a"
| "audit_step a (ARun now io_ok) = audit_run now io_ok a"

fun logged :: "audit_op list \<Rightarrow> AuditRecord list" where
  "logged [] = []"
| "logged (ALog rec # ops) = rec # logged ops"
| "logged (ARun now io_ok # ops) = logged ops"

text \<open>A record up to its time stamp, and all records of a logger, written or waiting.\<close>

definition unstamped :: "AuditRecord \<Rightarrow> AuditRecord" where
  "unstamped rec = rec\<lparr>ar_Timestamp := 0\<rparr>"

definition audit_all :: "AuditLogger \<Rightarrow> AuditRecord list" where
  "audit_all a = map unstamped (audit_file a @ audit_ch a)"

lemma unstamped_stamp [simp]: "unstamped (rec\<lparr>ar_Timestamp := t\<rparr>) = unstamped rec"
  by (simp add: unstamped_def)

lemma audit_all_run: "subseq (audit_all (audit_run now ok a)) (audit_all a)"
  "ok \<Longrightarrow> \<not> audit_done a \<Longrightarrow> audit_all (audit_run now ok a) = audit_all a"
  by (auto simp: audit_run_def audit_write_def audit_all_def intro: list_emb_append_mono split: list.split)

lemma audit_done_step [simp]: "audit_done (audit_step a op) = audit_done a"
  by (cases op) (auto simp: Log_def audit_run_def audit_write_def split: list.split)

lemma audit_all_step:
  "subseq (audit_all (audit_step a op)) (audit_all a @ map unstamped (logged [op]))"
proof (cases op)
  case (ALog rec)
  then show ?thesis by (auto simp: Log_def audit_all_def intro: list_emb_append_mono)
next
  case (ARun now ok)
  then show ?thesis by (simp add: audit_all_run)
qed

lemma logged_Cons: "logged (op # ops) = logged [op] @ logged ops"
  by (cases op) simp_all

lemma audit_all_steps: "subseq (audit_all (foldl audit_step a ops)) (audit_all a @ map unstamped (logged ops))"
proof (induction ops arbitrary: a)
  case (Cons op ops)
  have "subseq (audit_all (foldl audit_step (audit_step a op) ops))
      (audit_all (audit_step a op) @ map unstamped (logged ops))" by (rule Cons)
  also have "subseq \<dots> ((audit_all a @ map unstamped (logged [op])) @ map unstamped (logged ops))"
    by (intro list_emb_append_mono audit_all_step) simp
  finally show ?case by (simp add: logged_Cons [of op ops])
qed simp

text \<open>The channel has a free place at every \<open>Log\<close> of the run and every write succeeds.\<close>

fun audit_smooth :: "AuditLogger \<Rightarrow> audit_op list \<Rightarrow> bool" where
  "audit_smooth a [] \<longleftrightarrow> True"
| "audit_smooth a (ALog rec # ops) \<longleftrightarrow> length (audit_ch a) < auditCap \<and> audit_smooth (audit_step a (ALog rec)) ops"
| "audit_smooth a (ARun now io_ok # ops) \<longleftrightarrow> io_ok \<and> audit_smooth (audit_step a (ARun now io_ok)) ops"

lemma audit_all_smooth:
  "audit_smooth a ops \<Longrightarrow> \<not> audit_done a \<Longrightarrow>
   audit_all (foldl audit_step a ops) = audit_all a @ map unstamped (logged ops)"
proof (induction ops arbitrary: a)
  case (Cons op ops)
  have "audit_all (audit_step a op) = audit_all a @ map unstamped (logged [op]) \<and> audit_smooth (audit_step a op) ops"
    using Cons.prems by (cases op) (auto simp: audit_all_run Log_def audit_all_def [of "_\<lparr>audit_ch := _\<rparr>"] audit_all_def [of a])
  then show ?case using Cons.IH [of "audit_step a op"] Cons.prems(2) by (simp add: logged_Cons [of op ops])
qed simp

text \<open>C39. Over any run the audit file, with the records still in the channel behind it, is an ordered extract of what was logged after what the file held, and
  all of it if the channel never overflows and every write succeeds.\<close>

theorem audit_file_faithful:
  assumes "NewAuditLogger (Some old) = Some a" and "a' = foldl audit_step a ops"
  shows "subseq (map unstamped (audit_file a' @ audit_ch a')) (map unstamped (old @ logged ops))
    \<and> (audit_smooth a ops \<longrightarrow> map unstamped (audit_file a' @ audit_ch a') = map unstamped (old @ logged ops))"
proof -
  have a: "audit_all a = map unstamped old" "\<not> audit_done a" using assms(1) by (auto simp: NewAuditLogger_def audit_all_def)
  show ?thesis
    using audit_all_steps [of a ops] audit_all_smooth [of a ops] a
    unfolding assms(2) audit_all_def [of "foldl audit_step a ops"] by simp
qed

theorem audit_file_faithful_witness:
  "map unstamped (audit_file (foldl audit_step \<lparr>audit_ch = [], audit_done = False, audit_file = []\<rparr>
      [ALog (produce_record ''h'' ''t'' 0 0 5), ARun 3 True])) = [produce_record ''h'' ''t'' 0 0 5]"
  using audit_file_faithful [of "[]" "\<lparr>audit_ch = [], audit_done = False, audit_file = []\<rparr>" _
      "[ALog (produce_record ''h'' ''t'' 0 0 5), ARun 3 True]"]
  by (simp add: NewAuditLogger_def Log_def audit_run_def audit_write_def auditCap_def unstamped_def produce_record_def)

end
