(* ===== verification/Wire.thy ===== *)
theory Wire
  imports Go_Prelude
begin

text \<open>
  The TCP protocol of \<^verbatim>\<open>cluster/go/broker/broker.go\<close>: the frames a broker reads, the responses it writes,
  and the body of a fetch response. A connection is the list of bytes that arrive on it; a reader that needs more bytes than
  arrive does not get on (\<open>Eof\<close>). Shown: what a client writes is what \<open>handleClient\<close> reads, frame after frame.
\<close>

section \<open>Constants\<close>

definition Magic :: byte where "Magic = 0xD0"
definition CmdProduce :: byte where "CmdProduce = 0x01"
definition CmdFetch :: byte where "CmdFetch = 0x02"
definition CmdJoinGroup :: byte where "CmdJoinGroup = 0x03"
definition CmdHeartbeat :: byte where "CmdHeartbeat = 0x04"
definition CmdCommitOffset :: byte where "CmdCommitOffset = 0x05"
definition CmdLeaveGroup :: byte where "CmdLeaveGroup = 0x06"
definition CmdAck :: byte where "CmdAck = 0x07"

definition RespSuccess :: byte where "RespSuccess = 0x00"
definition RespRedirect :: byte where "RespRedirect = 0x01"
definition RespDLQ :: byte where "RespDLQ = 0x02"
definition RespRetried :: byte where "RespRetried = 0x03"
definition RespError :: byte where "RespError = 0xFF"

lemmas wire_consts = Magic_def CmdProduce_def CmdFetch_def CmdJoinGroup_def CmdHeartbeat_def CmdCommitOffset_def
  CmdLeaveGroup_def CmdAck_def RespSuccess_def RespRedirect_def RespDLQ_def RespRetried_def RespError_def

section \<open>Frames\<close>

text \<open>\<open>io.ReadFull\<close>.\<close>

definition ReadFull :: "nat \<Rightarrow> byte list \<Rightarrow> (byte list \<times> byte list) option" where
  "ReadFull n bs = (if n \<le> length bs then Some (take n bs, drop n bs) else None)"

record frame =
  fr_cmd :: byte
  fr_topic :: string
  fr_partition :: int
  fr_data :: "byte list"

datatype frame_error = Eof | BadMagic byte

text \<open>One round of \<open>handleClient\<close> up to the switch: the frame and what is left of the stream.\<close>

definition read_frame :: "byte list \<Rightarrow> frame_error + frame \<times> byte list" where
  "read_frame bs =
     (case ReadFull 12 bs of
        None \<Rightarrow> Inl Eof
      | Some (header, bs1) \<Rightarrow>
          if header ! 0 \<noteq> Magic then Inl (BadMagic (header ! 0))
          else let cmdID = header ! 1;
                   topicLen = get_be (take 2 (drop 2 header));
                   part = to_s 32 (get_be (take 4 (drop 4 header)));
                   dataLen = get_be (take 4 (drop 8 header))
               in case ReadFull topicLen bs1 of
                    None \<Rightarrow> Inl Eof
                  | Some (topicBuf, bs2) \<Rightarrow>
                      (case ReadFull dataLen bs2 of
                         None \<Rightarrow> Inl Eof
                       | Some (fdata, bs3) \<Rightarrow>
                           Inr (\<lparr>fr_cmd = cmdID, fr_topic = string_of topicBuf, fr_partition = part, fr_data = fdata\<rparr>, bs3)))"

text \<open>The header and the whole frame as the clients write them.\<close>

definition frame_header :: "byte \<Rightarrow> nat \<Rightarrow> int \<Rightarrow> nat \<Rightarrow> byte list" where
  "frame_header cmd topicLen part dataLen =
     [Magic, cmd] @ put_be 2 (to_u 16 (int topicLen)) @ put_be 4 (to_u 32 part) @ put_be 4 (to_u 32 (int dataLen))"

definition write_frame :: "frame \<Rightarrow> byte list" where
  "write_frame f =
     frame_header (fr_cmd f) (length (fr_topic f)) (fr_partition f) (length (fr_data f)) @ bytes_of (fr_topic f) @ fr_data f"

text \<open>What fits the fields of the header.\<close>

definition frame_ok :: "frame \<Rightarrow> bool" where
  "frame_ok f \<longleftrightarrow> length (fr_topic f) < 2 ^ 16 \<and> length (fr_data f) < 2 ^ 32
     \<and> - (2 ^ 31) \<le> fr_partition f \<and> fr_partition f < 2 ^ 31"

section \<open>Responses\<close>

definition sendResponse :: "byte \<Rightarrow> string \<Rightarrow> int \<Rightarrow> byte list" where
  "sendResponse status leader offset =
     [Magic, status]
     @ (if status = RespRedirect \<and> leader \<noteq> [] then of_nat (length leader) # bytes_of leader else [])
     @ (if status = RespSuccess then put_be 8 (to_u 64 offset) else [])"

text \<open>The messages of a fetch response.\<close>

record Message =
  m_Topic :: string
  m_Partition :: int
  m_Key :: string
  m_Value :: "byte list"
  m_Offset :: int
  m_Timestamp :: int

definition fetch_entry :: "Message \<Rightarrow> byte list" where
  "fetch_entry msg =
     put_be 8 (to_u 64 (m_Offset msg)) @ put_be 8 (to_u 64 (m_Timestamp msg))
     @ put_be 4 (to_u 32 (int (length (m_Value msg)))) @ m_Value msg"

definition fetch_response :: "Message list \<Rightarrow> int \<Rightarrow> byte list" where
  "fetch_response msgs highWatermark =
     [Magic, RespSuccess] @ put_be 8 (to_u 64 highWatermark) @ put_be 4 (to_u 32 (int (length msgs)))
     @ concat (map fetch_entry msgs)"

section \<open>Streams of values\<close>

text \<open>Reading \<open>k\<close> values one after the other, up to the first error.\<close>

fun read_many :: "(byte list \<Rightarrow> 'e + 'a \<times> byte list) \<Rightarrow> nat \<Rightarrow> byte list \<Rightarrow> 'a list \<times> 'e option \<times> byte list" where
  "read_many dec 0 bs = ([], None, bs)"
| "read_many dec (Suc k) bs =
     (case dec bs of
        Inl e \<Rightarrow> ([], Some e, bs)
      | Inr (x, bs') \<Rightarrow> (case read_many dec k bs' of (xs, e, rest) \<Rightarrow> (x # xs, e, rest)))"

text \<open>What a reader of a stream relies on: a value that was written is read and the rest of the stream is left.\<close>

locale stream_codec =
  fixes enc :: "'a \<Rightarrow> byte list" and dec :: "byte list \<Rightarrow> 'e + 'a \<times> byte list" and valid :: "'a \<Rightarrow> bool"
  assumes dec_enc_rest: "valid x \<Longrightarrow> dec (enc x @ rest) = Inr (x, rest)"
begin

lemma read_many_enc: "list_all valid xs \<Longrightarrow> read_many dec (length xs) (concat (map enc xs) @ rest) = (xs, None, rest)"
  by (induction xs) (simp_all add: dec_enc_rest)

end

section \<open>Reading back\<close>

lemma ReadFull_append [simp]: "length xs = n \<Longrightarrow> ReadFull n (xs @ ys) = Some (xs, ys)"
  by (auto simp: ReadFull_def)

lemma ReadFull_short: "length bs < n \<Longrightarrow> ReadFull n bs = None"
  by (simp add: ReadFull_def)

lemma to_u_small: "0 \<le> i \<Longrightarrow> i < 2 ^ w \<Longrightarrow> to_u w i = nat i"
  by (simp add: to_u_def)

lemma get_len16: "n < 2 ^ 16 \<Longrightarrow> get_be (put_be 2 (to_u 16 (int n))) = n"
  and get_len32: "n < 2 ^ 32 \<Longrightarrow> get_be (put_be 4 (to_u 32 (int n))) = n"
  by (simp_all add: to_u_small be16.dec_enc be32.dec_enc del: put_be.simps)

lemma length_frame_header [simp]: "length (frame_header c t p d) = 12"
  by (simp add: frame_header_def)

lemma frame_header_fields:
  "frame_header c t p d ! 0 = Magic" "frame_header c t p d ! Suc 0 = c"
  "take 2 (drop 2 (frame_header c t p d)) = put_be 2 (to_u 16 (int t))"
  "take 4 (drop 4 (frame_header c t p d)) = put_be 4 (to_u 32 p)"
  "take 4 (drop 8 (frame_header c t p d)) = put_be 4 (to_u 32 (int d))"
  by (simp_all add: frame_header_def del: put_be.simps)

lemma read_write_frame:
  assumes "frame_ok f"
  shows "read_frame (write_frame f @ rest) = Inr (f, rest)"
proof -
  let ?h = "frame_header (fr_cmd f) (length (fr_topic f)) (fr_partition f) (length (fr_data f))"
  have len: "length (fr_topic f) < 2 ^ 16" "length (fr_data f) < 2 ^ 32"
    and p: "to_s 32 (get_be (put_be 4 (to_u 32 (fr_partition f)))) = fr_partition f"
    using assms be_int32.dec_enc [of "fr_partition f"] by (simp_all add: frame_ok_def del: put_be.simps)
  have "write_frame f @ rest = ?h @ bytes_of (fr_topic f) @ fr_data f @ rest" by (simp add: write_frame_def)
  then show ?thesis
    by (simp add: read_frame_def frame_header_fields get_len16 [OF len(1)] get_len32 [OF len(2)] p Let_def del: put_be.simps)
qed

interpretation frames: stream_codec write_frame read_frame frame_ok
  by unfold_locales (rule read_write_frame)

text \<open>Frames that a client writes one after the other, with topics below 64 KiB and data below 4 GiB, are what \<open>handleClient\<close> reads, in
  order, and nothing of the stream behind them is consumed.\<close>

theorem frames_roundtrip:
  assumes "list_all frame_ok fs"
  shows "read_many read_frame (length fs) (concat (map write_frame fs) @ rest) = (fs, None, rest)"
  by (rule frames.read_many_enc [OF assms])

definition demo_frames :: "frame list" where
  "demo_frames = [\<lparr>fr_cmd = CmdProduce, fr_topic = ''t'', fr_partition = 0, fr_data = [1, 104]\<rparr>,
     \<lparr>fr_cmd = CmdFetch, fr_topic = ''t'', fr_partition = -1, fr_data = []\<rparr>]"

theorem frames_roundtrip_witness:
  "read_many read_frame (length demo_frames) (concat (map write_frame demo_frames) @ [7]) = (demo_frames, None, [7])"
  by (rule frames_roundtrip) (simp add: demo_frames_def frame_ok_def)

end
