(* ===== verification/Broker.thy ===== *)
theory Broker
  imports Raft_Node Storage Namespaces Idempotent Transactions Tracing Time_Wheel Audit_Log Wire
begin

text \<open>
  \<^verbatim>\<open>cluster/go/broker/broker.go\<close>: the broker, which puts the Raft node, the commit logs, the namespaces, the
  idempotent producers, the tracer, the time wheel and the audit log together. Answers of the name server are arguments
  (\<open>answer\<close>: \<open>None\<close> if the request failed, otherwise the status and the decoded body, if any); \<open>clk i\<close> is
  the \<open>i\<close>-th reading of the clock in a call. Operations that reach \<open>SubmitCommand\<close> may block for ever with it.
\<close>

section \<open>State\<close>

record RetryMessage =
  rm_Topic :: string
  rm_Partition :: int
  rm_Offset :: int
  rm_Data :: "byte list"
  RetryCount :: int
  NextRetryAt :: time

record TopicPartition =
  tp_Topic :: string
  tp_Partition :: int
  commitLog :: CommitLog
  tp_index :: SparseIndex

record RouteInfo =
  ri_Topic :: string
  ri_Partition :: int
  ri_Leader :: string
  ri_Replicas :: "string list"
  ri_ISR :: "string list"

record Broker =
  brokerID :: int
  b_addr :: string
  b_clientAddr :: string
  b_httpPort :: int
  b_nameserverURL :: string
  b_dataDir :: string
  b_topics :: "(string, TopicPartition) gomap"
  raftNode :: RaftNode
  retentionMs :: int
  retentionBytes :: int
  retryQueue :: "RetryMessage list"
  auditLogger :: "AuditLogger option"
  timeWheel :: TimeWheel
  tracer :: Tracer
  namespaceManager :: NamespaceManager
  idempotentMgr :: IdempotentManager
  txnManager :: TransactionManager

datatype broker_error =
    PermissionError ns_error
  | PermissionDenied string string
  | RouteError
  | NotLeaderOf string
  | IdempotenceError idem_error
  | SubmitError raft_error
  | TopicPartitionNotFound

type_synonym 'a http_answer = "(int \<times> 'a option) option"

definition MaxRetryCount :: int where "MaxRetryCount = 3"

text \<open>The key of a partition, \<open>fmt.Sprintf("%s-%d", topic, partition)\<close>, and the conversion \<open>int32(p)\<close>.\<close>

definition tp_key :: "string \<Rightarrow> int \<Rightarrow> string" where
  "tp_key topic part = topic @ ''-'' @ itoa part"

definition to_int32 :: "int \<Rightarrow> int" where
  "to_int32 i = to_s 32 (to_u 32 i)"

definition SetRetention :: "int \<Rightarrow> int \<Rightarrow> Broker \<Rightarrow> Broker" where
  "SetRetention ms bytes b = b\<lparr>retentionMs := ms, retentionBytes := bytes\<rparr>"

section \<open>Applying committed entries\<close>

text \<open>\<open>opened key\<close> is what the files of the partition hold when its log is opened, or \<open>None\<close> if a directory
  or a file cannot be made: the code then panics.\<close>

type_synonym log_files = "string \<Rightarrow> ((int, nat) gomap \<times> byte list list) option"

definition getOrCreateTopicPartition :: "log_files \<Rightarrow> string \<Rightarrow> int \<Rightarrow> Broker \<Rightarrow> (TopicPartition \<times> Broker) go" where
  "getOrCreateTopicPartition opened topic part b =
     (let key = tp_key topic part
      in case map_of (b_topics b) key of
           Some tp \<Rightarrow> Ret (tp, b)
         | None \<Rightarrow>
             (case opened key of
                None \<Rightarrow> Panic
              | Some (d, inos) \<Rightarrow>
                  let tp = \<lparr>tp_Topic = topic, tp_Partition = part, commitLog = OpenCommitLog d inos, tp_index = OpenSparseIndex\<rparr>
                  in Ret (tp, b\<lparr>b_topics := put key tp (b_topics b)\<rparr>)))"

text \<open>The first loop of \<open>applyBatch\<close>: \<open>env i\<close> has the outcome of the write and the two clock readings for entry \<open>i\<close>.
  The second loop only flushes files.\<close>

definition apply_entry :: "log_files \<Rightarrow> io \<times> time \<times> time \<Rightarrow> LogEntry \<Rightarrow> Broker \<Rightarrow> Broker go" where
  "apply_entry opened e entry b =
     go_bind (getOrCreateTopicPartition opened (le_Topic entry) (le_Partition entry) b)
       (\<lambda>(tp, b1). case e of (io, now1, now2) \<Rightarrow>
          (case Append io now1 (le_Data entry) (commitLog tp) of
             (Inl err, cl) \<Rightarrow>
               Ret (b1\<lparr>b_topics := put (tp_key (le_Topic entry) (le_Partition entry)) (tp\<lparr>commitLog := cl\<rparr>) (b_topics b1)\<rparr>)
           | (Inr offset, cl) \<Rightarrow>
               Ret (b1\<lparr>b_topics := put (tp_key (le_Topic entry) (le_Partition entry))
                         (tp\<lparr>commitLog := cl,
                             tp_index := idx_Put offset (to_int32 (int (length (le_Data entry)))) (UnixNano now2) (tp_index tp)\<rparr>)
                         (b_topics b1)\<rparr>)))"

fun apply_loop :: "log_files \<Rightarrow> (nat \<Rightarrow> io \<times> time \<times> time) \<Rightarrow> nat \<Rightarrow> LogEntry list \<Rightarrow> Broker \<Rightarrow> Broker go" where
  "apply_loop opened env i [] b = Ret b"
| "apply_loop opened env i (entry # batch) b =
     go_bind (apply_entry opened (env i) entry b) (apply_loop opened env (i + 1) batch)"

definition applyBatch :: "log_files \<Rightarrow> (nat \<Rightarrow> io \<times> time \<times> time) \<Rightarrow> LogEntry list \<Rightarrow> Broker \<Rightarrow> Broker go" where
  "applyBatch opened env batch b = apply_loop opened env 0 batch b"

text \<open>\<open>handleApply\<close>: the events of its select. \<open>ApplyStop\<close> stands for the closed stop channel and for the closed apply channel.\<close>

datatype apply_event = ApplyEntry LogEntry | ApplyTimer | ApplyStop

definition apply_event_step ::
    "log_files \<Rightarrow> (nat \<Rightarrow> io \<times> time \<times> time) \<Rightarrow> apply_event \<Rightarrow> LogEntry list \<times> Broker \<Rightarrow> (LogEntry list \<times> Broker) go" where
  "apply_event_step opened env ev s =
     (case s of (batch, b) \<Rightarrow>
        (case ev of
           ApplyEntry entry \<Rightarrow>
             let batch1 = batch @ [entry]
             in if 100 \<le> length batch1 then go_bind (applyBatch opened env batch1 b) (\<lambda>b1. Ret ([], b1))
                else Ret (batch1, b)
         | _ \<Rightarrow> if 0 < length batch then go_bind (applyBatch opened env batch b) (\<lambda>b1. Ret ([], b1)) else Ret (batch, b)))"

text \<open>The loop itself, on the events that come; \<open>env i\<close> is what the batch of round \<open>i\<close> meets.\<close>

fun handleApply ::
    "log_files \<Rightarrow> (nat \<Rightarrow> nat \<Rightarrow> io \<times> time \<times> time) \<Rightarrow> nat \<Rightarrow> apply_event list \<Rightarrow> LogEntry list \<times> Broker \<Rightarrow> (LogEntry list \<times> Broker) go" where
  "handleApply opened env i [] s = Ret s"
| "handleApply opened env i (ev # evs) s =
     go_bind (apply_event_step opened (env i) ev s)
       (\<lambda>s1. case ev of ApplyStop \<Rightarrow> Ret s1 | _ \<Rightarrow> handleApply opened env (i + 1) evs s1)"

section \<open>Retries and delayed messages\<close>

fun retry_loop :: "time \<Rightarrow> RetryMessage list \<Rightarrow> RetryMessage list \<Rightarrow> Broker \<Rightarrow> Broker go" where
  "retry_loop now [] newQueue b = Ret (b\<lparr>retryQueue := newQueue\<rparr>)"
| "retry_loop now (msg # msgs) newQueue b =
     (if now < NextRetryAt msg then retry_loop now msgs (newQueue @ [msg]) b
      else go_bind (SubmitCommand (rm_Topic msg @ ''_RETRY'') (to_int32 (rm_Partition msg)) (rm_Data msg) (raftNode b))
             (\<lambda>(res, r). case res of
                Inl e \<Rightarrow> retry_loop now msgs (newQueue @ [msg]) (b\<lparr>raftNode := r\<rparr>)
              | Inr x \<Rightarrow> retry_loop now msgs newQueue (b\<lparr>raftNode := r\<rparr>)))"

definition processRetryQueue :: "time \<Rightarrow> Broker \<Rightarrow> Broker go" where
  "processRetryQueue now b = retry_loop now (retryQueue b) [] b"

text \<open>One round of \<open>startDelayedMessageProcessor\<close> that receives a message.\<close>

definition processDelayed :: "Broker \<Rightarrow> Broker go" where
  "processDelayed b =
     (case dispatchCh (timeWheel b) of
        [] \<Rightarrow> Ret b
      | msg # msgs \<Rightarrow>
          let b1 = b\<lparr>timeWheel := (timeWheel b)\<lparr>dispatchCh := msgs\<rparr>\<rparr>
          in if \<not> has (b_topics b1) (dm_Topic msg) then Ret b1
             else go_bind (SubmitCommand (dm_Topic msg) (to_int32 (dm_Partition msg)) (dm_Data msg) (raftNode b1))
                    (\<lambda>(res, r). Ret (b1\<lparr>raftNode := r\<rparr>)))"

text \<open>\<open>handleTCPAck\<close>: the bytes written to the connection and the broker.\<close>

definition handleTCPAck :: "time \<Rightarrow> string \<Rightarrow> int \<Rightarrow> byte list \<Rightarrow> Broker \<Rightarrow> (byte list \<times> Broker) go" where
  "handleTCPAck now topic part data b =
     (if length data < 9 then Ret (sendResponse RespError [] 0, b)
      else let offset = to_s 64 (get_be (take 8 data)); status = data ! 8
           in if status = 0 then Ret (sendResponse RespSuccess [] 0, b)
              else if \<not> has (b_topics b) topic then Ret (sendResponse RespError [] 0, b)
              else let retryCount = (if 10 \<le> length data then int (unat (data ! 9)) else 0) + 1
                   in if MaxRetryCount \<le> retryCount
                      then if length data < 11 then Ret (sendResponse RespError [] 0, b)
                           else go_bind (SubmitCommand (topic @ ''_DLQ'') part (drop 10 data) (raftNode b))
                                  (\<lambda>(res, r). case res of
                                     Inl e \<Rightarrow> Ret (sendResponse RespError [] 0, b\<lparr>raftNode := r\<rparr>)
                                   | Inr x \<Rightarrow> Ret (sendResponse RespDLQ [] 0, b\<lparr>raftNode := r\<rparr>))
                      else if length data < 11 then Ret (sendResponse RespError [] 0, b)
                      else let msg = \<lparr>rm_Topic = topic, rm_Partition = part, rm_Offset = offset, rm_Data = drop 10 data,
                                      RetryCount = retryCount, NextRetryAt = now + 5 * Second\<rparr>
                           in Ret (sendResponse RespRetried [] 0, b\<lparr>retryQueue := retryQueue b @ [msg]\<rparr>))"

section \<open>Routes\<close>

text \<open>A body that cannot be decoded leaves the zero route; its error is dropped.\<close>

definition zero_route :: RouteInfo where
  "zero_route = \<lparr>ri_Topic = [], ri_Partition = 0, ri_Leader = [], ri_Replicas = [], ri_ISR = []\<rparr>"

definition route_url :: "Broker \<Rightarrow> string \<Rightarrow> string \<Rightarrow> string" where
  "route_url b topic key = b_nameserverURL b @ ''/route?topic='' @ topic @ ''&key='' @ key"

definition getRoute :: "RouteInfo http_answer \<Rightarrow> RouteInfo option" where
  "getRoute answer =
     (case answer of
        None \<Rightarrow> None
      | Some (status, body) \<Rightarrow>
          if status \<noteq> 200 then None else Some (case body of None \<Rightarrow> zero_route | Some route \<Rightarrow> route))"

definition IsPartitionLeader :: "string \<Rightarrow> int \<Rightarrow> Broker \<Rightarrow> bool" where
  "IsPartitionLeader topic part b \<longleftrightarrow> fst (GetState (raftNode b)) = Leader"

text \<open>\<open>get url\<close> is the answer to a request.\<close>

definition GetPartitionLeader :: "(string \<Rightarrow> RouteInfo http_answer) \<Rightarrow> string \<Rightarrow> int \<Rightarrow> Broker \<Rightarrow> string option" where
  "GetPartitionLeader get topic part b = map_option ri_Leader (getRoute (get (route_url b topic [])))"

section \<open>Producing and consuming\<close>

definition raft_error_text :: "raft_error \<Rightarrow> string" where
  "raft_error_text e = (case e of NotLeader \<Rightarrow> ''not leader'' | _ \<Rightarrow> [])"

text \<open>From the first trace event on; \<open>tracer.AddEvent\<close> with \<open>broker\<close> and the broker's address.\<close>

definition trace_event :: "string \<Rightarrow> TraceEventType \<Rightarrow> (string, detail) gomap \<Rightarrow> time \<Rightarrow> Broker \<Rightarrow> Broker" where
  "trace_event traceID ty details now b =
     b\<lparr>tracer := AddEvent traceID ty ''broker'' (b_addr b) details now (tracer b)\<rparr>"

definition produce_submit ::
    "(nat \<Rightarrow> time) \<Rightarrow> ((string \<times> TraceContext) list \<Rightarrow> (string \<times> TraceContext) list) \<Rightarrow> RouteInfo \<Rightarrow>
     string \<Rightarrow> string \<Rightarrow> byte list \<Rightarrow> string \<Rightarrow> string \<Rightarrow> int \<Rightarrow> Broker \<Rightarrow> ((broker_error + Message) \<times> Broker) go" where
  "produce_submit clk ord route topic key val userID producerID seqNum b =
     (let (ctx, tr) = StartTrace ord topic (ri_Partition route) (clk 1) (clk 2) (clk 3) (tracer b);
          b1 = trace_event (TraceID ctx) TraceEventProduce
                 [(''topic'', DStr topic), (''partition'', DInt (ri_Partition route)), (''key'', DStr key),
                  (''size'', DInt (int (length val))), (''userID'', DStr userID), (''producerID'', DStr producerID),
                  (''seqNum'', DInt seqNum)] (clk 4) (b\<lparr>tracer := tr\<rparr>);
          msg = \<lparr>m_Topic = topic, m_Partition = ri_Partition route, m_Key = key, m_Value = val, m_Offset = 0,
                 m_Timestamp = UnixNano (clk 5)\<rparr>
      in go_bind (SubmitCommand topic (to_int32 (ri_Partition route)) val (raftNode b1))
           (\<lambda>(res, r). let b2 = b1\<lparr>raftNode := r\<rparr> in
              case res of
                Inl e \<Rightarrow> Ret (Inl (SubmitError e),
                             trace_event (TraceID ctx) TraceEventDLQ [(''error'', DStr (raft_error_text e))] (clk 6) b2)
              | Inr x \<Rightarrow> Ret (Inr msg,
                             trace_event (TraceID ctx) TraceEventReplicate [(''status'', DStr ''submitted'')] (clk 6) b2)))"

definition Produce ::
    "(nat \<Rightarrow> time) \<Rightarrow> ((string \<times> ProducerState) list \<Rightarrow> (string \<times> ProducerState) list) \<Rightarrow>
     ((string \<times> TraceContext) list \<Rightarrow> (string \<times> TraceContext) list) \<Rightarrow> (string \<Rightarrow> RouteInfo http_answer) \<Rightarrow>
     string \<Rightarrow> string \<Rightarrow> byte list \<Rightarrow> string \<Rightarrow> string \<Rightarrow> int \<Rightarrow> Broker \<Rightarrow> ((broker_error + Message) \<times> Broker) go" where
  "Produce clk ordI ordT get topic key val userID producerID seqNum b =
     (case CheckPermission userID topic ActionProduce (namespaceManager b) of
        Inl e \<Rightarrow> Ret (Inl (PermissionError e), b)
      | Inr allowed \<Rightarrow>
          if \<not> allowed then Ret (Inl (PermissionDenied userID topic), b)
          else case getRoute (get (route_url b topic key)) of
                 None \<Rightarrow> Ret (Inl RouteError, b)
               | Some route \<Rightarrow>
                   if ri_Leader route \<noteq> b_clientAddr b then Ret (Inl (NotLeaderOf (ri_Leader route)), b)
                   else if producerID = [] then produce_submit clk ordT route topic key val userID producerID seqNum b
                   else let (res, im) = CheckAndRecord ordI producerID seqNum (tp_key topic (ri_Partition route)) (clk 0) (idempotentMgr b);
                            b1 = b\<lparr>idempotentMgr := im\<rparr>
                        in case res of
                             Inl e \<Rightarrow> Ret (Inl (IdempotenceError e), b1)
                           | Inr ok \<Rightarrow>
                               if \<not> ok
                               then Ret (Inr \<lparr>m_Topic = topic, m_Partition = ri_Partition route, m_Key = key, m_Value = val,
                                             m_Offset = 0, m_Timestamp = UnixNano (clk 1)\<rparr>, b1)
                               else produce_submit clk ordT route topic key val userID producerID seqNum b1)"

definition new_message :: "string \<Rightarrow> int \<Rightarrow> IndexEntry \<Rightarrow> byte list \<Rightarrow> Message" where
  "new_message topic part entry data =
     \<lparr>m_Topic = topic, m_Partition = part, m_Key = [], m_Value = data, m_Offset = ie_Offset entry,
      m_Timestamp = ie_Timestamp entry\<rparr>"

text \<open>The loops of \<open>Consume\<close> and \<open>Fetch\<close>; making a buffer of a negative size panics, an entry that cannot be read is left out.\<close>

fun consume_loop :: "string \<Rightarrow> int \<Rightarrow> CommitLog \<Rightarrow> Message list \<Rightarrow> IndexEntry list \<Rightarrow> Message list go" where
  "consume_loop topic part cl msgs [] = Ret msgs"
| "consume_loop topic part cl msgs (entry # entries) =
     (if ie_Size entry < 0 then Panic
      else case Read (ie_Offset entry) (nat (ie_Size entry)) cl of
             Inl e \<Rightarrow> consume_loop topic part cl msgs entries
           | Inr data \<Rightarrow> consume_loop topic part cl (msgs @ [new_message topic part entry data]) entries)"

fun fetch_loop :: "string \<Rightarrow> int \<Rightarrow> CommitLog \<Rightarrow> int \<Rightarrow> int \<Rightarrow> Message list \<Rightarrow> IndexEntry list \<Rightarrow> Message list go" where
  "fetch_loop topic part cl maxBytes totalBytes msgs [] = Ret msgs"
| "fetch_loop topic part cl maxBytes totalBytes msgs (entry # entries) =
     (if maxBytes < totalBytes + ie_Size entry \<and> 0 < length msgs then Ret msgs
      else if ie_Size entry < 0 then Panic
      else case Read (ie_Offset entry) (nat (ie_Size entry)) cl of
             Inl e \<Rightarrow> fetch_loop topic part cl maxBytes totalBytes msgs entries
           | Inr data \<Rightarrow>
               fetch_loop topic part cl maxBytes (totalBytes + ie_Size entry) (msgs @ [new_message topic part entry data]) entries)"

definition Consume :: "idx_order \<Rightarrow> string \<Rightarrow> int \<Rightarrow> int \<Rightarrow> string \<Rightarrow> Broker \<Rightarrow> (broker_error + Message list) go" where
  "Consume ord topic part offset userID b =
     (case CheckPermission userID topic ActionConsume (namespaceManager b) of
        Inl e \<Rightarrow> Ret (Inl (PermissionError e))
      | Inr allowed \<Rightarrow>
          if \<not> allowed then Ret (Inl (PermissionDenied userID topic))
          else case map_of (b_topics b) (tp_key topic part) of
                 None \<Rightarrow> Ret (Inl TopicPartitionNotFound)
               | Some tp \<Rightarrow>
                   go_bind (consume_loop topic part (commitLog tp) [] (GetEntriesAfter ord offset (tp_index tp))) (\<lambda>msgs. Ret (Inr msgs)))"

definition Fetch :: "idx_order \<Rightarrow> string \<Rightarrow> int \<Rightarrow> int \<Rightarrow> int \<Rightarrow> Broker \<Rightarrow> (broker_error + Message list \<times> int) go" where
  "Fetch ord topic part offset maxBytes b =
     (case map_of (b_topics b) (tp_key topic part) of
        None \<Rightarrow> Ret (Inl TopicPartitionNotFound)
      | Some tp \<Rightarrow>
          let entries = GetEntriesAfter ord offset (tp_index tp);
              highWatermark = (if entries = [] then 0 else ie_Offset (last entries) + 1)
          in go_bind (fetch_loop topic part (commitLog tp) maxBytes 0 [] entries) (\<lambda>msgs. Ret (Inr (msgs, highWatermark))))"

section \<open>TCP handlers\<close>

text \<open>\<open>committed\<close>: the commit channel was closed before the five seconds were over; \<open>get1\<close> and \<open>get2\<close> answer the first and the second
  request for the route.\<close>

definition handleTCPProduce ::
    "(string \<Rightarrow> RouteInfo http_answer) \<Rightarrow> (string \<Rightarrow> RouteInfo http_answer) \<Rightarrow> bool \<Rightarrow> string \<Rightarrow> string \<Rightarrow> int \<Rightarrow> byte list \<Rightarrow>
     Broker \<Rightarrow> (byte list \<times> Broker) go" where
  "handleTCPProduce get1 get2 committed clientIP topic part data b =
     (case GetPartitionLeader get1 topic part b of
        None \<Rightarrow> Ret (sendResponse RespError [] 0, b)
      | Some leader \<Rightarrow>
          if leader \<noteq> b_clientAddr b then Ret (sendResponse RespRedirect leader 0, b)
          else if \<not> IsPartitionLeader topic part b
          then (case GetPartitionLeader get2 topic part b of
                  Some newLeader \<Rightarrow> Ret (sendResponse RespRedirect newLeader 0, b)
                | None \<Rightarrow> Ret (sendResponse RespRedirect leader 0, b))
          else let acks = (case data of [] \<Rightarrow> 1 | a # rest \<Rightarrow> sint a);
                   msgData = (case data of [] \<Rightarrow> data | a # rest \<Rightarrow> rest)
               in go_bind (SubmitCommand topic part msgData (raftNode b))
                    (\<lambda>(res, r). let b1 = b\<lparr>raftNode := r\<rparr> in
                       case res of
                         Inl e \<Rightarrow> Ret (sendResponse RespError [] 0, b1)
                       | Inr (entryIndex, commitCh) \<Rightarrow>
                           if acks = -1 \<and> \<not> committed then Ret (sendResponse RespError [] 0, b1)
                           else Ret (sendResponse RespSuccess [] (int entryIndex),
                                     b1\<lparr>auditLogger := map_option (LogProduce clientIP topic part 0 (int (length msgData))) (auditLogger b1)\<rparr>)))"

definition audit_consumed :: "string \<Rightarrow> string \<Rightarrow> int \<Rightarrow> Message list \<Rightarrow> AuditLogger \<Rightarrow> AuditLogger" where
  "audit_consumed clientIP topic part msgs a =
     foldl (\<lambda>a msg. LogConsume clientIP topic part (m_Offset msg) [] (int (length (m_Value msg))) a) a msgs"

definition handleTCPFetch :: "idx_order \<Rightarrow> string \<Rightarrow> string \<Rightarrow> int \<Rightarrow> byte list \<Rightarrow> Broker \<Rightarrow> (byte list \<times> Broker) go" where
  "handleTCPFetch ord clientIP topic part data b =
     (if length data < 8 then Ret (sendResponse RespError [] 0, b)
      else let offset = to_s 64 (get_be (take 8 data));
               maxBytes = (if 12 \<le> length data then to_s 32 (get_be (take 4 (drop 8 data))) else 1024 * 1024)
           in go_bind (Fetch ord topic part offset maxBytes b)
                (\<lambda>res. case res of
                   Inl e \<Rightarrow> Ret (sendResponse RespError [] 0, b)
                 | Inr (msgs, highWatermark) \<Rightarrow>
                     Ret (fetch_response msgs highWatermark,
                          b\<lparr>auditLogger := map_option (audit_consumed clientIP topic part msgs) (auditLogger b)\<rparr>)))"

text \<open>The four requests that are passed on to the name server: the client's JSON must decode (\<open>decoded\<close>), the answer is
  reduced to its status, and for a join its body is sent back.\<close>

definition passed_on :: "bool \<Rightarrow> bool \<Rightarrow> byte list http_answer \<Rightarrow> byte list" where
  "passed_on decoded with_body answer =
     (if \<not> decoded then sendResponse RespError [] 0
      else case answer of
             None \<Rightarrow> sendResponse RespError [] 0
           | Some (status, body) \<Rightarrow>
               [Magic, if status = 200 then RespSuccess else RespError]
               @ (if with_body then (case body of None \<Rightarrow> [] | Some bytes \<Rightarrow> bytes) else []))"

definition handleTCPJoinGroup :: "(string \<Rightarrow> byte list http_answer) \<Rightarrow> (string \<times> string) option \<Rightarrow> string \<Rightarrow> Broker \<Rightarrow> byte list" where
  "handleTCPJoinGroup get request topic b =
     (case request of
        None \<Rightarrow> passed_on False True None
      | Some (groupID, clientID) \<Rightarrow>
          passed_on True True (get (b_nameserverURL b @ ''/consumer/join?group_id='' @ groupID @ ''&client_id='' @ clientID @ ''&topic='' @ topic)))"

definition handleTCPHeartbeat :: "(string \<Rightarrow> byte list http_answer) \<Rightarrow> (string \<times> string) option \<Rightarrow> Broker \<Rightarrow> byte list" where
  "handleTCPHeartbeat get request b =
     (case request of
        None \<Rightarrow> passed_on False False None
      | Some (groupID, clientID) \<Rightarrow>
          passed_on True False (get (b_nameserverURL b @ ''/consumer/heartbeat?group_id='' @ groupID @ ''&client_id='' @ clientID)))"

definition handleTCPCommitOffset :: "(string \<Rightarrow> byte list http_answer) \<Rightarrow> (string \<times> int) option \<Rightarrow> string \<Rightarrow> int \<Rightarrow> Broker \<Rightarrow> byte list" where
  "handleTCPCommitOffset get request topic part b =
     (case request of
        None \<Rightarrow> passed_on False False None
      | Some (groupID, offset) \<Rightarrow>
          passed_on True False (get (b_nameserverURL b @ ''/consumer/commit_offset?group_id='' @ groupID @ ''&topic='' @ topic
                                     @ ''&partition='' @ itoa part @ ''&offset='' @ itoa offset)))"

definition handleTCPLeaveGroup :: "(string \<Rightarrow> byte list http_answer) \<Rightarrow> (string \<times> string) option \<Rightarrow> Broker \<Rightarrow> byte list" where
  "handleTCPLeaveGroup get request b =
     (case request of
        None \<Rightarrow> passed_on False False None
      | Some (groupID, clientID) \<Rightarrow>
          passed_on True False (get (b_nameserverURL b @ ''/consumer/leave?group_id='' @ groupID @ ''&client_id='' @ clientID)))"

section \<open>Retention\<close>

text \<open>\<open>cleanupOldSegments\<close>: the directory it names for a partition, the directory in which \<open>openCommitLog\<close> keeps the segments, and
  the loop over the partitions. A directory that no log uses does not exist and is passed over.\<close>

definition segmentDir :: "TopicPartition \<Rightarrow> string" where
  "segmentDir tp = tp_key (tp_Topic tp) (tp_Partition tp)"

definition log_path :: "string \<Rightarrow> string" where
  "log_path key = key @ ''.log''"

definition cleanup_partition :: "time \<Rightarrow> (string \<Rightarrow> int \<Rightarrow> time) \<Rightarrow> TopicPartition \<Rightarrow> Broker \<Rightarrow> Broker" where
  "cleanup_partition now mtime tp b =
     (case find (\<lambda>(key, tp'). log_path key = segmentDir tp) (b_topics b) of
        None \<Rightarrow> b
      | Some (key, tp') \<Rightarrow>
          b\<lparr>b_topics := put key (tp'\<lparr>commitLog := snd (CleanupOldSegments now (retentionMs b) (retentionBytes b) (mtime key) (commitLog tp'))\<rparr>)
                          (b_topics b)\<rparr>)"

definition cleanupOldSegments ::
    "((string \<times> TopicPartition) list \<Rightarrow> (string \<times> TopicPartition) list) \<Rightarrow> (string \<Rightarrow> time) \<Rightarrow> (string \<Rightarrow> int \<Rightarrow> time) \<Rightarrow> Broker \<Rightarrow> Broker" where
  "cleanupOldSegments ord now mtime b =
     foldl (\<lambda>b (key, tp). cleanup_partition (now key) mtime tp b) b (ord (b_topics b))"

section \<open>Connections\<close>

text \<open>What a request needs from outside: the answers of the name server, the outcome of the wait for a commit, the peer's address, the iteration order of the
  index, the clock, and the JSON decoders of the group requests.\<close>

record client_env =
  ce_route1 :: "string \<Rightarrow> RouteInfo http_answer"
  ce_route2 :: "string \<Rightarrow> RouteInfo http_answer"
  ce_committed :: bool
  ce_ip :: string
  ce_ord :: idx_order
  ce_now :: time
  ce_get :: "string \<Rightarrow> byte list http_answer"
  ce_member :: "byte list \<Rightarrow> (string \<times> string) option"
  ce_offset :: "byte list \<Rightarrow> (string \<times> int) option"

text \<open>The switch of \<open>handleClient\<close>; nothing is written for an unknown command.\<close>

definition dispatch :: "client_env \<Rightarrow> frame \<Rightarrow> Broker \<Rightarrow> (byte list \<times> Broker) go" where
  "dispatch env f b =
     (let topic = fr_topic f; part = fr_partition f; data = fr_data f
      in if fr_cmd f = CmdProduce then handleTCPProduce (ce_route1 env) (ce_route2 env) (ce_committed env) (ce_ip env) topic part data b
         else if fr_cmd f = CmdFetch then handleTCPFetch (ce_ord env) (ce_ip env) topic part data b
         else if fr_cmd f = CmdJoinGroup then Ret (handleTCPJoinGroup (ce_get env) (ce_member env data) topic b, b)
         else if fr_cmd f = CmdHeartbeat then Ret (handleTCPHeartbeat (ce_get env) (ce_member env data) b, b)
         else if fr_cmd f = CmdCommitOffset then Ret (handleTCPCommitOffset (ce_get env) (ce_offset env data) topic part b, b)
         else if fr_cmd f = CmdLeaveGroup then Ret (handleTCPLeaveGroup (ce_get env) (ce_member env data) b, b)
         else if fr_cmd f = CmdAck then handleTCPAck (ce_now env) topic part data b
         else Ret ([], b))"

lemma read_frame_shorter: "read_frame bs = Inr (f, rest) \<Longrightarrow> length rest < length bs"
  by (auto simp: read_frame_def ReadFull_def Let_def split: if_splits option.splits prod.splits)

text \<open>\<open>handleClient\<close> on the bytes of a connection: what is written, and the broker after it. It ends with the stream or at
  the first frame that is not one.\<close>

function handleClient :: "(nat \<Rightarrow> client_env) \<Rightarrow> nat \<Rightarrow> byte list \<Rightarrow> Broker \<Rightarrow> (byte list \<times> Broker) go" where
  "handleClient env i bs b =
     (case read_frame bs of
        Inl e \<Rightarrow> Ret ([], b)
      | Inr (f, rest) \<Rightarrow>
          go_bind (dispatch (env i) f b)
            (\<lambda>(out, b1). go_bind (handleClient env (i + 1) rest b1) (\<lambda>(outs, b2). Ret (out @ outs, b2))))"
  by pat_completeness auto
termination
  by (relation "measure (\<lambda>(env, i, bs, b). length bs)") (auto dest: read_frame_shorter)

declare handleClient.simps [simp del]

section \<open>Start\<close>

text \<open>The loop that registers at the name server: one answer per attempt, \<open>None\<close> while none was good.\<close>

fun register_loop :: "int http_answer list \<Rightarrow> int option" where
  "register_loop [] = None"
| "register_loop (answer # answers) =
     (case answer of
        Some (status, Some result) \<Rightarrow> if status = 200 then Some result else register_loop answers
      | _ \<Rightarrow> register_loop answers)"

text \<open>The peers of a new broker: the addresses the name server lists without its own, none if the request or the decoding fails.\<close>

definition initial_peers :: "string \<Rightarrow> string list http_answer \<Rightarrow> string list" where
  "initial_peers addr answer =
     (case answer of
        Some (status, Some listed) \<Rightarrow> filter (\<lambda>peer. peer \<noteq> addr) listed
      | _ \<Rightarrow> [])"

definition registerAndInitializeRaft ::
    "int http_answer list \<Rightarrow> string list http_answer \<Rightarrow> RaftDisk \<Rightarrow> nat \<Rightarrow> Broker \<Rightarrow> Broker option" where
  "registerAndInitializeRaft answers listed d tid b =
     (case register_loop answers of
        None \<Rightarrow> None
      | Some result \<Rightarrow>
          Some (b\<lparr>brokerID := result,
                  raftNode := NewRaftNode (b_addr b) (initial_peers (b_addr b) listed) True (b_dataDir b @ ''/raft'') d tid\<rparr>))"

text \<open>\<open>NewBroker\<close>: the fields it starts with, and the whole; \<open>None\<close> while the name server has not answered. The Raft node is nil
  until it is made: \<open>r\<close> stands for it.\<close>

definition broker_struct ::
    "AuditLogger option \<Rightarrow> TimeWheel \<Rightarrow> RaftNode \<Rightarrow> string \<Rightarrow> string \<Rightarrow> int \<Rightarrow> string \<Rightarrow> string \<Rightarrow> Broker" where
  "broker_struct logger wheel r addr clientAddr httpPort url datadir =
     \<lparr>brokerID = 0, b_addr = addr, b_clientAddr = clientAddr, b_httpPort = httpPort, b_nameserverURL = url,
      b_dataDir = datadir, b_topics = [], raftNode = r, retentionMs = 7 * 24 * 60 * 60 * 1000, retentionBytes = 0,
      retryQueue = [], auditLogger = logger, timeWheel = wheel, tracer = NewTracer 1000 (5 * Minute),
      namespaceManager = NewNamespaceManager, idempotentMgr = NewIdempotentManager 10000 (10 * Minute),
      txnManager = NewTransactionManager 1000 (5 * Minute)\<rparr>"

definition NewBroker ::
    "int http_answer list \<Rightarrow> string list http_answer \<Rightarrow> RaftDisk \<Rightarrow> nat \<Rightarrow> AuditRecord list option \<Rightarrow> RaftNode \<Rightarrow>
     string \<Rightarrow> string \<Rightarrow> int \<Rightarrow> string \<Rightarrow> string \<Rightarrow> Broker option go" where
  "NewBroker answers listed d tid opened r addr clientAddr httpPort url datadir =
     go_bind (NewTimeWheel 100 3600) (\<lambda>wheel.
       Ret (registerAndInitializeRaft answers listed d tid
              (broker_struct (NewAuditLogger opened) wheel r addr clientAddr httpPort url datadir)))"

definition b_CreateTopic :: "unit http_answer \<Rightarrow> bool" where
  "b_CreateTopic answer = (case answer of None \<Rightarrow> False | Some (status, body) \<Rightarrow> status = 200)"

end
