(* ===== verification/Broker_Delivery.thy ===== *)
theory Broker_Delivery
  imports Broker
begin

text \<open>
  What the broker does with committed entries: they are appended to the log of their partition, and consumers get back what
  lies behind their offset. A partition is described by the list of the payloads that were applied to it (\<open>holds\<close>); applying
  entries appends to that list, and \<open>Consume\<close> and \<open>Fetch\<close> are functions of it.
\<close>

section \<open>The log of a partition\<close>

text \<open>The offsets of payloads that are appended one after the other, each behind its header of 20 bytes.\<close>

fun positions :: "int \<Rightarrow> byte list list \<Rightarrow> (int \<times> byte list) list" where
  "positions start [] = []"
| "positions start (d # ds) = (start, d) # positions (start + 20 + int (length d)) ds"

fun log_end :: "byte list list \<Rightarrow> int" where
  "log_end [] = 0"
| "log_end (d # ds) = 20 + int (length d) + log_end ds"

lemma log_end_append [simp]: "log_end (ds @ es) = log_end ds + log_end es"
  by (induction ds) auto

lemma log_end_nonneg [simp]: "0 \<le> log_end ds"
  by (induction ds) auto

lemma positions_append: "positions start (ds @ es) = positions start ds @ positions (start + log_end ds) es"
  by (induction ds arbitrary: start) (auto simp: algebra_simps)

lemma positions_bounds: "(off, d) \<in> set (positions start ds) \<Longrightarrow> start \<le> off \<and> off + 20 + int (length d) \<le> start + log_end ds"
proof (induction ds arbitrary: start)
  case (Cons e ds)
  show ?case
  proof (cases "(off, d) = (start, e)")
    case False
    then have "(off, d) \<in> set (positions (start + 20 + int (length e)) ds)" using Cons.prems by auto
    from Cons.IH [OF this] show ?thesis by simp
  qed (use log_end_nonneg [of ds] in simp)
qed simp

lemma positions_distinct: "distinct (map fst (positions start ds))"
proof (induction ds arbitrary: start)
  case (Cons d ds)
  have "start \<notin> fst ` set (positions (start + 20 + int (length d)) ds)"
    using positions_bounds [of _ _ "start + 20 + int (length d)" ds] by fastforce
  with Cons show ?case by simp
qed simp

text \<open>The partition holds the payloads \<open>ds\<close>: the index has an entry for each, and those in the first segment lie at their offset.\<close>

definition holds :: "TopicPartition \<Rightarrow> byte list list \<Rightarrow> bool" where
  "holds tp ds \<longleftrightarrow> log_inv (commitLog tp) \<and> aligned (commitLog tp) \<and> lastOffset (commitLog tp) = log_end ds \<and>
     map (\<lambda>(k, e). (k, ie_Offset e, ie_Size e)) (tp_index tp) = map (\<lambda>(off, d). (off, off, int (length d))) (positions 0 ds) \<and>
     (\<forall>(off, d) \<in> set (positions 0 ds). off < segmentBytes \<longrightarrow> stored off d (commitLog tp)) \<and>
     (\<forall>(k, e) \<in> set (tp_index tp). int64_range (ie_Timestamp e))"

lemma holds_fresh:
  "holds \<lparr>tp_Topic = topic, tp_Partition = part, commitLog = OpenCommitLog [] [], tp_index = OpenSparseIndex\<rparr> []"
  using log_inv_fresh by (simp add: holds_def aligned_def OpenSparseIndex_def fresh_log_def seg_file_def)

lemma holds_index:
  "holds tp ds \<Longrightarrow>
   map (\<lambda>(k, e). (k, ie_Offset e, ie_Size e)) (tp_index tp) = map (\<lambda>(off, d). (off, off, int (length d))) (positions 0 ds)"
  by (simp add: holds_def)

lemma holds_index_keys: "holds tp ds \<Longrightarrow> map fst (tp_index tp) = map fst (positions 0 ds)"
  using arg_cong [OF holds_index, of tp ds "map fst"] by (simp add: case_prod_unfold comp_def)

lemma to_int32_small: "0 \<le> i \<Longrightarrow> i < 2 ^ 31 \<Longrightarrow> to_int32 i = i"
  unfolding to_int32_def by (rule to_s_to_u) simp_all

lemma holds_Append:
  assumes "holds tp ds" and "length d < 2 ^ 31" and "Append IoOk now d (commitLog tp) = (res, cl)" and "int64_range ts"
  shows "res = Inr (log_end ds)"
    and "holds (tp\<lparr>commitLog := cl, tp_index := idx_Put (log_end ds) (to_int32 (int (length d))) ts (tp_index tp)\<rparr>) (ds @ [d])"
proof -
  have inv: "log_inv (commitLog tp)" "aligned (commitLog tp)" "lastOffset (commitLog tp) = log_end ds"
    using assms(1) by (simp_all add: holds_def)
  note A = Append_IoOk [OF inv(1) assms(3)]
  show "res = Inr (log_end ds)" using A(1) inv(3) by simp
  have "log_end ds \<notin> set (map fst (tp_index tp))"
    unfolding holds_index_keys [OF assms(1)] using positions_bounds [of _ _ 0 ds] by fastforce
  then have "map_of (tp_index tp) (log_end ds) = None" by (simp add: map_of_eq_None_iff)
  then have idx: "idx_Put (log_end ds) (to_int32 (int (length d))) ts (tp_index tp) =
      tp_index tp @ [(log_end ds, \<lparr>ie_Offset = log_end ds, ie_Size = int (length d), ie_Timestamp = ts\<rparr>)]"
    using assms(2) by (simp add: idx_Put_def put_new to_int32_small)
  have old: "stored off e cl" if "(off, e) \<in> set (positions 0 ds)" "off < segmentBytes" for off e
    using that assms(1) by (intro stored_Append [OF inv(1) assms(3)]) (auto simp: holds_def)
  have new: "log_end ds < segmentBytes \<Longrightarrow> stored (log_end ds) d cl"
    using aligned_stored [OF inv(1,2) assms(3)] inv(3) by simp
  show "holds (tp\<lparr>commitLog := cl, tp_index := idx_Put (log_end ds) (to_int32 (int (length d))) ts (tp_index tp)\<rparr>) (ds @ [d])"
    using assms(1,4) A(2,3) inv(3) aligned_Append [OF inv(1,2) assms(3)] old new
    by (auto simp: holds_def positions_append idx)
qed

section \<open>Applying entries\<close>

text \<open>The disk and the clock work: every write succeeds, and the time fits into 64 bits of nanoseconds.\<close>

definition env_ok :: "io \<times> time \<times> time \<Rightarrow> bool" where
  "env_ok e \<longleftrightarrow> fst e = IoOk \<and> int64_range (UnixNano (snd (snd e)))"

definition part_holds :: "Broker \<Rightarrow> string \<Rightarrow> byte list list \<Rightarrow> bool" where
  "part_holds b key ds \<longleftrightarrow> (case map_of (b_topics b) key of None \<Rightarrow> ds = [] | Some tp \<Rightarrow> holds tp ds)"

abbreviation entry_key :: "LogEntry \<Rightarrow> string" where
  "entry_key e \<equiv> tp_key (le_Topic e) (le_Partition e)"

definition payloads :: "string \<Rightarrow> LogEntry list \<Rightarrow> byte list list" where
  "payloads key batch = map le_Data (filter (\<lambda>e. entry_key e = key) batch)"

lemma payloads_simps [simp]:
  "payloads key [] = []"
  "payloads key (e # batch) = (if entry_key e = key then [le_Data e] else []) @ payloads key batch"
  by (simp_all add: payloads_def)

lemma getOrCreate_holds:
  assumes "part_holds b (tp_key topic part) ds" and "\<forall>k. opened k = Some ([], [])"
  shows "\<exists>tp ts. getOrCreateTopicPartition opened topic part b = Ret (tp, b\<lparr>b_topics := ts\<rparr>) \<and> holds tp ds
           \<and> (\<forall>k. k \<noteq> tp_key topic part \<longrightarrow> map_of ts k = map_of (b_topics b) k)"
proof (cases "map_of (b_topics b) (tp_key topic part)")
  case None
  then show ?thesis
    using assms holds_fresh [of topic part]
    by (auto simp: getOrCreateTopicPartition_def part_holds_def Let_def intro!: exI)
next
  case (Some tp)
  then show ?thesis
    using assms(1) by (intro exI [of _ tp] exI [of _ "b_topics b"]) (simp add: getOrCreateTopicPartition_def part_holds_def Let_def)
qed

lemma apply_entry_holds:
  assumes "\<forall>k. part_holds b k (D k)" and "\<forall>k. opened k = Some ([], [])" and "env_ok e" and "length (le_Data entry) < 2 ^ 31"
  shows "\<exists>ts. apply_entry opened e entry b = Ret (b\<lparr>b_topics := ts\<rparr>)
           \<and> (\<forall>k. part_holds (b\<lparr>b_topics := ts\<rparr>) k (D k @ payloads k [entry])) \<and> has ts (entry_key entry)"
proof -
  let ?k = "entry_key entry"
  obtain n1 n2 where e: "e = (IoOk, n1, n2)" and n2: "int64_range (UnixNano n2)" using assms(3) by (cases e) (auto simp: env_ok_def)
  obtain tp ts0 where g: "getOrCreateTopicPartition opened (le_Topic entry) (le_Partition entry) b = Ret (tp, b\<lparr>b_topics := ts0\<rparr>)"
      and h: "holds tp (D ?k)" and other: "\<And>k. k \<noteq> ?k \<Longrightarrow> map_of ts0 k = map_of (b_topics b) k"
    using getOrCreate_holds [OF spec [OF assms(1), of ?k] assms(2)] by blast
  obtain res cl where A: "Append IoOk n1 (le_Data entry) (commitLog tp) = (res, cl)" by fastforce
  note H = holds_Append [OF h assms(4) A n2]
  let ?tp = "tp\<lparr>commitLog := cl, tp_index := idx_Put (log_end (D ?k)) (to_int32 (int (length (le_Data entry)))) (UnixNano n2) (tp_index tp)\<rparr>"
  have "apply_entry opened e entry b = Ret (b\<lparr>b_topics := put ?k ?tp ts0\<rparr>)"
    unfolding apply_entry_def g e by (simp add: A H(1))
  moreover have "part_holds (b\<lparr>b_topics := put ?k ?tp ts0\<rparr>) k (D k @ payloads k [entry])" for k
    using spec [OF assms(1), of k] other [of k] H(2) by (cases "k = ?k") (simp_all add: part_holds_def)
  ultimately show ?thesis by (intro exI [of _ "put ?k ?tp ts0"]) simp
qed

lemma apply_loop_holds:
  assumes "\<forall>k. part_holds b k (D k)" and "\<forall>k. opened k = Some ([], [])" and "\<forall>i. env_ok (env i)"
    and "\<forall>e \<in> set batch. length (le_Data e) < 2 ^ 31"
  shows "\<exists>ts. apply_loop opened env i batch b = Ret (b\<lparr>b_topics := ts\<rparr>)
           \<and> (\<forall>k. part_holds (b\<lparr>b_topics := ts\<rparr>) k (D k @ payloads k batch))"
  using assms
proof (induction batch arbitrary: b D i)
  case Nil
  then show ?case by (intro exI [of _ "b_topics b"]) simp
next
  case (Cons entry batch)
  have io: "env_ok (env i)" and len: "length (le_Data entry) < 2 ^ 31" "\<forall>e \<in> set batch. length (le_Data e) < 2 ^ 31"
    using Cons.prems(3,4) by simp_all
  obtain ts where a: "apply_entry opened (env i) entry b = Ret (b\<lparr>b_topics := ts\<rparr>)"
      and h: "\<forall>k. part_holds (b\<lparr>b_topics := ts\<rparr>) k (D k @ payloads k [entry])"
    using apply_entry_holds [OF Cons.prems(1,2) io len(1)] by blast
  from Cons.IH [OF h Cons.prems(2,3) len(2), of "i + 1"] obtain ts' where
    "apply_loop opened env (i + 1) batch (b\<lparr>b_topics := ts\<rparr>) = Ret (b\<lparr>b_topics := ts\<rparr>\<lparr>b_topics := ts'\<rparr>)"
    "\<forall>k. part_holds (b\<lparr>b_topics := ts\<rparr>\<lparr>b_topics := ts'\<rparr>) k ((D k @ payloads k [entry]) @ payloads k batch)" by blast
  with a show ?case by (intro exI [of _ ts']) simp
qed

section \<open>Reading\<close>

text \<open>The payload at an offset, and the entries a request gets, in the order of the map.\<close>

definition payload_at :: "byte list list \<Rightarrow> int \<Rightarrow> byte list" where
  "payload_at ds off = (case map_of (positions 0 ds) off of None \<Rightarrow> [] | Some d \<Rightarrow> d)"

definition readable :: "CommitLog \<Rightarrow> (int \<Rightarrow> byte list) \<Rightarrow> IndexEntry \<Rightarrow> bool" where
  "readable cl D e \<longleftrightarrow> ie_Size e = int (length (D (ie_Offset e))) \<and> Read (ie_Offset e) (length (D (ie_Offset e))) cl = Inr (D (ie_Offset e))"

lemma payload_at: "(off, d) \<in> set (positions 0 ds) \<Longrightarrow> payload_at ds off = d"
  by (simp add: payload_at_def positions_distinct)

lemma holds_readable:
  assumes "holds tp ds" and "log_end ds \<le> segmentBytes" and "(k, e) \<in> set (tp_index tp)"
  shows "readable (commitLog tp) (payload_at ds) e" and "ie_Offset e = k"
proof -
  have "(k, ie_Offset e, ie_Size e) \<in> set (map (\<lambda>(k, e). (k, ie_Offset e, ie_Size e)) (tp_index tp))"
    using assms(3) by force
  then obtain d where d: "(k, d) \<in> set (positions 0 ds)" "ie_Offset e = k" "ie_Size e = int (length d)"
    unfolding holds_index [OF assms(1)] by auto
  then have "stored k d (commitLog tp)"
    using assms(1,2) positions_bounds [OF d(1)] by (auto simp: holds_def)
  then have "Read k (length d) (commitLog tp) = Inr d" by (rule stored_Read)
  with d payload_at [OF d(1)] show "readable (commitLog tp) (payload_at ds) e" "ie_Offset e = k"
    by (simp_all add: readable_def)
qed

lemma consume_loop_reads:
  "\<forall>e \<in> set es. readable cl D e \<Longrightarrow>
   consume_loop topic part cl acc es = Ret (acc @ map (\<lambda>e. new_message topic part e (D (ie_Offset e))) es)"
  by (induction es arbitrary: acc) (simp_all add: readable_def)

text \<open>\<open>Fetch\<close> stops at the first entry, but for the very first, that would exceed the limit.\<close>

fun within :: "int \<Rightarrow> int \<Rightarrow> bool \<Rightarrow> IndexEntry list \<Rightarrow> IndexEntry list" where
  "within maxBytes sofar some [] = []"
| "within maxBytes sofar some (e # es) =
     (if maxBytes < sofar + ie_Size e \<and> some then [] else e # within maxBytes (sofar + ie_Size e) True es)"

lemma fetch_loop_reads:
  "\<forall>e \<in> set es. readable cl D e \<Longrightarrow>
   fetch_loop topic part cl maxBytes sofar acc es =
     Ret (acc @ map (\<lambda>e. new_message topic part e (D (ie_Offset e))) (within maxBytes sofar (acc \<noteq> []) es))"
  by (induction es arbitrary: acc sofar) (simp_all add: readable_def)

lemma within_prefix: "\<exists>n. within maxBytes sofar some es = take n es \<and> (\<not> some \<and> es \<noteq> [] \<longrightarrow> 0 < n)"
proof (induction es arbitrary: sofar some)
  case (Cons e es)
  from Cons [of "sofar + ie_Size e" True] obtain n where "within maxBytes (sofar + ie_Size e) True es = take n es" by blast
  then show ?case by (cases "maxBytes < sofar + ie_Size e \<and> some") (auto intro: exI [of _ 0] exI [of _ "Suc n"])
qed simp

lemma within_all: "sofar + sum_list (map ie_Size es) \<le> maxBytes \<Longrightarrow> \<forall>e \<in> set es. 0 \<le> ie_Size e \<Longrightarrow> within maxBytes sofar some es = es"
proof (induction es arbitrary: sofar some)
  case (Cons e es)
  have "0 \<le> sum_list (map ie_Size es)" using Cons.prems(2) by (intro sum_list_nonneg) auto
  with Cons show ?case by simp
qed simp

lemma GetEntriesAfter_readable:
  assumes "holds tp ds" and "log_end ds \<le> segmentBytes" and "range_order ord"
  shows "\<forall>e \<in> set (GetEntriesAfter ord off (tp_index tp)). readable (commitLog tp) (payload_at ds) e"
  using holds_readable(1) [OF assms(1,2)] by (auto simp: GetEntriesAfter_set [OF assms(3)])

lemma GetEntriesAfter_offsets:
  assumes "holds tp ds" and "range_order ord" and "e \<in> set (GetEntriesAfter ord off (tp_index tp))"
  shows "0 \<le> ie_Offset e \<and> ie_Offset e + 20 \<le> log_end ds"
proof -
  obtain k where "(k, e) \<in> set (tp_index tp)" using assms(3) by (auto simp: GetEntriesAfter_set [OF assms(2)])
  then have "(k, ie_Offset e, ie_Size e) \<in> set (map (\<lambda>(k, e). (k, ie_Offset e, ie_Size e)) (tp_index tp))" by force
  then obtain d where "(ie_Offset e, d) \<in> set (positions 0 ds)" unfolding holds_index [OF assms(1)] by auto
  from positions_bounds [OF this] show ?thesis by simp
qed

lemma mset_GetEntriesAfter:
  assumes "holds tp ds" and "range_order ord"
  shows "mset (map ie_Offset (GetEntriesAfter ord off (tp_index tp))) = mset (filter ((<) off) (map fst (positions 0 ds)))"
proof -
  have "map ie_Offset (GetEntriesAfter ord off (tp_index tp)) = filter ((<) off) (map (ie_Offset \<circ> snd) (ord (tp_index tp)))"
    by (simp add: GetEntriesAfter_def filter_map comp_def)
  then have "mset (map ie_Offset (GetEntriesAfter ord off (tp_index tp))) = filter_mset ((<) off) (mset (map (ie_Offset \<circ> snd) (tp_index tp)))"
    using assms(2) by (simp add: mset_filter range_order_def)
  moreover have "map (ie_Offset \<circ> snd) (tp_index tp) = map fst (positions 0 ds)"
    using arg_cong [OF holds_index [OF assms(1)], of "map (fst \<circ> snd)"] by (simp add: case_prod_unfold comp_def)
  ultimately show ?thesis by (simp add: mset_filter)
qed

text \<open>What a consumer may get from \<open>ds\<close> behind an offset: offset and payload.\<close>

definition behind :: "int \<Rightarrow> byte list list \<Rightarrow> (int \<times> byte list) list" where
  "behind off ds = filter (\<lambda>(k, d). off < k) (positions 0 ds)"

definition msg_pair :: "Message \<Rightarrow> int \<times> byte list" where
  "msg_pair m = (m_Offset m, m_Value m)"

lemma filter_keys: "\<forall>x \<in> set xs. f (fst x) = x \<Longrightarrow> filter (\<lambda>(k, d). P k) xs = map f (filter P (map fst xs))"
  by (induction xs) auto

lemma mset_messages:
  assumes "holds tp ds" and "range_order ord"
  shows "mset (map (msg_pair \<circ> (\<lambda>e. new_message topic part e (payload_at ds (ie_Offset e)))) (GetEntriesAfter ord off (tp_index tp)))
           = mset (behind off ds)"
proof -
  have b: "behind off ds = map (\<lambda>k. (k, payload_at ds k)) (filter ((<) off) (map fst (positions 0 ds)))"
    unfolding behind_def by (intro filter_keys) (auto simp: payload_at)
  have "map (msg_pair \<circ> (\<lambda>e. new_message topic part e (payload_at ds (ie_Offset e)))) es = map (\<lambda>k. (k, payload_at ds k)) (map ie_Offset es)" for es
    by (simp add: msg_pair_def new_message_def)
  then show ?thesis using mset_GetEntriesAfter [OF assms, of off] unfolding b by (simp only: mset_map)
qed

lemma part_holds_found: "part_holds b key ds \<Longrightarrow> ds \<noteq> [] \<Longrightarrow> \<exists>tp. map_of (b_topics b) key = Some tp \<and> holds tp ds"
  by (auto simp: part_holds_def split: option.splits)

lemma Consume_holds:
  assumes "part_holds b (tp_key topic part) ds" and "ds \<noteq> []" and "log_end ds \<le> segmentBytes" and "range_order ord"
    and "CheckPermission userID topic ActionConsume (namespaceManager b) = Inr True"
  shows "\<exists>msgs. Consume ord topic part off userID b = Ret (Inr msgs) \<and> mset (map msg_pair msgs) = mset (behind off ds)"
proof -
  obtain tp where tp: "map_of (b_topics b) (tp_key topic part) = Some tp" "holds tp ds" using part_holds_found [OF assms(1,2)] by blast
  show ?thesis
    using mset_messages [OF tp(2) assms(4), of topic part off]
    by (simp add: Consume_def assms(5) tp(1) consume_loop_reads [OF GetEntriesAfter_readable [OF tp(2) assms(3,4)]] multiset.map_comp)
qed

text \<open>The messages of a fetch are the first ones of the map's order, at least one, and all of them if they fit.\<close>

lemma Fetch_holds:
  assumes "part_holds b (tp_key topic part) ds" and "ds \<noteq> []" and "log_end ds \<le> segmentBytes" and "range_order ord"
  shows "\<exists>msgs all n hw. Fetch ord topic part off maxBytes b = Ret (Inr (msgs, hw)) \<and> msgs = take n all \<and> mset (map msg_pair all) = mset (behind off ds)
           \<and> (behind off ds \<noteq> [] \<longrightarrow> 0 < n) \<and> (sum_list (map (int \<circ> length \<circ> snd) (behind off ds)) \<le> maxBytes \<longrightarrow> msgs = all)
           \<and> (\<forall>m \<in> set all. int64_range (m_Timestamp m)) \<and> 0 \<le> hw \<and> hw \<le> log_end ds"
proof -
  obtain tp where tp: "map_of (b_topics b) (tp_key topic part) = Some tp" "holds tp ds" using part_holds_found [OF assms(1,2)] by blast
  let ?es = "GetEntriesAfter ord off (tp_index tp)" and ?new = "\<lambda>e. new_message topic part e (payload_at ds (ie_Offset e))"
  let ?hw = "if ?es = [] then 0 else ie_Offset (last ?es) + 1"
  note r = GetEntriesAfter_readable [OF tp(2) assms(3,4), of off]
  note m = mset_messages [OF tp(2) assms(4), of topic part off]
  obtain n where n: "within maxBytes 0 False ?es = take n ?es" "?es \<noteq> [] \<longrightarrow> 0 < n" using within_prefix by blast
  have sizes: "map ie_Size ?es = map (int \<circ> length \<circ> snd \<circ> (msg_pair \<circ> ?new)) ?es"
    using r by (auto simp: readable_def msg_pair_def new_message_def)
  have "sum_list (map ie_Size ?es) = sum_list (map (int \<circ> length \<circ> snd) (behind off ds))"
    using arg_cong [OF m, of "\<lambda>M. sum_mset (image_mset (int \<circ> length \<circ> snd) M)"]
    unfolding sizes by (simp add: sum_mset_sum_list [symmetric] multiset.map_comp comp_assoc)
  then have all: "sum_list (map (int \<circ> length \<circ> snd) (behind off ds)) \<le> maxBytes \<longrightarrow> within maxBytes 0 False ?es = ?es"
    using r by (intro impI within_all) (auto simp: readable_def)
  have ne: "behind off ds \<noteq> [] \<longrightarrow> ?es \<noteq> []" using m by auto
  have "Fetch ord topic part off maxBytes b =
      Ret (Inr (map ?new (within maxBytes 0 False ?es), if ?es = [] then 0 else ie_Offset (last ?es) + 1))"
    by (simp add: Fetch_def tp(1) Let_def fetch_loop_reads [OF r])
  moreover have "map ?new (within maxBytes 0 False ?es) = take n (map ?new ?es)" using n(1) by (simp add: take_map)
  moreover have "mset (map msg_pair (map ?new ?es)) = mset (behind off ds)" using m by (simp add: multiset.map_comp)
  moreover have "behind off ds \<noteq> [] \<longrightarrow> 0 < n" using n(2) ne by blast
  moreover have "sum_list (map (int \<circ> length \<circ> snd) (behind off ds)) \<le> maxBytes \<longrightarrow>
      map ?new (within maxBytes 0 False ?es) = map ?new ?es" using all by simp
  moreover have "\<forall>m \<in> set (map ?new ?es). int64_range (m_Timestamp m)"
    using tp(2) by (auto simp: new_message_def GetEntriesAfter_set [OF assms(4)] holds_def)
  moreover have "0 \<le> ?hw" "?hw \<le> log_end ds" using GetEntriesAfter_offsets [OF tp(2) assms(4), of "last ?es" off] by (cases "?es = []"; force)+
  ultimately show ?thesis by (intro exI conjI)
qed

section \<open>The apply loop\<close>

fun entries_of :: "apply_event list \<Rightarrow> LogEntry list" where
  "entries_of [] = []"
| "entries_of (ApplyEntry e # evs) = e # entries_of evs"
| "entries_of (_ # evs) = entries_of evs"

lemma payloads_append [simp]: "payloads k (xs @ ys) = payloads k xs @ payloads k ys"
  by (simp add: payloads_def)

abbreviation small :: "LogEntry \<Rightarrow> bool" where
  "small e \<equiv> length (le_Data e) < 2 ^ 31"

lemma applyBatch_holds:
  assumes "\<forall>k. part_holds b k (D k)" and "\<forall>k. opened k = Some ([], [])" and "\<forall>i. env_ok (env i)" and "list_all small batch"
  shows "\<exists>ts. applyBatch opened env batch b = Ret (b\<lparr>b_topics := ts\<rparr>)
           \<and> (\<forall>k. part_holds (b\<lparr>b_topics := ts\<rparr>) k (D k @ payloads k batch))"
  using apply_loop_holds [OF assms(1-3)] assms(4) by (simp add: applyBatch_def list_all_iff)

text \<open>One round: what was received is either applied or still in the batch.\<close>

lemma apply_event_holds:
  assumes "\<forall>k. part_holds b k (D k)" and "\<forall>k. opened k = Some ([], [])" and "\<forall>i. env_ok (env i)" and "list_all small (batch @ entries_of [ev])"
  shows "\<exists>fin batch' ts. apply_event_step opened env ev (batch, b) = Ret (batch', b\<lparr>b_topics := ts\<rparr>) \<and> fin @ batch' = batch @ entries_of [ev]
           \<and> (\<forall>k. part_holds (b\<lparr>b_topics := ts\<rparr>) k (D k @ payloads k fin)) \<and> (entries_of [ev] = [] \<longrightarrow> batch' = [])"
proof -
  let ?all = "batch @ entries_of [ev]"
  obtain ts where a: "applyBatch opened env ?all b = Ret (b\<lparr>b_topics := ts\<rparr>)"
      and h: "\<forall>k. part_holds (b\<lparr>b_topics := ts\<rparr>) k (D k @ payloads k ?all)" using applyBatch_holds [OF assms] by blast
  consider "apply_event_step opened env ev (batch, b) = Ret ([], b\<lparr>b_topics := ts\<rparr>)"
    | "apply_event_step opened env ev (batch, b) = Ret (?all, b)" "entries_of [ev] = [] \<longrightarrow> ?all = []"
    using a by (cases "batch = []"; cases ev; cases "100 \<le> length ?all") (auto simp: apply_event_step_def Let_def)
  then show ?thesis
  proof cases
    case 1
    with h show ?thesis by (intro exI [of _ ?all] exI [of _ "[]"] exI [of _ ts]) simp
  next
    case 2
    with assms(1) show ?thesis by (intro exI [of _ "[]"] exI [of _ ?all] exI [of _ "b_topics b"]) auto
  qed
qed

lemma handleApply_holds:
  assumes "\<forall>k. part_holds b k (D k)" and "\<forall>k. opened k = Some ([], [])" and "\<forall>i j. env_ok (env i j)"
    and "list_all small (batch @ entries_of evs)" and "ApplyStop \<notin> set evs" and "ev = ApplyTimer \<or> ev = ApplyStop"
  shows "\<exists>ts. handleApply opened env i (evs @ [ev]) (batch, b) = Ret ([], b\<lparr>b_topics := ts\<rparr>)
           \<and> (\<forall>k. part_holds (b\<lparr>b_topics := ts\<rparr>) k (D k @ payloads k (batch @ entries_of evs)))"
  using assms
proof (induction evs arbitrary: b D batch i)
  case Nil
  have "entries_of [ev] = []" using Nil.prems(6) by auto
  with apply_event_holds [OF Nil.prems(1,2), of "env i" batch ev] Nil.prems(3,4) obtain ts where
    "apply_event_step opened (env i) ev (batch, b) = Ret ([], b\<lparr>b_topics := ts\<rparr>)"
    "\<forall>k. part_holds (b\<lparr>b_topics := ts\<rparr>) k (D k @ payloads k batch)" by auto
  then show ?case using Nil.prems(6) by (intro exI [of _ ts]) auto
next
  case (Cons e evs)
  have split: "entries_of (e # evs) = entries_of [e] @ entries_of evs" by (cases e) simp_all
  have s: "list_all small (batch @ entries_of [e])" using Cons.prems(4) unfolding split by simp
  obtain fin batch' ts where st: "apply_event_step opened (env i) e (batch, b) = Ret (batch', b\<lparr>b_topics := ts\<rparr>)"
      and fin: "fin @ batch' = batch @ entries_of [e]"
      and h: "\<forall>k. part_holds (b\<lparr>b_topics := ts\<rparr>) k (D k @ payloads k fin)"
    using apply_event_holds [OF Cons.prems(1,2) _ s, of "env i"] Cons.prems(3) by blast
  have "list_all small batch'" using arg_cong [OF fin, of "list_all small"] s by simp
  then have s': "list_all small (batch' @ entries_of evs)" using Cons.prems(4) unfolding split by simp
  have ns: "ApplyStop \<notin> set evs" "e \<noteq> ApplyStop" using Cons.prems(5) by auto
  from Cons.IH [OF h Cons.prems(2,3) s' ns(1) Cons.prems(6), of "i + 1"] obtain ts' where
    r: "handleApply opened env (i + 1) (evs @ [ev]) (batch', b\<lparr>b_topics := ts\<rparr>) = Ret ([], b\<lparr>b_topics := ts\<rparr>\<lparr>b_topics := ts'\<rparr>)"
      "\<forall>k. part_holds (b\<lparr>b_topics := ts\<rparr>\<lparr>b_topics := ts'\<rparr>) k ((D k @ payloads k fin) @ payloads k (batch' @ entries_of evs))" by blast
  have pe: "payloads k fin @ payloads k (batch' @ entries_of evs) = payloads k (batch @ entries_of (e # evs))" for k
    unfolding split using arg_cong [OF fin, of "payloads k"] by simp
  have "handleApply opened env i ((e # evs) @ [ev]) (batch, b) = Ret ([], b\<lparr>b_topics := ts'\<rparr>)"
    using r(1) st ns(2) by (cases e) simp_all
  moreover have "\<forall>k. part_holds (b\<lparr>b_topics := ts'\<rparr>) k (D k @ payloads k (batch @ entries_of (e # evs)))"
    using r(2) unfolding append_assoc pe by simp
  ultimately show ?case by blast
qed

lemma part_holds_empty: "b_topics b = [] \<Longrightarrow> part_holds b k []"
  by (simp add: part_holds_def)

section \<open>Properties\<close>

text \<open>A new broker and two entries of one partition, for the examples.\<close>

definition demo_raft :: RaftNode where
  "demo_raft = NewRaftNode ''b1'' [] True ''d'' \<lparr>stateFile = None, logFile = [], stateWritable = True, logIo = RaftLogOk\<rparr> 0"

definition demo_b :: Broker where
  "demo_b = broker_struct None \<lparr>tickMs = 1, wheelSize = 0, currentIndex = 0, buckets = [], arrays = [], dispatchCh = []\<rparr> demo_raft
     ''b1'' ''b1'' 8080 ''ns'' ''d''"

definition demo_clock :: "nat \<Rightarrow> nat \<Rightarrow> io \<times> time \<times> time" where
  "demo_clock i j = (IoOk, 62135596800 * Second, 62135596800 * Second)"

definition demo_events :: "apply_event list" where
  "demo_events = [ApplyEntry \<lparr>le_Term = 1, le_Index = 1, le_Type = DATA, le_Topic = ''t'', le_Partition = 0, le_Data = [1], le_Config = None\<rparr>, ApplyTimer,
     ApplyEntry \<lparr>le_Term = 1, le_Index = 2, le_Type = DATA, le_Topic = ''t'', le_Partition = 0, le_Data = [2], le_Config = None\<rparr>]"

lemma demo_entries: "payloads (tp_key ''t'' 0) (entries_of demo_events) = [[1], [2]]" "list_all small (entries_of demo_events)"
    "ApplyStop \<notin> set demo_events" "\<forall>i j. env_ok (demo_clock i j)"
  by (simp_all add: demo_events_def demo_clock_def env_ok_def UnixNano_def int64_range_def)

lemma demo_applied: "\<exists>b. part_holds b (tp_key ''t'' 0) [[1], [2]] \<and> namespaceManager b = NewNamespaceManager"
proof -
  have "\<forall>k. part_holds demo_b k []" by (simp add: part_holds_def demo_b_def broker_struct_def)
  from handleApply_holds [where D = "\<lambda>k. []", OF this _ demo_entries(4) _ demo_entries(3), of "\<lambda>k. Some ([], [])" "[]" ApplyTimer 0]
  obtain ts where "\<forall>k. part_holds (demo_b\<lparr>b_topics := ts\<rparr>) k (payloads k (entries_of demo_events))" using demo_entries(2) by auto
  then have "part_holds (demo_b\<lparr>b_topics := ts\<rparr>) (tp_key ''t'' 0) [[1], [2]]" using demo_entries(1) by metis
  then show ?thesis by (intro exI [of _ "demo_b\<lparr>b_topics := ts\<rparr>"]) (simp add: demo_b_def broker_struct_def)
qed

text \<open>Whatever order entries and timer pulses come in, once the batch is flushed a consumer of a partition gets from \<open>Consume\<close> exactly the payloads
  committed for the partition that lie behind its offset, each once, at the offset where the payloads before it end, as long as the log fits
  into its first segment.\<close>

theorem committed_entries_consumed:
  assumes "b_topics b = []" and "\<forall>k. opened k = Some ([], [])" and "\<forall>i j. env_ok (env i j)" and "list_all small (entries_of evs)"
    and "ApplyStop \<notin> set evs" and "ev = ApplyTimer \<or> ev = ApplyStop" and "ds = payloads (tp_key topic part) (entries_of evs)" and "ds \<noteq> []"
    and "log_end ds \<le> segmentBytes" and "range_order ord" and "CheckPermission userID topic ActionConsume (namespaceManager b) = Inr True"
  shows "\<exists>b' msgs. handleApply opened env 0 (evs @ [ev]) ([], b) = Ret ([], b') \<and> Consume ord topic part off userID b' = Ret (Inr msgs)
           \<and> mset (map msg_pair msgs) = mset (behind off ds)"
proof -
  have e: "\<forall>k. part_holds b k []" using assms(1) by (simp add: part_holds_empty)
  obtain ts where ts: "handleApply opened env 0 (evs @ [ev]) ([], b) = Ret ([], b\<lparr>b_topics := ts\<rparr>)"
      and h: "\<forall>k. part_holds (b\<lparr>b_topics := ts\<rparr>) k (payloads k (entries_of evs))"
    using handleApply_holds [where D = "\<lambda>k. []", OF e assms(2,3) _ assms(5,6), of "[]" 0] assms(4) by auto
  from Consume_holds [OF _ assms(8-10), of "b\<lparr>b_topics := ts\<rparr>" topic part userID off] h assms(7,11) ts
  show ?thesis by auto
qed

theorem committed_entries_consumed_witness:
  "\<exists>b' msgs. handleApply (\<lambda>k. Some ([], [])) demo_clock 0 (demo_events @ [ApplyStop]) ([], demo_b) = Ret ([], b')
     \<and> Consume rev ''t'' 0 0 [] b' = Ret (Inr msgs) \<and> mset (map msg_pair msgs) = {#(21, [2])#}"
  using committed_entries_consumed [of demo_b "\<lambda>k. Some ([], [])" demo_clock demo_events ApplyStop "[[1], [2]]" "''t''" 0 rev "[]" 0] demo_entries
  by (simp add: demo_b_def broker_struct_def behind_def segmentBytes_def CheckPermission_def NewNamespaceManager_def)

text \<open>The first payload of a partition lies at offset 0 and consumers are given what lies behind their offset: a consumer that starts at
  offset 0, as the name server tells it, or later never gets it from \<open>Fetch\<close>.\<close>

theorem first_message_never_fetched:
  assumes "part_holds b (tp_key topic part) (d # ds)" and "log_end (d # ds) \<le> segmentBytes" and "range_order ord" and "0 \<le> off"
  shows "\<exists>msgs hw. Fetch ord topic part off maxBytes b = Ret (Inr (msgs, hw))
           \<and> set (map msg_pair msgs) \<subseteq> set (positions (20 + int (length d)) ds) \<and> (\<forall>m \<in> set msgs. m_Offset m \<noteq> 0)"
proof -
  obtain msgs all n hw where f: "Fetch ord topic part off maxBytes b = Ret (Inr (msgs, hw))" "msgs = take n all"
      "mset (map msg_pair all) = mset (behind off (d # ds))"
    using Fetch_holds [OF assms(1) _ assms(2,3), of off maxBytes] by blast
  have "set (map msg_pair msgs) \<subseteq> set (map msg_pair all)" using set_take_subset [of n all] f(2) by auto
  also have "\<dots> = set (behind off (d # ds))" using f(3) by (rule mset_eq_setD)
  also have "\<dots> \<subseteq> set (positions (20 + int (length d)) ds)" using assms(4) by (auto simp: behind_def)
  finally have s: "set (map msg_pair msgs) \<subseteq> set (positions (20 + int (length d)) ds)" .
  have "m_Offset m \<noteq> 0" if "m \<in> set msgs" for m
  proof -
    have "msg_pair m \<in> set (positions (20 + int (length d)) ds)" using s that by auto
    from positions_bounds [OF this [unfolded msg_pair_def]] show ?thesis by simp
  qed
  with f(1) s show ?thesis by blast
qed

theorem first_message_never_fetched_witness:
  "\<exists>b msgs hw. part_holds b (tp_key ''t'' 0) [[1], [2]] \<and> Fetch id ''t'' 0 0 1024 b = Ret (Inr (msgs, hw))
     \<and> set (map msg_pair msgs) \<subseteq> {(21, [2])}"
proof -
  obtain b where b: "part_holds b (tp_key ''t'' 0) [[1], [2]]" using demo_applied by blast
  from first_message_never_fetched [OF b _ range_order_id(1), of 0 1024] b show ?thesis by (auto simp: segmentBytes_def)
qed

end
