(* ===== verification/Broker_Feed.thy ===== *)
theory Broker_Feed
  imports Raft_Apply Broker_Delivery
begin

text \<open>
  A node and its broker together: the entries that \<open>handleApply\<close> receives from the appliers of the node become the
  partitions consumers read. Shown: while the appliers do not overlap, consumers get what the node's log holds, as far
  as the broker received it; when they overlap, the order in which the goroutines run decides which message is stored at
  which offset.
\<close>

section \<open>A broker fed by its node\<close>

definition received :: "Process \<Rightarrow> LogEntry list" where
  "received s = take (p_received s) (applied (p_node s))"

text \<open>A new broker on empty files gets the entries \<open>es\<close>, with timer pulses anywhere between them.\<close>

definition fed_by :: "log_files \<Rightarrow> (nat \<Rightarrow> nat \<Rightarrow> io \<times> time \<times> time) \<Rightarrow> apply_event list \<Rightarrow> LogEntry list \<Rightarrow> Broker \<Rightarrow> bool" where
  "fed_by opened env evs es b \<longleftrightarrow>
     b_topics b = [] \<and> (\<forall>k. opened k = Some ([], [])) \<and> (\<forall>i j. env_ok (env i j)) \<and>
     entries_of evs = es \<and> list_all small es \<and> ApplyStop \<notin> set evs"

lemma fed_by_holds:
  assumes "fed_by opened env evs es b"
  obtains ts where "handleApply opened env 0 (evs @ [ApplyTimer]) ([], b) = Ret ([], b\<lparr>b_topics := ts\<rparr>)"
    and "\<forall>k. part_holds (b\<lparr>b_topics := ts\<rparr>) k (payloads k es)"
proof -
  have e: "\<forall>k. part_holds b k []" using assms by (simp add: fed_by_def part_holds_empty)
  show thesis
    using handleApply_holds [where D = "\<lambda>k. []", OF e, of opened env "[]" evs ApplyTimer 0] assms that
    by (auto simp: fed_by_def)
qed

text \<open>What a consumer of the partition gets from such a broker.\<close>

lemma fed_by_Consume:
  assumes "fed_by opened env evs es b" and "payloads (tp_key topic part) es \<noteq> []"
    and "log_end (payloads (tp_key topic part) es) \<le> segmentBytes" and "range_order ord"
    and "CheckPermission userID topic ActionConsume (namespaceManager b) = Inr True"
  obtains b' msgs where "handleApply opened env 0 (evs @ [ApplyTimer]) ([], b) = Ret ([], b')"
    and "Consume ord topic part off userID b' = Ret (Inr msgs)"
    and "mset (map msg_pair msgs) = mset (behind off (payloads (tp_key topic part) es))"
proof -
  obtain ts where ts: "handleApply opened env 0 (evs @ [ApplyTimer]) ([], b) = Ret ([], b\<lparr>b_topics := ts\<rparr>)"
      "\<forall>k. part_holds (b\<lparr>b_topics := ts\<rparr>) k (payloads k es)" by (rule fed_by_holds [OF assms(1)])
  from Consume_holds [of "b\<lparr>b_topics := ts\<rparr>" topic part _ ord userID off] ts(2) assms(2-5) obtain msgs where
    "Consume ord topic part off userID (b\<lparr>b_topics := ts\<rparr>) = Ret (Inr msgs)"
    "mset (map msg_pair msgs) = mset (behind off (payloads (tp_key topic part) es))" by auto
  with ts(1) show thesis by (rule that)
qed

section \<open>Appliers that do not overlap\<close>

lemma alone_from_boot:
  assumes "(proc_step 1)\<^sup>*\<^sup>* (boot r) s" and "applyCh r" and "applied r = []"
  shows "in_order (lastApplied r) s \<and> accounted (lastApplied r) s"
  by (rule in_order_reach [OF assms(1) _ accounted_boot]) (use assms in \<open>simp_all add: in_order_def boot_def\<close>)

text \<open>With one applier the broker has received a prefix of the data entries its node has applied.\<close>

lemma received_log:
  assumes "in_order L s" and "accounted L s" and "\<not> node_stopped s"
  shows "received s = take (p_received s) (data_entries L (lastApplied (p_node s)) (log (p_node s)))"
proof -
  have "applied (p_node s) @ in_flight (p_appliers s) = data_entries L (lastApplied (p_node s)) (log (p_node s))"
    using assms by (simp add: in_order_def)
  moreover have "p_received s \<le> length (applied (p_node s))" using assms(2) by (simp add: accounted_def)
  ultimately show ?thesis by (auto simp: received_def simp flip: \<open>_ = data_entries _ _ _\<close>)
qed

text \<open>
  C5. From the node's log to the consumer. A node runs from its start with appliers that do not overlap; no request of a leader
  replaced a committed entry and no snapshot was installed, and the node has not been stopped. Its new broker, on empty files that can be written, took the entries it received
  with timer pulses anywhere between them and flushed its batch. Take the data entries of the node's log behind
  the entry applied before the start, as many as the broker received, and of these the payloads of a partition: there is one,
  and they fit into the first segment of 1 MiB. Then a consumer with permission gets each of these payloads that lies behind its
  offset once, with its offset, and nothing else.
\<close>

theorem broker_serves_log:
  assumes "applyCh r" and "applied r = []" and "(proc_step 1)\<^sup>*\<^sup>* (boot r) s" and "\<not> node_stopped s"
    and "fed_by opened env evs (received s) b"
    and "ds = payloads (tp_key topic part) (take (p_received s) (data_entries (lastApplied r) (lastApplied (p_node s)) (log (p_node s))))"
    and "ds \<noteq> []" and "log_end ds \<le> segmentBytes" and "range_order ord"
    and "CheckPermission userID topic ActionConsume (namespaceManager b) = Inr True"
  shows "\<exists>b' msgs. handleApply opened env 0 (evs @ [ApplyTimer]) ([], b) = Ret ([], b') \<and>
    Consume ord topic part off userID b' = Ret (Inr msgs) \<and> mset (map msg_pair msgs) = mset (behind off ds)"
proof -
  have "in_order (lastApplied r) s" "accounted (lastApplied r) s" using alone_from_boot [OF assms(3,1,2)] by simp_all
  then have "received s = take (p_received s) (data_entries (lastApplied r) (lastApplied (p_node s)) (log (p_node s)))"
    using assms(4) by (rule received_log)
  then have d: "payloads (tp_key topic part) (received s) = ds" using assms(6) by simp
  obtain b' msgs where "handleApply opened env 0 (evs @ [ApplyTimer]) ([], b) = Ret ([], b')"
    "Consume ord topic part off userID b' = Ret (Inr msgs)" "mset (map msg_pair msgs) = mset (behind off (payloads (tp_key topic part) (received s)))"
    by (rule fed_by_Consume [where off = off and part = part, OF assms(5) _ _ assms(9,10)]) (use assms(7,8) d in simp_all)
  then show ?thesis unfolding d by blast
qed

lemma fed_by_entries:
  "\<forall>i j. env_ok (env i j) \<Longrightarrow> list_all small es \<Longrightarrow> b_topics b = [] \<Longrightarrow>
   fed_by (\<lambda>k. Some ([], [])) env (map ApplyEntry es) es b"
proof -
  have "entries_of (map ApplyEntry es) = es" by (induction es) simp_all
  then show "\<forall>i j. env_ok (env i j) \<Longrightarrow> list_all small es \<Longrightarrow> b_topics b = [] \<Longrightarrow> ?thesis" by (auto simp: fed_by_def)
qed

definition first_received :: Process where
  "first_received = first_sent\<lparr>p_received := 1\<rparr>"

lemma first_received_reached: "(proc_step 1)\<^sup>*\<^sup>* (boot busy_leader) first_received"
proof -
  have "proc_step 1 first_sent first_received"
    using proc_step.receive [of first_sent 1] by (simp add: first_received_def first_sent_def first_turn_eq send_entry_def boot_def buffered_def)
  with first_sent_reached show ?thesis by simp
qed

lemma demo_b_fields: "b_topics demo_b = []" "namespaceManager demo_b = NewNamespaceManager"
  by (simp_all add: demo_b_def broker_struct_def)

theorem broker_serves_log_witness:
  "\<exists>b' msgs. handleApply (\<lambda>k. Some ([], [])) demo_clock 0 (map ApplyEntry (received first_received) @ [ApplyTimer]) ([], demo_b) = Ret ([], b') \<and>
    Consume rev ''t'' 0 (- 1) [] b' = Ret (Inr msgs) \<and> map msg_pair msgs = [(0, [1])]"
proof -
  have rc: "received first_received = [command_entry 1 [1]]"
    by (simp add: received_def first_received_def first_sent_def first_turn_eq send_entry_def boot_def busy_leader_fields)
  have f: "fed_by (\<lambda>k. Some ([], [])) demo_clock (map ApplyEntry (received first_received)) (received first_received) demo_b"
    by (rule fed_by_entries) (use demo_entries(4) in \<open>simp_all add: rc command_entry_def demo_b_fields\<close>)
  have ns: "\<not> node_stopped first_received" using first_sent_fields(5) by (simp add: node_stopped_def first_received_def)
  have o: "in_order (lastApplied busy_leader) first_received" "accounted (lastApplied busy_leader) first_received"
    using alone_from_boot [OF first_received_reached busy_leader_fields(1,2)] by simp_all
  have p: "[[1]] = payloads (tp_key ''t'' 0) (take (p_received first_received)
      (data_entries (lastApplied busy_leader) (lastApplied (p_node first_received)) (log (p_node first_received))))"
    unfolding received_log [OF o ns, symmetric] rc by (simp add: command_entry_def)
  have perm: "CheckPermission [] ''t'' ActionConsume (namespaceManager demo_b) = Inr True"
    by (simp add: demo_b_fields CheckPermission_def NewNamespaceManager_def)
  obtain b' msgs where r: "handleApply (\<lambda>k. Some ([], [])) demo_clock 0 (map ApplyEntry (received first_received) @ [ApplyTimer]) ([], demo_b) = Ret ([], b')"
    "Consume rev ''t'' 0 (- 1) [] b' = Ret (Inr msgs)" "mset (map msg_pair msgs) = mset (behind (- 1) [[1]])"
    using broker_serves_log [where off = "- 1", OF busy_leader_fields(1,2) first_received_reached ns f p _ _ range_order_rev perm]
    by (auto simp: segmentBytes_def)
  have "map msg_pair msgs = [(0, [1])]" using r(3) by (simp add: behind_def flip: mset_map)
  with r(1,2) show ?thesis by (intro exI conjI)
qed

section \<open>Appliers that overlap\<close>

text \<open>A single applier sends both entries of a node that has two pending, in order.\<close>

lemma ordered_run:
  assumes "two_pending r e1 e2" and "applyCh r" and "applied r = []"
  obtains s where "(proc_step 1)\<^sup>*\<^sup>* (boot r) s" and "received s = [e1, e2]"
proof -
  let ?g = "GoApplyCommittedEntries"
  have g1: "?g \<in> set (goroutines r)" using count_two [of "goroutines r" ?g] assms(1) by (simp add: two_pending_def)
  let ?r1 = "r\<lparr>goroutines := remove1 ?g (goroutines r)\<rparr>"
  let ?r2 = "?r1\<lparr>lastApplied := lastApplied r + 1\<rparr>"
  let ?r3 = "?r1\<lparr>lastApplied := lastApplied r + 2, applied := [e1]\<rparr>"
  let ?s = "\<lambda>n as c. \<lparr>p_node = n, p_appliers = as, p_received = c, p_reader = True, p_stop = NotStopped,
                     p_locked = False, p_inside = 0, p_dead = None\<rparr>"
  have l1: "lock_and_apply ?r1 = Ret (Some e1, ?r2)" using lock_and_apply_next [of ?r1] assms by (auto simp: two_pending_def)
  have l2: "lock_and_apply (?r2\<lparr>applied := [e1]\<rparr>) = Ret (Some e2, ?r3)"
    using lock_and_apply_next [of "?r2\<lparr>applied := [e1]\<rparr>"] assms by (auto simp: two_pending_def)
  let ?step = "(proc_step 1)\<^sup>*\<^sup>*"
  have "?step (boot r) (?s ?r1 [Locking] 0)" using proc_step.start [of "boot r" 1] g1 by (simp add: boot_def r_into_rtranclp)
  also have "?step \<dots> (?s ?r2 [Sending e1] 0)"
    using proc_step.turn [of "?s ?r1 [Locking] 0" 0 1] l1 by (simp add: take_turn_def r_into_rtranclp)
  also have "?step \<dots> (?s (?r2\<lparr>applied := [e1]\<rparr>) [Locking] 0)"
    using proc_step.send [of "?s ?r2 [Sending e1] 0" 0 e1 1] assms(3) by (simp add: send_entry_def buffered_def applyCh_cap_def r_into_rtranclp)
  also have "?step \<dots> (?s ?r3 [Sending e2] 0)"
    using proc_step.turn [of "?s (?r2\<lparr>applied := [e1]\<rparr>) [Locking] 0" 0 1] l2 by (simp add: take_turn_def r_into_rtranclp)
  also have "?step \<dots> (?s (?r3\<lparr>applied := [e1, e2]\<rparr>) [Locking] 0)"
    using proc_step.send [of "?s ?r3 [Sending e2] 0" 0 e2 1] by (simp add: send_entry_def buffered_def applyCh_cap_def r_into_rtranclp)
  also have "?step \<dots> (?s (?r3\<lparr>applied := [e1, e2]\<rparr>) [Locking] 1)"
    using proc_step.receive [of "?s (?r3\<lparr>applied := [e1, e2]\<rparr>) [Locking] 0" 1] by (simp add: buffered_def r_into_rtranclp)
  also have "?step \<dots> (?s (?r3\<lparr>applied := [e1, e2]\<rparr>) [Locking] 2)"
    using proc_step.receive [of "?s (?r3\<lparr>applied := [e1, e2]\<rparr>) [Locking] 1" 1]
    by (simp add: buffered_def r_into_rtranclp numeral_2_eq_2)
  finally show thesis by (rule that) (simp add: received_def)
qed

text \<open>
  C22. The order of delivery varies. A node holds two data entries of one partition that are committed and not applied, and has started two goroutines of
  \<open>applyCommittedEntries\<close>. Under one schedule of the same process its broker receives the two entries in log order, under another the other way round. A
  new broker on empty files, with room for both payloads in its first segment (1 MiB), then stores them in different orders: behind offset 0 a
  consumer gets the second message under the one schedule and the first under the other.
\<close>

theorem delivery_order_varies:
  assumes "two_pending r e1 e2" and "applyCh r" and "applied r = []"
    and "entry_key e1 = tp_key topic part" and "entry_key e2 = tp_key topic part" and "small e1" and "small e2"
    and "b_topics b = []" and "\<forall>i j. env_ok (env i j)" and "range_order ord"
    and "log_end [le_Data e1, le_Data e2] \<le> segmentBytes"
    and "CheckPermission userID topic ActionConsume (namespaceManager b) = Inr True"
  shows "\<exists>s1 s2 b1 b2 msgs1 msgs2.
    (proc_step 1)\<^sup>*\<^sup>* (boot r) s1 \<and> (proc_step 2)\<^sup>*\<^sup>* (boot r) s2 \<and>
    handleApply (\<lambda>k. Some ([], [])) env 0 (map ApplyEntry (received s1) @ [ApplyTimer]) ([], b) = Ret ([], b1) \<and>
    handleApply (\<lambda>k. Some ([], [])) env 0 (map ApplyEntry (received s2) @ [ApplyTimer]) ([], b) = Ret ([], b2) \<and>
    Consume ord topic part 0 userID b1 = Ret (Inr msgs1) \<and> Consume ord topic part 0 userID b2 = Ret (Inr msgs2) \<and>
    map msg_pair msgs1 = [(20 + int (length (le_Data e1)), le_Data e2)] \<and>
    map msg_pair msgs2 = [(20 + int (length (le_Data e2)), le_Data e1)]"
proof -
  let ?k = "tp_key topic part"
  obtain s1 where s1: "(proc_step 1)\<^sup>*\<^sup>* (boot r) s1" "received s1 = [e1, e2]" by (rule ordered_run [OF assms(1-3)])
  obtain s2 where s2: "(proc_step 2)\<^sup>*\<^sup>* (boot r) s2" "received s2 = [e2, e1]"
    by (rule swapped_run [OF assms(1-3)]) (simp add: received_def)
  have f: "fed_by (\<lambda>k. Some ([], [])) env (map ApplyEntry [e1, e2]) [e1, e2] b" "fed_by (\<lambda>k. Some ([], [])) env (map ApplyEntry [e2, e1]) [e2, e1] b"
    using fed_by_entries [OF assms(9) _ assms(8), of "[e1, e2]"] fed_by_entries [OF assms(9) _ assms(8), of "[e2, e1]"] assms(6,7)
    by simp_all
  have p: "payloads ?k [e1, e2] = [le_Data e1, le_Data e2]" "payloads ?k [e2, e1] = [le_Data e2, le_Data e1]"
    using assms(4,5) by simp_all
  then have q: "payloads ?k [e1, e2] \<noteq> []" "payloads ?k [e2, e1] \<noteq> []"
    "log_end (payloads ?k [e1, e2]) \<le> segmentBytes" "log_end (payloads ?k [e2, e1]) \<le> segmentBytes"
    using assms(11) by (simp_all del: payloads_simps)
  obtain b1 msgs1 where 1: "handleApply (\<lambda>k. Some ([], [])) env 0 (map ApplyEntry [e1, e2] @ [ApplyTimer]) ([], b) = Ret ([], b1)"
    "Consume ord topic part 0 userID b1 = Ret (Inr msgs1)" "mset (map msg_pair msgs1) = mset (behind 0 (payloads ?k [e1, e2]))"
    by (rule fed_by_Consume [OF f(1) q(1,3) assms(10,12)])
  obtain b2 msgs2 where 2: "handleApply (\<lambda>k. Some ([], [])) env 0 (map ApplyEntry [e2, e1] @ [ApplyTimer]) ([], b) = Ret ([], b2)"
    "Consume ord topic part 0 userID b2 = Ret (Inr msgs2)" "mset (map msg_pair msgs2) = mset (behind 0 (payloads ?k [e2, e1]))"
    by (rule fed_by_Consume [OF f(2) q(2,4) assms(10,12)])
  have "map msg_pair msgs1 = [(20 + int (length (le_Data e1)), le_Data e2)]" "map msg_pair msgs2 = [(20 + int (length (le_Data e2)), le_Data e1)]"
    using 1(3) 2(3) unfolding p by (simp_all add: behind_def flip: mset_map)
  with s1 s2 1(1,2) 2(1,2) show ?thesis by metis
qed

theorem delivery_order_varies_witness:
  "\<exists>s1 s2 b1 b2 msgs1 msgs2.
    (proc_step 1)\<^sup>*\<^sup>* (boot busy_leader) s1 \<and> (proc_step 2)\<^sup>*\<^sup>* (boot busy_leader) s2 \<and>
    handleApply (\<lambda>k. Some ([], [])) demo_clock 0 (map ApplyEntry (received s1) @ [ApplyTimer]) ([], demo_b) = Ret ([], b1) \<and>
    handleApply (\<lambda>k. Some ([], [])) demo_clock 0 (map ApplyEntry (received s2) @ [ApplyTimer]) ([], demo_b) = Ret ([], b2) \<and>
    Consume id ''t'' 0 0 [] b1 = Ret (Inr msgs1) \<and> Consume id ''t'' 0 0 [] b2 = Ret (Inr msgs2) \<and>
    map msg_pair msgs1 = [(21, [2])] \<and> map msg_pair msgs2 = [(21, [1])]"
  using delivery_order_varies [OF busy_leader_pending busy_leader_fields(1,2), of "''t''" 0 demo_b demo_clock id "[]"] demo_entries(4)
  by (simp add: command_entry_def demo_b_fields CheckPermission_def NewNamespaceManager_def segmentBytes_def)

end
