(* ===== verification/Consumer_Groups.thy ===== *)
theory Consumer_Groups
  imports Go_Prelude
begin

text \<open>
  The consumer groups of \<^verbatim>\<open>cluster/go/nameserver/nameserver.go\<close>: members, their partitions, and
  \<open>doRebalance\<close>, which deals the partitions of a group out to its members. Shown: the loops of
  \<open>doRebalance\<close> cut the partition list into one slice per member, in the order of the member names,
  so that every partition has exactly one member and the shares differ by at most one.
\<close>

record MemberMeta =
  ClientID :: string
  Heartbeat :: time
  Assignments :: "(int, bool) gomap"

record ConsumerGroup =
  GroupID :: string
  Members :: "(string, MemberMeta) gomap"
  cg_Topic :: string
  cg_Partitions :: "int list"
  Generation :: int

section \<open>Rebalancing\<close>

text \<open>The inner loop: \<open>count\<close> partitions from \<open>partitionIndex\<close> on.\<close>

fun assign_count :: "int list \<Rightarrow> nat \<Rightarrow> nat \<Rightarrow> (int, bool) gomap \<Rightarrow> nat \<times> (int, bool) gomap" where
  "assign_count parts 0 partitionIndex a = (partitionIndex, a)"
| "assign_count parts (Suc j) partitionIndex a =
     (if partitionIndex < length parts
      then assign_count parts j (partitionIndex + 1) (put (parts ! partitionIndex) True a)
      else (partitionIndex, a))"

text \<open>The loop over the sorted members; they are keys of the map, so the lookup succeeds.\<close>

fun assign_loop ::
    "int list \<Rightarrow> nat \<Rightarrow> nat \<Rightarrow> nat \<Rightarrow> string list \<Rightarrow> nat \<Rightarrow> (string, MemberMeta) gomap \<Rightarrow> (string, MemberMeta) gomap" where
  "assign_loop parts per remainder i [] partitionIndex ms = ms"
| "assign_loop parts per remainder i (memberID # members) partitionIndex ms =
     (let count = (if i < remainder then per + 1 else per);
          member = the (map_of ms memberID);
          (partitionIndex', a) = assign_count parts count partitionIndex (Assignments member)
      in assign_loop parts per remainder (i + 1) members partitionIndex' (put memberID (member\<lparr>Assignments := a\<rparr>) ms))"

definition rebalance :: "ConsumerGroup \<Rightarrow> ConsumerGroup" where
  "rebalance grp =
     (let members = sort (map fst (Members grp));
          parts = cg_Partitions grp
      in if members = [] then grp
         else let per = length parts div length members;
                  remainder = length parts mod length members;
                  cleared = map (\<lambda>(c, m). (c, m\<lparr>Assignments := []\<rparr>)) (Members grp)
              in grp\<lparr>Members := assign_loop parts per remainder 0 members 0 cleared,
                       Generation := Generation grp + 1\<rparr>)"

definition doRebalance :: "string \<Rightarrow> (string, ConsumerGroup) gomap \<Rightarrow> (string, ConsumerGroup) gomap" where
  "doRebalance groupID groups =
     (case map_of groups groupID of
        None \<Rightarrow> groups
      | Some grp \<Rightarrow> put groupID (rebalance grp) groups)"

section \<open>The share of each member\<close>

definition share_start :: "nat \<Rightarrow> nat \<Rightarrow> nat \<Rightarrow> nat" where
  "share_start len n i = i * (len div n) + min i (len mod n)"

definition share :: "'a list \<Rightarrow> nat \<Rightarrow> nat \<Rightarrow> 'a list" where
  "share parts n i =
     take (share_start (length parts) n (Suc i) - share_start (length parts) n i)
       (drop (share_start (length parts) n i) parts)"

lemma share_start_Suc:
  "share_start len n (Suc i) = share_start len n i + (if i < len mod n then len div n + 1 else len div n)"
  by (simp add: share_start_def min_def)

lemma share_start_bounds: "0 < n \<Longrightarrow> i \<le> n \<Longrightarrow> share_start len n i \<le> len"
proof -
  assume n: "0 < n" "i \<le> n"
  have "i * (len div n) \<le> n * (len div n)" using n(2) by simp
  moreover have "min i (len mod n) \<le> len mod n" by simp
  ultimately have "share_start len n i \<le> n * (len div n) + len mod n" unfolding share_start_def by (rule add_mono)
  then show ?thesis by simp
qed

lemma share_start_full: "0 < n \<Longrightarrow> share_start len n n = len"
  using mod_less_divisor [of n len] by (simp add: share_start_def min_absorb2)

lemma concat_shares: "0 < n \<Longrightarrow> k \<le> n \<Longrightarrow> concat (map (share parts n) [0..<k]) = take (share_start (length parts) n k) parts"
proof (induction k)
  case 0
  then show ?case by (simp add: share_start_def)
next
  case (Suc k)
  let ?s = "share_start (length parts) n"
  have "?s k \<le> ?s (Suc k)" by (simp add: share_start_Suc)
  then have "take (?s (Suc k)) parts = take (?s k) parts @ take (?s (Suc k) - ?s k) (drop (?s k) parts)"
    by (metis le_add_diff_inverse take_add)
  with Suc show ?case by (simp add: share_def)
qed

lemma length_share:
  assumes "i < n"
  shows "length (share parts n i) = (if i < length parts mod n then length parts div n + 1 else length parts div n)"
proof -
  have "share_start (length parts) n (Suc i) \<le> length parts" using assms by (intro share_start_bounds) auto
  then show ?thesis using share_start_Suc [of "length parts" n i] by (simp add: share_def)
qed

section \<open>What the loops compute\<close>

lemma put_fresh: "k \<notin> fst ` set m \<Longrightarrow> put k v m = m @ [(k, v)]"
  by (induction m) auto

lemma assign_count_eq:
  assumes "idx + n \<le> length parts" and "distinct (map fst a @ take n (drop idx parts))"
  shows "assign_count parts n idx a = (idx + n, a @ map (\<lambda>p. (p, True)) (take n (drop idx parts)))"
  using assms
proof (induction n arbitrary: idx a)
  case (Suc n)
  have d: "drop idx parts = parts ! idx # drop (Suc idx) parts"
    using Suc.prems(1) by (simp add: Cons_nth_drop_Suc)
  then have "put (parts ! idx) True a = a @ [(parts ! idx, True)]"
    using Suc.prems(2) by (intro put_fresh) (auto simp: image_iff)
  moreover have "distinct (map fst (a @ [(parts ! idx, True)]) @ take n (drop (Suc idx) parts))"
    using Suc.prems(2) by (simp add: d)
  ultimately show ?case using Suc.IH [of "Suc idx" "a @ [(parts ! idx, True)]"] Suc.prems(1) by (simp add: d)
qed simp

lemma assign_loop_keys:
  "set members \<subseteq> fst ` set ms \<Longrightarrow> map fst (assign_loop parts per r i members idx ms) = map fst ms"
proof (induction members arbitrary: i idx ms)
  case (Cons c members)
  have "map fst (put c m ms) = map fst ms" for m
    using Cons.prems by (simp add: update_keys)
  with Cons show ?case by (simp add: Let_def split: prod.split) (metis set_map)
qed simp

definition give :: "int list \<Rightarrow> MemberMeta \<Rightarrow> MemberMeta" where
  "give parts m = m\<lparr>Assignments := map (\<lambda>p. (p, True)) parts\<rparr>"

lemma assign_loop_lookup:
  assumes "i + length members \<le> n" and "distinct parts" and "distinct members"
    and "idx = share_start (length parts) n i"
    and "\<forall>c \<in> set members. \<exists>m. map_of ms c = Some m \<and> Assignments m = []"
  shows "(\<forall>j < length members. map_of (assign_loop parts (length parts div n) (length parts mod n) i members idx ms)
            (members ! j) = Some (give (share parts n (i + j)) (the (map_of ms (members ! j)))))
    \<and> (\<forall>c. c \<notin> set members \<longrightarrow>
            map_of (assign_loop parts (length parts div n) (length parts mod n) i members idx ms) c = map_of ms c)"
  using assms
proof (induction members arbitrary: i idx ms)
  case (Cons c members)
  let ?q = "length parts div n" and ?r = "length parts mod n" and ?s = "share_start (length parts) n"
  define k where "k = (if i < ?r then ?q + 1 else ?q)"
  obtain m where m: "map_of ms c = Some m" "Assignments m = []" using Cons.prems(5) by auto
  have n: "0 < n" "Suc i \<le> n" using Cons.prems(1) by simp_all
  have k: "?s (Suc i) = ?s i + k" by (simp add: share_start_Suc k_def)
  have sh: "share parts n i = take k (drop idx parts)" by (simp add: share_def k Cons.prems(4))
  have "assign_count parts k idx [] = (?s (Suc i), map (\<lambda>p. (p, True)) (share parts n i))"
    using assign_count_eq [of idx k parts "[]"] share_start_bounds [OF n, of "length parts"] Cons.prems(2,4) k sh by simp
  moreover define ms' where "ms' = put c (give (share parts n i) m) ms"
  ultimately have step: "assign_loop parts ?q ?r i (c # members) idx ms = assign_loop parts ?q ?r (Suc i) members (?s (Suc i)) ms'"
    by (simp add: m k_def give_def)
  have IH: "(\<forall>j < length members. map_of (assign_loop parts ?q ?r (Suc i) members (?s (Suc i)) ms')
            (members ! j) = Some (give (share parts n (Suc i + j)) (the (map_of ms' (members ! j)))))
    \<and> (\<forall>c. c \<notin> set members \<longrightarrow>
            map_of (assign_loop parts ?q ?r (Suc i) members (?s (Suc i)) ms') c = map_of ms' c)"
    by (rule Cons.IH) (use Cons.prems in \<open>auto simp: ms'_def\<close>)
  have c: "c \<notin> set members" using Cons.prems(3) by simp
  let ?res = "assign_loop parts ?q ?r i (c # members) idx ms"
  have "map_of ?res ((c # members) ! j) = Some (give (share parts n (i + j)) (the (map_of ms ((c # members) ! j))))"
    if j: "j < length (c # members)" for j
  proof (cases j)
    case 0
    have "map_of ?res c = map_of ms' c" using IH c step by simp
    with 0 show ?thesis by (simp add: ms'_def m)
  next
    case (Suc j')
    with j have j': "j' < length members" by simp
    then have "members ! j' \<noteq> c" using c nth_mem [OF j'] by metis
    moreover have "map_of ?res (members ! j') = Some (give (share parts n (Suc i + j')) (the (map_of ms' (members ! j'))))"
      using IH j' step by simp
    ultimately show ?thesis using Suc by (simp add: ms'_def)
  qed
  moreover have "map_of ?res d = map_of ms d" if "d \<notin> set (c # members)" for d
    using IH that step by (simp add: ms'_def)
  ultimately show ?case by blast
qed simp

lemma rebalance_lookup:
  assumes "gm_ok (Members g)" and "distinct (cg_Partitions g)" and "i < length (Members g)"
  shows "map_of (Members (rebalance g)) (sort (map fst (Members g)) ! i)
    = Some (give (share (cg_Partitions g) (length (Members g)) i) (the (map_of (Members g) (sort (map fst (Members g)) ! i))))"
proof -
  let ?ms = "sort (map fst (Members g))" and ?cl = "map (\<lambda>(c, m). (c, m\<lparr>Assignments := []\<rparr>)) (Members g)"
  have ne: "?ms \<noteq> []"
  proof
    assume e: "?ms = []"
    have "length ?ms = length (Members g)" by simp
    then show False using assms(3) unfolding e by simp
  qed
  have cl: "map_of ?cl c = map_option (\<lambda>m. m\<lparr>Assignments := []\<rparr>) (map_of (Members g) c)" for c
    by (simp add: map_of_map)
  have ex: "\<exists>m. map_of (Members g) c = Some m" if "c \<in> set ?ms" for c
    using that by (metis list.set_map map_of_eq_None_iff not_None_eq set_sort)
  have i: "i < length ?ms" "?ms ! i \<in> set ?ms" using assms(3) nth_mem [of i ?ms] by simp_all
  have "\<forall>c \<in> set ?ms. \<exists>m. map_of ?cl c = Some m \<and> Assignments m = []"
  proof
    fix c assume "c \<in> set ?ms"
    from ex [OF this] show "\<exists>m. map_of ?cl c = Some m \<and> Assignments m = []" unfolding cl by auto
  qed
  with assign_loop_lookup [of 0 ?ms "length (Members g)" "cg_Partitions g" 0 ?cl] assms(1,2) i(1)
  have "map_of (assign_loop (cg_Partitions g) (length (cg_Partitions g) div length (Members g))
        (length (cg_Partitions g) mod length (Members g)) 0 ?ms 0 ?cl) (?ms ! i)
      = Some (give (share (cg_Partitions g) (length (Members g)) i) (the (map_of ?cl (?ms ! i))))"
    by (simp add: share_start_def)
  then have "map_of (Members (rebalance g)) (?ms ! i)
      = Some (give (share (cg_Partitions g) (length (Members g)) i) (the (map_of ?cl (?ms ! i))))"
    using ne by (simp add: rebalance_def Let_def)
  then show ?thesis using ex [OF i(2)] unfolding cl by (auto simp: give_def)
qed

section \<open>Well-formed groups\<close>

abbreviation member_names :: "ConsumerGroup \<Rightarrow> string list" where
  "member_names g \<equiv> sort (map fst (Members g))"

text \<open>The members hold the shares of the partition list, in the order of their names.\<close>

definition dealt :: "ConsumerGroup \<Rightarrow> bool" where
  "dealt g \<longleftrightarrow> (\<forall>i < length (Members g). \<exists>m. map_of (Members g) (member_names g ! i) = Some m
     \<and> Assignments m = map (\<lambda>p. (p, True)) (share (cg_Partitions g) (length (Members g)) i))"

definition group_ok :: "ConsumerGroup \<Rightarrow> bool" where
  "group_ok g \<longleftrightarrow> Members g \<noteq> [] \<and> gm_ok (Members g) \<and> distinct (cg_Partitions g) \<and> dealt g"

definition assigned :: "ConsumerGroup \<Rightarrow> string \<Rightarrow> int \<Rightarrow> bool" where
  "assigned g c p \<longleftrightarrow> (\<exists>m. map_of (Members g) c = Some m \<and> has (Assignments m) p)"

lemma rebalance_frame [simp]:
  "cg_Partitions (rebalance g) = cg_Partitions g" "cg_Topic (rebalance g) = cg_Topic g"
  "GroupID (rebalance g) = GroupID g"
  by (simp_all add: rebalance_def Let_def)

lemma rebalance_keys [simp]: "map fst (Members (rebalance g)) = map fst (Members g)"
proof -
  let ?cl = "map (\<lambda>(c, m). (c, m\<lparr>Assignments := []\<rparr>)) (Members g)"
  have k: "map fst ?cl = map fst (Members g)" by (auto simp: comp_def case_prod_beta)
  then have "set (member_names g) \<subseteq> fst ` set ?cl" by (metis list.set_map set_sort order_refl)
  from assign_loop_keys [OF this] k show ?thesis by (simp add: rebalance_def Let_def)
qed

lemma rebalance_length [simp]: "length (Members (rebalance g)) = length (Members g)"
  by (metis length_map rebalance_keys)

lemma rebalance_ok:
  assumes "Members g \<noteq> []" and "gm_ok (Members g)" and "distinct (cg_Partitions g)"
  shows "group_ok (rebalance g)"
proof -
  have "Members (rebalance g) \<noteq> []" using assms(1) rebalance_length [of g] by (metis length_0_conv)
  moreover have "dealt (rebalance g)"
    unfolding dealt_def rebalance_keys rebalance_length rebalance_frame
    using rebalance_lookup [OF assms(2,3)] by (auto simp: give_def)
  ultimately show ?thesis using assms(2,3) by (simp add: group_ok_def)
qed

lemma map_of_True: "map_of (map (\<lambda>p. (p, True)) ps) p = (if p \<in> set ps then Some True else None)"
  by (induction ps) auto

lemma assigned_share:
  assumes "group_ok g" and "i < length (Members g)"
  shows "assigned g (member_names g ! i) p \<longleftrightarrow> p \<in> set (share (cg_Partitions g) (length (Members g)) i)"
proof -
  obtain m where "map_of (Members g) (member_names g ! i) = Some m"
    "Assignments m = map (\<lambda>p. (p, True)) (share (cg_Partitions g) (length (Members g)) i)"
    using assms by (auto simp: group_ok_def dealt_def)
  then show ?thesis by (auto simp: assigned_def map_of_True)
qed

lemma distinct_concat_disjoint:
  "distinct (concat (map f [0..<n])) \<Longrightarrow> i < n \<Longrightarrow> j < n \<Longrightarrow> x \<in> set (f i) \<Longrightarrow> x \<in> set (f j) \<Longrightarrow> i = j"
proof (induction n)
  case (Suc n)
  have "set (f k) \<inter> set (f n) = {}" if "k < n" for k using Suc.prems(1) that by fastforce
  with Suc show ?case by (fastforce simp: less_Suc_eq)
qed simp

lemma group_exactly_one:
  assumes "group_ok g" and "p \<in> set (cg_Partitions g)"
  shows "\<exists>!c. assigned g c p"
proof -
  let ?n = "length (Members g)" and ?ps = "cg_Partitions g"
  have n: "0 < ?n" using assms(1) by (simp add: group_ok_def)
  have all: "concat (map (share ?ps ?n) [0..<?n]) = ?ps"
    using concat_shares [OF n order_refl, of ?ps] by (simp add: share_start_full [OF n])
  then have "p \<in> set (concat (map (share ?ps ?n) [0..<?n]))" using assms(2) by simp
  then obtain i where i: "i < ?n" "p \<in> set (share ?ps ?n i)" by auto
  have "c = member_names g ! i" if c: "assigned g c p" for c
  proof -
    have "c \<in> set (member_names g)" using c by (auto simp: assigned_def dest: map_of_SomeD intro: rev_image_eqI)
    then obtain j where j: "j < ?n" "c = member_names g ! j"
      using in_set_conv_nth [of c "member_names g"] by auto
    then have "p \<in> set (share ?ps ?n j)" using c assigned_share [OF assms(1) j(1)] by simp
    moreover have "distinct (concat (map (share ?ps ?n) [0..<?n]))" using all assms(1) by (simp add: group_ok_def)
    ultimately show ?thesis using distinct_concat_disjoint i j by metis
  qed
  moreover have "assigned g (member_names g ! i) p" using assigned_share [OF assms(1)] i by simp
  ultimately show ?thesis by blast
qed

lemma group_balanced:
  assumes "group_ok g" and "map_of (Members g) c = Some m"
  shows "length (cg_Partitions g) div length (Members g) \<le> length (Assignments m)
    \<and> length (Assignments m) \<le> length (cg_Partitions g) div length (Members g) + 1"
proof -
  have "c \<in> set (member_names g)" using assms(2) by (auto dest: map_of_SomeD intro: rev_image_eqI)
  then obtain i where i: "i < length (Members g)" "c = member_names g ! i"
    using in_set_conv_nth [of c "member_names g"] by auto
  then have "length (Assignments m) = length (share (cg_Partitions g) (length (Members g)) i)"
    using assms by (auto simp: group_ok_def dealt_def)
  then show ?thesis using length_share [OF i(1), of "cg_Partitions g"] by simp
qed

text \<open>\<open>doRebalance\<close> deals the partitions of a group out exactly once: every partition has exactly one
  member, and the numbers of partitions of two members differ by at most one.\<close>

theorem doRebalance_deals_exactly_once:
  assumes "map_of groups gid = Some g" and "Members g \<noteq> []" and "gm_ok (Members g)" and "distinct (cg_Partitions g)"
  shows "\<exists>g'. map_of (doRebalance gid groups) gid = Some g' \<and> map fst (Members g') = map fst (Members g)
    \<and> (\<forall>p \<in> set (cg_Partitions g). \<exists>!c. assigned g' c p)
    \<and> (\<forall>c1 m1 c2 m2. map_of (Members g') c1 = Some m1 \<longrightarrow> map_of (Members g') c2 = Some m2 \<longrightarrow>
          length (Assignments m1) \<le> length (Assignments m2) + 1)"
proof -
  have ok: "group_ok (rebalance g)" by (rule rebalance_ok [OF assms(2-4)])
  have "length (Assignments m1) \<le> length (Assignments m2) + 1"
    if "map_of (Members (rebalance g)) c1 = Some m1" "map_of (Members (rebalance g)) c2 = Some m2" for c1 m1 c2 m2
    using group_balanced [OF ok that(1)] group_balanced [OF ok that(2)] by linarith
  with assms(1) group_exactly_one [OF ok] show ?thesis by (simp add: doRebalance_def)
qed

definition demo_group :: ConsumerGroup where
  "demo_group = \<lparr>GroupID = ''g'', Members = [(''b'', \<lparr>ClientID = ''b'', Heartbeat = 1, Assignments = []\<rparr>),
     (''a'', \<lparr>ClientID = ''a'', Heartbeat = 1, Assignments = []\<rparr>)], cg_Topic = ''t'', cg_Partitions = [0, 1, 2], Generation = 1\<rparr>"

theorem doRebalance_deals_exactly_once_witness:
  "\<exists>g'. map_of (doRebalance ''g'' [(''g'', demo_group)]) ''g'' = Some g' \<and> (\<exists>!c. assigned g' c 2)"
  using doRebalance_deals_exactly_once [of "[(''g'', demo_group)]" "''g''" demo_group]
  by (auto simp: demo_group_def)

end
