(* ===== verification/Offset_Store.thy ===== *)
theory Offset_Store
  imports Go_Prelude
begin

text \<open>
  \<^verbatim>\<open>cluster/go/nameserver/offset_store.go\<close>: the offsets that consumer groups commit, kept in a bbolt
  database. The database is not part of the repository: its operations are the fields of \<open>bolt\<close>, an
  argument of the definitions, and \<open>bolt_laws\<close> states its documented behaviour. Shown: a committed offset is read
  back and no other offset changes, as long as group and topic names have no slash; with slashes keys can coincide.
\<close>

record 'db bolt =
  bk_bucket :: "string \<Rightarrow> 'db \<Rightarrow> bool"
  bk_create :: "string \<Rightarrow> 'db \<Rightarrow> 'db option"
  bk_put :: "string \<Rightarrow> byte list \<Rightarrow> byte list \<Rightarrow> 'db \<Rightarrow> 'db option"
  bk_get :: "string \<Rightarrow> byte list \<Rightarrow> 'db \<Rightarrow> byte list option"
  bk_delete :: "string \<Rightarrow> byte list \<Rightarrow> 'db \<Rightarrow> 'db option"

text \<open>A committed \<open>Put\<close> or \<open>Delete\<close> changes the value of its key and of no other, and no bucket goes away.\<close>

definition bolt_laws :: "'db bolt \<Rightarrow> bool" where
  "bolt_laws bolt \<longleftrightarrow>
     (\<forall>b k v db db'. bk_put bolt b k v db = Some db' \<longrightarrow>
        bk_get bolt b k db' = Some v \<and> (\<forall>k'. k' \<noteq> k \<longrightarrow> bk_get bolt b k' db' = bk_get bolt b k' db)
        \<and> (\<forall>b'. bk_bucket bolt b' db' = bk_bucket bolt b' db)) \<and>
     (\<forall>b k db db'. bk_delete bolt b k db = Some db' \<longrightarrow>
        bk_get bolt b k db' = None \<and> (\<forall>k'. k' \<noteq> k \<longrightarrow> bk_get bolt b k' db' = bk_get bolt b k' db)
        \<and> (\<forall>b'. bk_bucket bolt b' db' = bk_bucket bolt b' db)) \<and>
     (\<forall>b db db'. bk_create bolt b db = Some db' \<longrightarrow> bk_bucket bolt b db')"

datatype offset_error = BucketNotFound | DbError | OpenFailed

definition offsetBucket :: string where "offsetBucket = ''consumer_offsets''"

text \<open>\<open>opened\<close> is the result of \<open>bolt.Open\<close>.\<close>

definition NewOffsetStore :: "'db bolt \<Rightarrow> 'db option \<Rightarrow> offset_error + 'db" where
  "NewOffsetStore bolt opened =
     (case opened of
        None \<Rightarrow> Inl OpenFailed
      | Some db \<Rightarrow> (case bk_create bolt offsetBucket db of None \<Rightarrow> Inl BucketNotFound | Some db' \<Rightarrow> Inr db'))"

definition offset_key :: "string \<Rightarrow> string \<Rightarrow> int \<Rightarrow> string" where
  "offset_key groupID topic part = groupID @ ''/'' @ topic @ ''/'' @ itoa part"

definition PutOffset :: "'db bolt \<Rightarrow> string \<Rightarrow> string \<Rightarrow> int \<Rightarrow> int \<Rightarrow> 'db \<Rightarrow> (offset_error + unit) \<times> 'db" where
  "PutOffset bolt groupID topic part offset db =
     (if \<not> bk_bucket bolt offsetBucket db then (Inl BucketNotFound, db)
      else case bk_put bolt offsetBucket (bytes_of (offset_key groupID topic part)) (put_be 8 (to_u 64 offset)) db of
             None \<Rightarrow> (Inl DbError, db)
           | Some db' \<Rightarrow> (Inr (), db'))"

text \<open>\<open>binary.BigEndian.Uint64\<close> panics on fewer than eight bytes.\<close>

definition os_GetOffset :: "'db bolt \<Rightarrow> string \<Rightarrow> string \<Rightarrow> int \<Rightarrow> 'db \<Rightarrow> (offset_error + int) go" where
  "os_GetOffset bolt groupID topic part db =
     (if \<not> bk_bucket bolt offsetBucket db then Ret (Inl BucketNotFound)
      else case bk_get bolt offsetBucket (bytes_of (offset_key groupID topic part)) db of
             None \<Rightarrow> Ret (Inr 0)
           | Some bs \<Rightarrow> if length bs < 8 then Panic else Ret (Inr (to_s 64 (get_be (take 8 bs)))))"

definition DeleteOffset :: "'db bolt \<Rightarrow> string \<Rightarrow> string \<Rightarrow> int \<Rightarrow> 'db \<Rightarrow> (offset_error + unit) \<times> 'db" where
  "DeleteOffset bolt groupID topic part db =
     (if \<not> bk_bucket bolt offsetBucket db then (Inl BucketNotFound, db)
      else case bk_delete bolt offsetBucket (bytes_of (offset_key groupID topic part)) db of
             None \<Rightarrow> (Inl DbError, db)
           | Some db' \<Rightarrow> (Inr (), db'))"

section \<open>Keys\<close>

lemma bytes_of_inj: "bytes_of s = bytes_of t \<longleftrightarrow> s = t"
  by (metis string_of_bytes_of)

lemma offset_key_inj:
  assumes "offset_key g t p = offset_key g' t' p'" and "CHR ''/'' \<notin> set t" and "CHR ''/'' \<notin> set t'"
  shows "g = g' \<and> t = t' \<and> p = p'"
proof -
  have no: "CHR ''/'' \<notin> set (itoa q)" for q
    using itoa_chars [of "CHR ''/''" q] by (auto simp: is_digit_def)
  have "(g @ CHR ''/'' # t) @ CHR ''/'' # itoa p = (g' @ CHR ''/'' # t') @ CHR ''/'' # itoa p'"
    using assms(1) by (simp add: offset_key_def)
  then have "g @ CHR ''/'' # t = g' @ CHR ''/'' # t' \<and> itoa p = itoa p'" by (rule separated_inj [OF _ no no])
  with assms(2,3) separated_inj show ?thesis by (metis itoa_inj)
qed

lemma PutOffset_key:
  assumes "bolt_laws bolt" and "PutOffset bolt g t p off db = (Inr (), db')"
  shows "bk_bucket bolt offsetBucket db'"
    and "bk_get bolt offsetBucket (bytes_of (offset_key g t p)) db' = Some (put_be 8 (to_u 64 off))"
    and "offset_key g' t' p' \<noteq> offset_key g t p \<Longrightarrow> os_GetOffset bolt g' t' p' db' = os_GetOffset bolt g' t' p' db"
proof -
  have b: "bk_bucket bolt offsetBucket db"
    and p: "bk_put bolt offsetBucket (bytes_of (offset_key g t p)) (put_be 8 (to_u 64 off)) db = Some db'"
    using assms(2) by (auto simp: PutOffset_def split: if_splits option.splits)
  have laws: "bk_get bolt offsetBucket (bytes_of (offset_key g t p)) db' = Some (put_be 8 (to_u 64 off))
      \<and> (\<forall>k'. k' \<noteq> bytes_of (offset_key g t p) \<longrightarrow> bk_get bolt offsetBucket k' db' = bk_get bolt offsetBucket k' db)
      \<and> (\<forall>b'. bk_bucket bolt b' db' = bk_bucket bolt b' db)"
    using assms(1) p unfolding bolt_laws_def by blast
  then show "bk_bucket bolt offsetBucket db'"
    and "bk_get bolt offsetBucket (bytes_of (offset_key g t p)) db' = Some (put_be 8 (to_u 64 off))"
    using b by simp_all
  show "os_GetOffset bolt g' t' p' db' = os_GetOffset bolt g' t' p' db"
    if "offset_key g' t' p' \<noteq> offset_key g t p"
    using laws that by (simp add: os_GetOffset_def bytes_of_inj)
qed

lemma decode_offset: "int64_range off \<Longrightarrow> to_s 64 (get_be (take 8 (put_be 8 (to_u 64 off)))) = off"
proof -
  assume "int64_range off"
  moreover have "to_u 64 off mod 256 ^ 8 = to_u 64 off" using to_u_bound [of 64 off] by simp
  ultimately show ?thesis using to_s_to_u [of 64 off] by (simp add: get_put_be int64_range_def del: put_be.simps)
qed

section \<open>Properties\<close>

text \<open>The database of the witnesses: one bucket, in memory.\<close>

definition mem_bolt :: "(byte list, byte list) gomap bolt" where
  "mem_bolt = \<lparr>bk_bucket = (\<lambda>b db. True), bk_create = (\<lambda>b db. Some db), bk_put = (\<lambda>b k v db. Some (put k v db)),
               bk_get = (\<lambda>b k db. map_of db k), bk_delete = (\<lambda>b k db. Some (del k db))\<rparr>"

lemma mem_bolt_laws: "bolt_laws mem_bolt"
  by (auto simp: bolt_laws_def mem_bolt_def)

text \<open>C38. An offset that \<open>PutOffset\<close> stored is what \<open>GetOffset\<close> returns for the same group, topic and partition,
  and the offsets of all other groups, topics and partitions are what they were, for topics without a slash.\<close>

theorem offset_roundtrip:
  assumes "bolt_laws bolt" and "PutOffset bolt g t p off db = (Inr (), db')" and "int64_range off"
    and "CHR ''/'' \<notin> set t"
  shows "os_GetOffset bolt g t p db' = Ret (Inr off)
    \<and> (\<forall>g' t' p'. (g', t', p') \<noteq> (g, t, p) \<and> CHR ''/'' \<notin> set t' \<longrightarrow>
         os_GetOffset bolt g' t' p' db' = os_GetOffset bolt g' t' p' db)"
proof -
  have "os_GetOffset bolt g t p db' = Ret (Inr off)"
    using PutOffset_key(1,2) [OF assms(1,2)] decode_offset [OF assms(3)]
    by (simp add: os_GetOffset_def del: put_be.simps)
  moreover have "os_GetOffset bolt g' t' p' db' = os_GetOffset bolt g' t' p' db"
    if "(g', t', p') \<noteq> (g, t, p)" "CHR ''/'' \<notin> set t'" for g' t' p'
    using PutOffset_key(3) [OF assms(1,2)] offset_key_inj [of g' t' p' g t p] that assms(4) by auto
  ultimately show ?thesis by blast
qed

theorem offset_roundtrip_witness:
  "os_GetOffset mem_bolt ''g'' ''t'' 0 (snd (PutOffset mem_bolt ''g'' ''t'' 0 42 [])) = Ret (Inr 42)"
proof -
  have "PutOffset mem_bolt ''g'' ''t'' 0 42 [] = (Inr (), snd (PutOffset mem_bolt ''g'' ''t'' 0 42 []))"
    by (simp add: PutOffset_def mem_bolt_def)
  from offset_roundtrip [OF mem_bolt_laws this] show ?thesis by (simp add: int64_range_def)
qed

text \<open>With a slash in a topic two groups share one offset: what group \<open>g\<close> commits for topic
  \<open>x/t\<close> is read as the offset of group \<open>g/x\<close> for topic \<open>t\<close>.\<close>

theorem offset_keys_collide:
  assumes "bolt_laws bolt" and "PutOffset bolt g (x @ ''/'' @ t) p off db = (Inr (), db')" and "int64_range off"
  shows "os_GetOffset bolt (g @ ''/'' @ x) t p db' = Ret (Inr off)"
proof -
  have "offset_key (g @ ''/'' @ x) t p = offset_key g (x @ ''/'' @ t) p" by (simp add: offset_key_def)
  then show ?thesis
    using PutOffset_key(1,2) [OF assms(1,2)] decode_offset [OF assms(3)]
    by (simp add: os_GetOffset_def del: put_be.simps)
qed

theorem offset_keys_collide_witness:
  "os_GetOffset mem_bolt ''g/x'' ''t'' 0 (snd (PutOffset mem_bolt ''g'' ''x/t'' 0 42 [])) = Ret (Inr 42)"
proof -
  have "PutOffset mem_bolt ''g'' (''x'' @ ''/'' @ ''t'') 0 42 [] = (Inr (), snd (PutOffset mem_bolt ''g'' ''x/t'' 0 42 []))"
    by (simp add: PutOffset_def mem_bolt_def)
  from offset_keys_collide [OF mem_bolt_laws this] show ?thesis by (simp add: int64_range_def)
qed

end
