(* ===== verification/Tx_Coordinator.thy ===== *)
theory Tx_Coordinator
  imports Go_Prelude "HOL-Library.Sublist"
begin

text \<open>
  \<^verbatim>\<open>cluster/go/nameserver/tc.go\<close>: the transaction coordinator of the name server and its log file.
  \<open>CommitTx\<close> gives its mutex up between its two halves; they are separate steps here (\<open>CommitTx_start\<close>,
  \<open>CommitTx_finish\<close>), so that other calls can come in between. Every write of the log may fail, and its error is dropped as in the
  code. Shown: what a restart finds, that a transaction never becomes pending again and its messages are fixed from then
  on as long as rewrites are complete and ids fresh, what a rollback during a commit does, and that a commit cut off by a crash is never resolved. The code ensures neither condition;
  what happens without them is shown as well.
\<close>

datatype TxStatus = TxPending | TxCommitting | TxCommitted | TxAborted

record TxMessage =
  txm_Topic :: string
  txm_Partition :: int
  txm_Key :: string
  txm_Value :: "byte list"

record TxState =
  TxID :: string
  Status :: TxStatus
  tx_ProducerID :: string
  tx_PartitionInfo :: "TxMessage list"
  CreatedAt :: time
  UpdatedAt :: time

record TransactionCoordinator =
  tc_transactions :: "(string, TxState) gomap"
  txLogFile :: "TxState gob list option"
  tc_timeout :: duration

datatype tc_error = TxNotFound string | CannotAdd TxStatus | TxCannotCommit TxStatus

text \<open>How a rewrite of the log file ends: written, not opened (the file is as before), or cut off after the file was
  truncated, with a part of the stream in it.\<close>

datatype log_io = LogWritten | LogOpenFails | LogWriteFails nat

type_synonym tx_order = "(string \<times> TxState) list \<Rightarrow> (string \<times> TxState) list"

definition persistTx :: "tx_order \<Rightarrow> log_io \<Rightarrow> TransactionCoordinator \<Rightarrow> TransactionCoordinator" where
  "persistTx ord io tc =
     (let buf = gob_encode 0 (map snd (ord (tc_transactions tc)))
      in case io of
           LogWritten \<Rightarrow> tc\<lparr>txLogFile := Some buf\<rparr>
         | LogOpenFails \<Rightarrow> tc
         | LogWriteFails n \<Rightarrow> tc\<lparr>txLogFile := Some (take n buf)\<rparr>)"

definition loadTxLog :: "TransactionCoordinator \<Rightarrow> TransactionCoordinator" where
  "loadTxLog tc =
     (case txLogFile tc of
        None \<Rightarrow> tc
      | Some stream \<Rightarrow>
          tc\<lparr>tc_transactions := foldl (\<lambda>m tx. put (TxID tx) tx m) (tc_transactions tc) (gob_decode [] stream)\<rparr>)"

text \<open>A new coordinator on the log file an earlier process may have left.\<close>

definition NewTransactionCoordinator :: "TxState gob list option \<Rightarrow> TransactionCoordinator" where
  "NewTransactionCoordinator left =
     loadTxLog \<lparr>tc_transactions = [], txLogFile = left, tc_timeout = 30 * Second\<rparr>"

definition randInt :: "time \<Rightarrow> int" where
  "randInt now = go_mod (UnixNano now) 1000000"

definition BeginTx ::
    "tx_order \<Rightarrow> log_io \<Rightarrow> string \<Rightarrow> time \<Rightarrow> time \<Rightarrow> time \<Rightarrow> time \<Rightarrow> TransactionCoordinator \<Rightarrow>
     string \<times> TransactionCoordinator" where
  "BeginTx ord io producerID now1 now2 now3 now4 tc =
     (let txID = producerID @ ''-'' @ itoa (UnixNano now1) @ ''-'' @ itoa (randInt now2);
          tx = \<lparr>TxID = txID, Status = TxPending, tx_ProducerID = producerID, tx_PartitionInfo = [],
                CreatedAt = now3, UpdatedAt = now4\<rparr>
      in (txID, persistTx ord io (tc\<lparr>tc_transactions := put txID tx (tc_transactions tc)\<rparr>)))"

text \<open>An update through the pointer \<open>tx\<close>, which the table keeps under \<open>txID\<close>, followed by \<open>persistTx\<close>.\<close>

definition upd_tx ::
    "tx_order \<Rightarrow> log_io \<Rightarrow> string \<Rightarrow> TxState \<Rightarrow> TransactionCoordinator \<Rightarrow> TransactionCoordinator" where
  "upd_tx ord io txID tx tc = persistTx ord io (tc\<lparr>tc_transactions := put txID tx (tc_transactions tc)\<rparr>)"

definition tc_AddMessage ::
    "tx_order \<Rightarrow> log_io \<Rightarrow> string \<Rightarrow> string \<Rightarrow> int \<Rightarrow> string \<Rightarrow> byte list \<Rightarrow> time \<Rightarrow> TransactionCoordinator \<Rightarrow>
     (tc_error + unit) \<times> TransactionCoordinator" where
  "tc_AddMessage ord io txID topic part key val now tc =
     (case map_of (tc_transactions tc) txID of
        None \<Rightarrow> (Inl (TxNotFound txID), tc)
      | Some tx \<Rightarrow>
          if Status tx \<noteq> TxPending then (Inl (CannotAdd (Status tx)), tc)
          else let m = \<lparr>txm_Topic = topic, txm_Partition = part, txm_Key = key, txm_Value = val\<rparr>
               in (Inr (), upd_tx ord io txID (tx\<lparr>tx_PartitionInfo := tx_PartitionInfo tx @ [m], UpdatedAt := now\<rparr>) tc))"

definition CommitTx_start ::
    "tx_order \<Rightarrow> log_io \<Rightarrow> string \<Rightarrow> time \<Rightarrow> TransactionCoordinator \<Rightarrow> (tc_error + unit) \<times> TransactionCoordinator" where
  "CommitTx_start ord io txID now tc =
     (case map_of (tc_transactions tc) txID of
        None \<Rightarrow> (Inl (TxNotFound txID), tc)
      | Some tx \<Rightarrow>
          if Status tx \<noteq> TxPending then (Inl (TxCannotCommit (Status tx)), tc)
          else (Inr (), upd_tx ord io txID (tx\<lparr>Status := TxCommitting, UpdatedAt := now\<rparr>) tc))"

definition doCommit :: "string \<Rightarrow> TransactionCoordinator \<Rightarrow> tc_error + unit" where
  "doCommit txID tc = (if has (tc_transactions tc) txID then Inr () else Inl (TxNotFound txID))"

text \<open>The second half, with the pointer \<open>tx\<close> of the first: entries are never taken out of the table, and only a new transaction under the same id replaces one.\<close>

definition CommitTx_finish ::
    "tx_order \<Rightarrow> log_io \<Rightarrow> string \<Rightarrow> time \<Rightarrow> tc_error + unit \<Rightarrow> TransactionCoordinator \<Rightarrow>
     (tc_error + unit) \<times> TransactionCoordinator" where
  "CommitTx_finish ord io txID now err tc =
     (case map_of (tc_transactions tc) txID of
        None \<Rightarrow> (err, tc)
      | Some tx \<Rightarrow>
          (case err of
             Inl e \<Rightarrow> (Inl e, upd_tx ord io txID (tx\<lparr>Status := TxAborted, UpdatedAt := now\<rparr>) tc)
           | Inr u \<Rightarrow> (Inr u, upd_tx ord io txID (tx\<lparr>Status := TxCommitted, UpdatedAt := now\<rparr>) tc)))"

text \<open>\<open>CommitTx\<close> without another call in between.\<close>

definition CommitTx ::
    "tx_order \<Rightarrow> log_io \<Rightarrow> log_io \<Rightarrow> string \<Rightarrow> time \<Rightarrow> time \<Rightarrow> TransactionCoordinator \<Rightarrow>
     (tc_error + unit) \<times> TransactionCoordinator" where
  "CommitTx ord io1 io2 txID now1 now2 tc =
     (case CommitTx_start ord io1 txID now1 tc of
        (Inl e, tc1) \<Rightarrow> (Inl e, tc1)
      | (Inr u, tc1) \<Rightarrow> CommitTx_finish ord io2 txID now2 (doCommit txID tc1) tc1)"

definition RollbackTx ::
    "tx_order \<Rightarrow> log_io \<Rightarrow> string \<Rightarrow> time \<Rightarrow> TransactionCoordinator \<Rightarrow> (tc_error + unit) \<times> TransactionCoordinator" where
  "RollbackTx ord io txID now tc =
     (case map_of (tc_transactions tc) txID of
        None \<Rightarrow> (Inl (TxNotFound txID), tc)
      | Some tx \<Rightarrow> (Inr (), upd_tx ord io txID (tx\<lparr>Status := TxAborted, UpdatedAt := now\<rparr>) tc))"

definition GetTxStatus :: "string \<Rightarrow> TransactionCoordinator \<Rightarrow> tc_error + TxStatus" where
  "GetTxStatus txID tc =
     (case map_of (tc_transactions tc) txID of None \<Rightarrow> Inl (TxNotFound txID) | Some tx \<Rightarrow> Inr (Status tx))"

definition GetPendingTransactions :: "tx_order \<Rightarrow> string \<Rightarrow> TransactionCoordinator \<Rightarrow> TxState list" where
  "GetPendingTransactions ord producerID tc =
     filter (\<lambda>tx. tx_ProducerID tx = producerID \<and> Status tx = TxPending) (map snd (ord (tc_transactions tc)))"

text \<open>One pulse of \<open>startTimeoutChecker\<close>: \<open>io txID\<close> is the outcome of the write for that transaction.\<close>

fun timeout_loop ::
    "tx_order \<Rightarrow> (string \<Rightarrow> log_io) \<Rightarrow> time \<Rightarrow> (string \<times> TxState) list \<Rightarrow> TransactionCoordinator \<Rightarrow> TransactionCoordinator" where
  "timeout_loop ord io now [] tc = tc"
| "timeout_loop ord io now ((txID, tx) # txs) tc =
     timeout_loop ord io now txs
       (if Status tx = TxPending \<and> tc_timeout tc < now - CreatedAt tx
        then upd_tx ord (io txID) txID (tx\<lparr>Status := TxAborted, UpdatedAt := now\<rparr>) tc else tc)"

definition timeoutTick :: "tx_order \<Rightarrow> (string \<Rightarrow> log_io) \<Rightarrow> time \<Rightarrow> TransactionCoordinator \<Rightarrow> TransactionCoordinator" where
  "timeoutTick ord io now tc = timeout_loop ord io now (ord (tc_transactions tc)) tc"

section \<open>Steps\<close>

text \<open>
  The calls of clients, the pulses of the timeout checker and crashes, in any order. The second component holds the commits that are between
  their two halves: the id, and whether the object they hold is still the one in the table. A crash in the middle of a rewrite is a step with \<open>LogWriteFails\<close> and then the crash. If \<open>calm\<close>, every rewrite of the log succeeds,
  none is cut off by a crash, and \<open>BeginTx\<close> never makes an id that is taken; the code ensures neither. A new transaction under a taken id replaces the object
  in the table; a commit that holds the old one goes on with it, and what it still does to the coordinator is to rewrite the file (\<open>tc_detached\<close>).
\<close>

type_synonym tc_sys = "TransactionCoordinator \<times> (string \<times> bool) list"

definition detach :: "string \<Rightarrow> (string \<times> bool) list \<Rightarrow> (string \<times> bool) list" where
  "detach txID = map (\<lambda>(k, attached). (k, attached \<and> k \<noteq> txID))"

definition io_of :: "bool \<Rightarrow> log_io \<Rightarrow> bool" where
  "io_of calm io \<longleftrightarrow> (calm \<longrightarrow> io = LogWritten)"

inductive tc_step :: "bool \<Rightarrow> tc_sys \<Rightarrow> tc_sys \<Rightarrow> bool" for calm where
  tc_begin: "range_order ord \<Longrightarrow> io_of calm io \<Longrightarrow> BeginTx ord io producerID n1 n2 n3 n4 tc = (txID, tc') \<Longrightarrow>
    (calm \<Longrightarrow> \<not> has (tc_transactions tc) txID) \<Longrightarrow> tc_step calm (tc, fl) (tc', detach txID fl)"
| tc_add: "range_order ord \<Longrightarrow> io_of calm io \<Longrightarrow> tc_AddMessage ord io txID topic part key val now tc = (res, tc') \<Longrightarrow>
    tc_step calm (tc, fl) (tc', fl)"
| tc_start: "range_order ord \<Longrightarrow> io_of calm io \<Longrightarrow> CommitTx_start ord io txID now tc = (Inr u, tc') \<Longrightarrow>
    tc_step calm (tc, fl) (tc', (txID, True) # fl)"
| tc_refused: "CommitTx_start ord io txID now tc = (Inl e, tc') \<Longrightarrow> tc_step calm (tc, fl) (tc', fl)"
| tc_finish: "range_order ord \<Longrightarrow> io_of calm io \<Longrightarrow> (txID, True) \<in> set fl \<Longrightarrow>
    CommitTx_finish ord io txID now (doCommit txID tc) tc = (res, tc') \<Longrightarrow> tc_step calm (tc, fl) (tc', remove1 (txID, True) fl)"
| tc_detached: "range_order ord \<Longrightarrow> io_of calm io \<Longrightarrow> (txID, False) \<in> set fl \<Longrightarrow> tc_step calm (tc, fl) (persistTx ord io tc, remove1 (txID, False) fl)"
| tc_rollback: "range_order ord \<Longrightarrow> io_of calm io \<Longrightarrow> RollbackTx ord io txID now tc = (res, tc') \<Longrightarrow> tc_step calm (tc, fl) (tc', fl)"
| tc_tick: "range_order ord \<Longrightarrow> (\<And>k. io_of calm (io k)) \<Longrightarrow> tc_step calm (tc, fl) (timeoutTick ord io now tc, fl)"
| tc_crash: "tc_step calm (tc, fl) (NewTransactionCoordinator (txLogFile tc), [])"

definition tc_wf :: "TransactionCoordinator \<Rightarrow> bool" where
  "tc_wf tc \<longleftrightarrow> gm_ok (tc_transactions tc) \<and> (\<forall>(txID, tx) \<in> set (tc_transactions tc). TxID tx = txID)"

text \<open>A restart finds what is in memory.\<close>

definition mirrored :: "TransactionCoordinator \<Rightarrow> bool" where
  "mirrored tc \<longleftrightarrow> map_of (tc_transactions (NewTransactionCoordinator (txLogFile tc))) = map_of (tc_transactions tc)"

lemma foldl_put_wf:
  assumes "gm_ok m" and "\<forall>(k, tx) \<in> set m. TxID tx = k"
  shows "gm_ok (foldl (\<lambda>m tx. put (TxID tx) tx m) m txs)
    \<and> (\<forall>(k, tx) \<in> set (foldl (\<lambda>m tx. put (TxID tx) tx m) m txs). TxID tx = k)"
  using assms
proof (induction txs arbitrary: m)
  case (Cons tx txs)
  have "\<forall>(k, t) \<in> set (put (TxID tx) tx m). TxID t = k" using Cons.prems(2) by (auto dest: set_put_subset)
  then show ?case unfolding foldl_Cons using Cons.prems(1) by (intro Cons.IH) simp_all
qed simp

lemma tc_wf_New: "tc_wf (NewTransactionCoordinator left)"
  using foldl_put_wf [of "[]"] by (auto simp: tc_wf_def NewTransactionCoordinator_def loadTxLog_def split: option.split)

lemma txLogFile_New [simp]: "txLogFile (NewTransactionCoordinator left) = left"
  by (simp add: NewTransactionCoordinator_def loadTxLog_def split: option.split)

lemma map_of_foldl_put:
  "gm_ok xs \<Longrightarrow> \<forall>(k, tx) \<in> set xs. TxID tx = k \<Longrightarrow>
   map_of (foldl (\<lambda>m tx. put (TxID tx) tx m) m (map snd xs)) = map_of m ++ map_of xs"
proof (induction xs arbitrary: m)
  case (Cons a xs)
  obtain k tx where a: "a = (k, tx)" by (cases a)
  have k: "TxID tx = k" "k \<notin> dom (map_of xs)" using Cons.prems by (simp_all add: a dom_map_of_conv_image_fst)
  have "map_of (foldl (\<lambda>m tx. put (TxID tx) tx m) (put k tx m) (map snd xs)) = map_of (put k tx m) ++ map_of xs"
    using Cons.prems by (intro Cons.IH) simp_all
  also have "\<dots> = (map_of m ++ map_of xs)(k \<mapsto> tx)" using map_add_upd_left [OF k(2)] by simp
  finally show ?case by (simp only: a k(1) list.map snd_conv fst_conv foldl_Cons map_of.simps map_add_upd)
qed simp

lemma mirrored_persist:
  assumes "tc_wf tc" and "range_order ord"
  shows "mirrored (persistTx ord LogWritten tc)"
proof -
  let ?xs = "ord (tc_transactions tc)"
  have "gm_ok ?xs" "\<forall>(k, tx) \<in> set ?xs. TxID tx = k"
    using assms range_order_map_fst [OF assms(2)] range_order_set [OF assms(2)] by (auto simp: tc_wf_def)
  then have "map_of (foldl (\<lambda>m tx. put (TxID tx) tx m) [] (map snd ?xs)) = map_of ?xs"
    by (simp add: map_of_foldl_put)
  also have "\<dots> = map_of (tc_transactions tc)"
    using assms by (intro range_order_map_of) (simp_all add: tc_wf_def)
  finally show ?thesis
    by (simp add: mirrored_def persistTx_def NewTransactionCoordinator_def loadTxLog_def gob_roundtrip)
qed

lemma persistTx_frame [simp]: "tc_transactions (persistTx ord io tc) = tc_transactions tc"
  "tc_timeout (persistTx ord io tc) = tc_timeout tc"
  by (simp_all add: persistTx_def Let_def split: log_io.split)

lemma tc_wf_put: "tc_wf tc \<Longrightarrow> TxID tx = k \<Longrightarrow> tc_wf (tc\<lparr>tc_transactions := put k tx (tc_transactions tc)\<rparr>)"
  by (auto simp: tc_wf_def dest: set_put_subset)

lemma tc_wf_persist [simp]: "tc_wf (persistTx ord io tc) = tc_wf tc"
  by (simp add: tc_wf_def)

lemma gob_decode_torn: "gob_decode [] (take n (gob_encode tid xs)) = take (n - 1) xs"
proof (cases "n = 0 \<or> xs = []")
  case False
  then obtain m where "n = Suc m" by (cases n) auto
  with False show ?thesis using gob_decode_known [of tid "[tid]" "take m xs" "[]"] by (simp add: gob_encode_def take_map)
qed (auto simp: gob_encode_def)

text \<open>Every operation but a new transaction replaces entries by \<open>upd_tx\<close>, keeping the id.\<close>

lemma upd_tx_ok:
  assumes "tc_wf tc" and "range_order ord" and "TxID tx = txID"
  shows "tc_wf (upd_tx ord LogWritten txID tx tc) \<and> mirrored (upd_tx ord LogWritten txID tx tc)"
  using tc_wf_put [OF assms(1,3)] assms(2) by (simp add: upd_tx_def mirrored_persist)

lemma upd_tx_lookup [simp]: "map_of (tc_transactions (upd_tx ord io txID tx tc)) = (map_of (tc_transactions tc))(txID \<mapsto> tx)"
  "tc_timeout (upd_tx ord io txID tx tc) = tc_timeout tc"
  by (simp_all add: upd_tx_def)

lemma BeginTx_upd:
  assumes "BeginTx ord io producerID n1 n2 n3 n4 tc = (txID, tc')"
  obtains tx where "tc' = upd_tx ord io txID tx tc" "TxID tx = txID"
  using assms by (auto simp: BeginTx_def upd_tx_def Let_def)

lemma tc_wf_TxID: "tc_wf tc \<Longrightarrow> map_of (tc_transactions tc) k = Some tx \<Longrightarrow> TxID tx = k"
  by (auto simp: tc_wf_def dest: map_of_SomeD)

lemma timeout_loop_ok:
  assumes "tc_wf tc" and "range_order ord" and "mirrored tc" and "\<forall>(k, tx) \<in> set txs. TxID tx = k" and "\<And>k. io k = LogWritten"
  shows "tc_wf (timeout_loop ord io now txs tc) \<and> mirrored (timeout_loop ord io now txs tc)"
  using assms(1-4)
proof (induction txs arbitrary: tc)
  case (Cons a txs)
  obtain k tx where a: "a = (k, tx)" by (cases a)
  have "TxID tx = k" using Cons.prems(4) a by simp
  then show ?case using Cons assms(5) upd_tx_ok [OF Cons.prems(1,2), of "tx\<lparr>Status := TxAborted, UpdatedAt := now\<rparr>" k]
    by (simp add: a)
qed simp

lemma io_of_True [simp]: "io_of True io \<longleftrightarrow> io = LogWritten"
  by (simp add: io_of_def)

lemma tc_step_ok:
  assumes "tc_step True s s'" and "tc_wf (fst s)" and "mirrored (fst s)"
  shows "tc_wf (fst s') \<and> mirrored (fst s')"
  using assms
proof cases
  case (tc_begin ord io producerID n1 n2 n3 n4 tc txID tc' fl)
  obtain tx where "tc' = upd_tx ord io txID tx tc" "TxID tx = txID" using tc_begin(5) by (rule BeginTx_upd)
  with upd_tx_ok [of tc ord tx txID] tc_begin assms(2) show ?thesis by simp
next
  case (tc_tick ord io tc fl now)
  moreover have "\<forall>(k, tx) \<in> set (ord (tc_transactions tc)). TxID tx = k"
    using assms(2) tc_tick range_order_set [of ord] by (simp add: tc_wf_def)
  ultimately show ?thesis using assms(2,3) timeout_loop_ok [of tc ord _ io] by (simp add: timeoutTick_def)
next
  case (tc_crash tc fl)
  then show ?thesis by (simp add: tc_wf_New mirrored_def)
next
  case (tc_detached ord io txID fl tc)
  then show ?thesis using assms(2) mirrored_persist by simp
qed (use assms(2,3) in \<open>auto simp: tc_AddMessage_def CommitTx_start_def CommitTx_finish_def RollbackTx_def Let_def
      tc_wf_TxID intro: upd_tx_ok [THEN conjunct1] upd_tx_ok [THEN conjunct2] split: option.splits if_splits sum.splits\<close>)

section \<open>The life of a transaction\<close>

definition tx_le :: "TxState \<Rightarrow> TxState \<Rightarrow> bool" where
  "tx_le tx tx' \<longleftrightarrow> prefix (tx_PartitionInfo tx) (tx_PartitionInfo tx') \<and> tx_ProducerID tx' = tx_ProducerID tx \<and>
     (Status tx \<noteq> TxPending \<longrightarrow> Status tx' \<noteq> TxPending \<and> tx_PartitionInfo tx' = tx_PartitionInfo tx)"

lemma tx_le_refl [simp]: "tx_le tx tx"
  by (simp add: tx_le_def)

lemma tx_le_trans: "tx_le a b \<Longrightarrow> tx_le b c \<Longrightarrow> tx_le a c"
  by (auto simp: tx_le_def intro: prefix_order.trans)

lemma timeout_loop_le:
  assumes "gm_ok txs" and "\<forall>(k, tx) \<in> set txs. map_of (tc_transactions tc) k = Some tx"
    and "map_of (tc_transactions tc) txID = Some tx"
  shows "\<exists>tx'. map_of (tc_transactions (timeout_loop ord io now txs tc)) txID = Some tx' \<and> tx_le tx tx'
    \<and> (Status tx \<noteq> TxPending \<longrightarrow> tx' = tx)"
  using assms
proof (induction txs arbitrary: tc tx)
  case (Cons a txs)
  obtain k t where a: "a = (k, t)" by (cases a)
  define tc1 where "tc1 = (if Status t = TxPending \<and> tc_timeout tc < now - CreatedAt t
        then upd_tx ord (io k) k (t\<lparr>Status := TxAborted, UpdatedAt := now\<rparr>) tc else tc)"
  have kt: "map_of (tc_transactions tc) k = Some t" using Cons.prems(2) by (simp add: a)
  have k: "\<forall>(k', t') \<in> set txs. k' \<noteq> k" using Cons.prems(1) by (force simp: a)
  have "\<forall>(k', t') \<in> set txs. map_of (tc_transactions tc1) k' = Some t'"
    using Cons.prems(2) k by (auto simp: tc1_def a)
  moreover have "\<exists>t1. map_of (tc_transactions tc1) txID = Some t1 \<and> tx_le tx t1 \<and> (Status tx \<noteq> TxPending \<longrightarrow> t1 = tx)"
    using Cons.prems(3) kt by (cases "txID = k") (auto simp: tc1_def tx_le_def)
  then obtain t1 where "map_of (tc_transactions tc1) txID = Some t1" "tx_le tx t1" "Status tx \<noteq> TxPending \<longrightarrow> t1 = tx"
    by blast
  ultimately show ?case using Cons.IH [of tc1 t1] Cons.prems(1) tx_le_trans
    by (simp add: a tc1_def [symmetric]) blast
qed simp

lemma timeoutTick_le:
  assumes "tc_wf tc" and "range_order ord" and "map_of (tc_transactions tc) txID = Some tx"
  shows "\<exists>tx'. map_of (tc_transactions (timeoutTick ord io now tc)) txID = Some tx' \<and> tx_le tx tx'
    \<and> (Status tx \<noteq> TxPending \<longrightarrow> tx' = tx)"
  unfolding timeoutTick_def
proof (rule timeout_loop_le)
  show "gm_ok (ord (tc_transactions tc))" using assms(1,2) by (simp add: tc_wf_def range_order_map_fst)
  show "\<forall>(k, tx) \<in> set (ord (tc_transactions tc)). map_of (tc_transactions tc) k = Some tx"
    using assms(1,2) by (auto simp: tc_wf_def range_order_set)
qed (fact assms(3))

lemma tc_step_le:
  assumes "tc_step True s s'" and "tc_wf (fst s)" and "mirrored (fst s)" and "map_of (tc_transactions (fst s)) txID = Some tx"
  shows "\<exists>tx'. map_of (tc_transactions (fst s')) txID = Some tx' \<and> tx_le tx tx'"
  using assms(1)
proof cases
  case (tc_begin ord io producerID n1 n2 n3 n4 tc txID' tc' fl)
  obtain t where t: "tc' = upd_tx ord io txID' t tc" using tc_begin(5) by (rule BeginTx_upd)
  have "txID \<noteq> txID'" using tc_begin assms(4) by auto
  then show ?thesis using tc_begin assms(4) t by simp
next
  case (tc_tick ord io tc fl now)
  then show ?thesis using timeoutTick_le [of tc ord txID tx io now] assms(2,4) by auto
next
  case (tc_crash tc fl)
  then show ?thesis using assms(3,4) by (simp add: mirrored_def)
qed (use assms(4) in \<open>auto simp: tc_AddMessage_def CommitTx_start_def CommitTx_finish_def RollbackTx_def Let_def
      tx_le_def split: option.splits if_splits sum.splits\<close>)

lemma tc_steps_le:
  assumes "(tc_step True)\<^sup>*\<^sup>* s s'" and "tc_wf (fst s)" and "mirrored (fst s)" and "map_of (tc_transactions (fst s)) txID = Some tx"
  shows "tc_wf (fst s') \<and> mirrored (fst s') \<and> (\<exists>tx'. map_of (tc_transactions (fst s')) txID = Some tx' \<and> tx_le tx tx')"
  using assms(1)
proof induction
  case base
  then show ?case using assms by auto
next
  case (step s1 s2)
  then obtain t where "map_of (tc_transactions (fst s1)) txID = Some t" "tx_le tx t" by blast
  with step tc_step_ok [OF step(2)] tc_step_le [OF step(2)] tx_le_trans show ?case by metis
qed

section \<open>Properties\<close>

definition tc_init :: tc_sys where
  "tc_init = (NewTransactionCoordinator None, [])"

lemma tc_init_ok: "tc_wf (fst tc_init)" "mirrored (fst tc_init)"
  by (simp_all add: tc_init_def tc_wf_New mirrored_def)

text \<open>A pending and a committing transaction, as in the witnesses.\<close>

definition demo_tx :: TxState where
  "demo_tx = \<lparr>TxID = ''p-1'', Status = TxPending, tx_ProducerID = ''p'',
     tx_PartitionInfo = [\<lparr>txm_Topic = ''t'', txm_Partition = 0, txm_Key = [], txm_Value = [1]\<rparr>], CreatedAt = 1, UpdatedAt = 1\<rparr>"

definition demo_tc :: TransactionCoordinator where
  "demo_tc = \<lparr>tc_transactions = [(''p-1'', demo_tx)], txLogFile = None, tc_timeout = 30 * Second\<rparr>"

lemma demo_tc_wf: "tc_wf demo_tc"
  by (simp add: tc_wf_def demo_tc_def demo_tx_def)

text \<open>C34. Over any sequence of calls, timeouts and crashes in which every rewrite of the log file is complete and no new transaction gets an id that is taken: a
  transaction the coordinator holds stays known, its messages only grow, and once it is no longer pending it never is again and its messages are fixed. (The code ensures
  neither condition: it truncates the file before it writes, and it makes ids from the clock.)\<close>

theorem tc_lifecycle:
  assumes "(tc_step True)\<^sup>*\<^sup>* tc_init s" and "(tc_step True)\<^sup>*\<^sup>* s s'" and "map_of (tc_transactions (fst s)) txID = Some tx"
  shows "\<exists>tx'. map_of (tc_transactions (fst s')) txID = Some tx' \<and> prefix (tx_PartitionInfo tx) (tx_PartitionInfo tx')
    \<and> (Status tx \<noteq> TxPending \<longrightarrow> Status tx' \<noteq> TxPending \<and> tx_PartitionInfo tx' = tx_PartitionInfo tx)"
proof -
  have "tc_wf (fst s) \<and> mirrored (fst s)"
    using assms(1) by induction (simp_all add: tc_init_ok tc_step_ok)
  with tc_steps_le [OF assms(2) _ _ assms(3)] show ?thesis by (auto simp: tx_le_def)
qed

theorem tc_lifecycle_witness:
  "\<exists>s txID tx'. (tc_step True)\<^sup>*\<^sup>* tc_init s \<and> map_of (tc_transactions (fst s)) txID = Some tx' \<and> Status tx' \<noteq> TxPending"
proof -
  obtain txID tc1 where b: "BeginTx id LogWritten ''p'' 1 1 1 1 (NewTransactionCoordinator None) = (txID, tc1)" by fastforce
  then have l: "\<exists>tx. map_of (tc_transactions tc1) txID = Some tx \<and> Status tx = TxPending" by (auto simp: BeginTx_def Let_def)
  obtain tc2 where c: "CommitTx_start id LogWritten txID 2 tc1 = (Inr (), tc2)"
    and l2: "\<exists>tx. map_of (tc_transactions tc2) txID = Some tx \<and> Status tx = TxCommitting"
    using l by (auto simp: CommitTx_start_def)
  have s: "tc_step True tc_init (tc1, [])" "tc_step True (tc1, []) (tc2, [(txID, True)])"
    using tc_begin [OF _ _ b, of True "[]"] tc_start [OF _ _ c, of True "[]"]
    by (simp_all add: tc_init_def NewTransactionCoordinator_def loadTxLog_def detach_def)
  have r: "(tc_step True)\<^sup>*\<^sup>* tc_init (tc2, [(txID, True)])" "(tc_step True)\<^sup>*\<^sup>* (tc2, [(txID, True)]) (NewTransactionCoordinator (txLogFile tc2), [])"
    using s tc_crash [of True tc2 "[(txID, True)]"] by (meson converse_rtranclp_into_rtranclp rtranclp.rtrancl_refl)+
  obtain tx where "map_of (tc_transactions (fst (tc2, [(txID, True)]))) txID = Some tx" "Status tx = TxCommitting" using l2 by auto
  with tc_lifecycle [OF r] r show ?thesis by (metis TxStatus.distinct(1) rtranclp_trans)
qed

text \<open>C35. A rewrite that is cut off loses transactions. If the process ends after it truncated the log file and wrote the first \<open>n\<close> items of the stream, the next
  coordinator knows the first \<open>n - 1\<close> transactions in the order in which the map was walked, which Go leaves open, and no others: none at all if it ends before the
  write. Whatever a transaction was, also a committed one, such a run is possible from every state of the coordinator in which
  the transactions are filed under their ids.\<close>

theorem torn_rewrite_forgets:
  assumes "tc_wf tc" and "range_order ord"
  shows "map_of (tc_transactions (NewTransactionCoordinator (txLogFile (persistTx ord (LogWriteFails n) tc))))
      = map_of (take (n - 1) (ord (tc_transactions tc))) \<and>
    (\<exists>s. (tc_step False)\<^sup>*\<^sup>* (tc, fl) s \<and> (\<forall>txID. GetTxStatus txID (fst s) = Inl (TxNotFound txID)))"
proof -
  let ?xs = "ord (tc_transactions tc)"
  have "gm_ok ?xs" "\<forall>(k, tx) \<in> set ?xs. TxID tx = k"
    using assms range_order_map_fst [OF assms(2)] range_order_set [OF assms(2)] by (auto simp: tc_wf_def)
  then have "gm_ok (take (n - 1) ?xs)" "\<forall>(k, tx) \<in> set (take (n - 1) ?xs). TxID tx = k"
    by (simp_all add: take_map [symmetric] distinct_take) (auto dest: in_set_takeD)
  from map_of_foldl_put [OF this, of "[]"]
  have t: "map_of (tc_transactions (NewTransactionCoordinator (txLogFile (persistTx ord (LogWriteFails n) tc)))) = map_of (take (n - 1) ?xs)"
    by (simp add: persistTx_def NewTransactionCoordinator_def loadTxLog_def gob_decode_torn take_map)
  obtain txID tc' where b: "BeginTx ord (LogWriteFails 0) [] 0 0 0 0 tc = (txID, tc')" by fastforce
  then have f: "txLogFile tc' = Some []" by (auto simp: BeginTx_def persistTx_def Let_def)
  have "tc_step False (tc, fl) (tc', detach txID fl)" by (rule tc_begin [OF assms(2) _ b]) (simp_all add: io_of_def)
  moreover have "tc_step False (tc', detach txID fl) (NewTransactionCoordinator (Some []), [])"
    using tc_crash [of False tc' "detach txID fl"] f by simp
  ultimately have "(tc_step False)\<^sup>*\<^sup>* (tc, fl) (NewTransactionCoordinator (Some []), [])" by simp
  moreover have "GetTxStatus txID (NewTransactionCoordinator (Some [])) = Inl (TxNotFound txID)" for txID
    by (simp add: GetTxStatus_def NewTransactionCoordinator_def loadTxLog_def)
  ultimately show ?thesis using t by (intro conjI exI [of _ "(NewTransactionCoordinator (Some []), [])"]) simp_all
qed

theorem torn_rewrite_forgets_witness:
  "GetTxStatus ''p-1'' demo_tc = Inr TxPending \<and>
   (\<exists>s. (tc_step False)\<^sup>*\<^sup>* (demo_tc, []) s \<and> GetTxStatus ''p-1'' (fst s) = Inl (TxNotFound ''p-1''))"
  using torn_rewrite_forgets [OF demo_tc_wf range_order_rev, of 1 "[]"] by (auto simp: GetTxStatus_def demo_tc_def demo_tx_def)

text \<open>An id comes from the clock. If the clock gives two calls of \<open>BeginTx\<close> for one producer the same readings, the second transaction replaces the first, whatever
  became of it: it is pending again, without messages.\<close>

theorem repeated_id_replaces:
  assumes "BeginTx ord io producerID n1 n2 n3 n4 tc = (txID, tc1)" and "BeginTx ord' io' producerID n1 n2 n3' n4' tc2 = (txID', tc3)"
  shows "txID' = txID \<and> GetTxStatus txID tc3 = Inr TxPending \<and>
    map_option tx_PartitionInfo (map_of (tc_transactions tc3) txID) = Some []"
  using assms by (auto simp: BeginTx_def GetTxStatus_def Let_def)

theorem repeated_id_replaces_witness:
  "\<exists>txID tc1 tc2 tc3. BeginTx id LogWritten ''p'' 1 1 1 1 (NewTransactionCoordinator None) = (txID, tc1) \<and>
     CommitTx id LogWritten LogWritten txID 2 3 tc1 = (Inr (), tc2) \<and> GetTxStatus txID tc2 = Inr TxCommitted \<and>
     snd (BeginTx id LogWritten ''p'' 1 1 4 4 tc2) = tc3 \<and> GetTxStatus txID tc3 = Inr TxPending"
proof -
  obtain txID tc1 where b: "BeginTx id LogWritten ''p'' 1 1 1 1 (NewTransactionCoordinator None) = (txID, tc1)" by fastforce
  then obtain tx where l: "map_of (tc_transactions tc1) txID = Some tx" "Status tx = TxPending" by (auto simp: BeginTx_def Let_def)
  obtain res tc2 where c: "CommitTx id LogWritten LogWritten txID 2 3 tc1 = (res, tc2)" by fastforce
  have c2: "res = Inr ()" "GetTxStatus txID tc2 = Inr TxCommitted"
    using c l by (auto simp: CommitTx_def CommitTx_start_def CommitTx_finish_def doCommit_def GetTxStatus_def)
  obtain txID' tc3 where e: "BeginTx id LogWritten ''p'' 1 1 4 4 tc2 = (txID', tc3)" by fastforce
  from repeated_id_replaces [OF b e] b c c2 e show ?thesis by auto
qed

text \<open>After a rewrite of the log that succeeded, a new coordinator started on the file knows the same
  transactions in the same states.\<close>

theorem tc_restart_roundtrip:
  assumes "tc_wf tc" and "range_order ord"
  shows "GetTxStatus txID (NewTransactionCoordinator (txLogFile (persistTx ord LogWritten tc))) = GetTxStatus txID tc"
  using mirrored_persist [OF assms] by (simp add: mirrored_def GetTxStatus_def)

theorem tc_restart_roundtrip_witness:
  "GetTxStatus ''p-1'' (NewTransactionCoordinator (txLogFile (persistTx rev LogWritten demo_tc))) = Inr TxPending"
  using tc_restart_roundtrip [OF demo_tc_wf, of rev "''p-1''"] by (simp add: GetTxStatus_def demo_tc_def demo_tx_def)

text \<open>A rollback that is acknowledged between the two halves of a commit is overwritten: the transaction ends
  as committed.\<close>

theorem rollback_overwritten_by_commit:
  assumes "CommitTx_start ord io1 txID n1 tc = (Inr (), tc1)"
    and "RollbackTx ord io2 txID n2 tc1 = (res, tc2)"
    and "CommitTx_finish ord io3 txID n3 (doCommit txID tc2) tc2 = (res', tc3)"
  shows "res = Inr () \<and> GetTxStatus txID tc2 = Inr TxAborted \<and> res' = Inr () \<and> GetTxStatus txID tc3 = Inr TxCommitted"
  using assms
  by (auto simp: CommitTx_start_def RollbackTx_def CommitTx_finish_def doCommit_def GetTxStatus_def
      split: option.splits if_splits sum.splits)

theorem rollback_overwritten_by_commit_witness:
  "\<exists>tc2 tc3. GetTxStatus ''p-1'' tc2 = Inr TxAborted \<and> GetTxStatus ''p-1'' tc3 = Inr TxCommitted
     \<and> CommitTx_finish id LogWritten ''p-1'' 4 (doCommit ''p-1'' tc2) tc2 = (Inr (), tc3)"
proof -
  obtain tc1 where 1: "CommitTx_start id LogWritten ''p-1'' 2 demo_tc = (Inr (), tc1)"
    by (simp add: CommitTx_start_def demo_tc_def demo_tx_def)
  obtain res tc2 where 2: "RollbackTx id LogWritten ''p-1'' 3 tc1 = (res, tc2)" by fastforce
  obtain res' tc3 where 3: "CommitTx_finish id LogWritten ''p-1'' 4 (doCommit ''p-1'' tc2) tc2 = (res', tc3)" by fastforce
  from rollback_overwritten_by_commit [OF 1 2 3] 3 show ?thesis by blast
qed

text \<open>A commit that a crash cuts off between its halves is never resolved: after the restart the
  transaction is in state \<open>COMMITTING\<close>, a new commit is refused, and the timeout checker never touches it.\<close>

theorem crashed_commit_stuck:
  assumes "tc_wf tc" and "range_order ord" and "CommitTx_start ord LogWritten txID n1 tc = (Inr (), tc1)"
    and "tc2 = NewTransactionCoordinator (txLogFile tc1)"
  shows "GetTxStatus txID tc2 = Inr TxCommitting
    \<and> CommitTx ord io io' txID n2 n3 tc2 = (Inl (TxCannotCommit TxCommitting), tc2)
    \<and> GetTxStatus txID (timeoutTick ord ios now tc2) = Inr TxCommitting"
proof -
  obtain tx where tx: "map_of (tc_transactions tc) txID = Some tx"
    "tc1 = upd_tx ord LogWritten txID (tx\<lparr>Status := TxCommitting, UpdatedAt := n1\<rparr>) tc"
    using assms(3) by (auto simp: CommitTx_start_def split: option.splits if_splits)
  have "mirrored tc1"
    using upd_tx_ok [OF assms(1,2), of "tx\<lparr>Status := TxCommitting, UpdatedAt := n1\<rparr>" txID] tc_wf_TxID [OF assms(1) tx(1)] tx(2)
    by simp
  then have l: "map_of (tc_transactions tc2) txID = Some (tx\<lparr>Status := TxCommitting, UpdatedAt := n1\<rparr>)"
    using tx(2) assms(4) by (simp add: mirrored_def)
  have "tc_wf tc2" by (simp add: assms(4) tc_wf_New)
  from timeoutTick_le [OF this assms(2) l, of ios now] l show ?thesis
    by (auto simp: GetTxStatus_def CommitTx_def CommitTx_start_def)
qed

theorem crashed_commit_stuck_witness:
  "\<exists>tc1. CommitTx_start id LogWritten ''p-1'' 2 demo_tc = (Inr (), tc1)
     \<and> GetTxStatus ''p-1'' (timeoutTick id (\<lambda>_. LogWritten) (1000 * Minute) (NewTransactionCoordinator (txLogFile tc1))) = Inr TxCommitting"
proof -
  obtain tc1 where 1: "CommitTx_start id LogWritten ''p-1'' 2 demo_tc = (Inr (), tc1)"
    by (simp add: CommitTx_start_def demo_tc_def demo_tx_def)
  from crashed_commit_stuck [OF demo_tc_wf range_order_id(1) 1 refl] 1 show ?thesis by blast
qed

end
