(* ===== verification/Nameserver.thy ===== *)
theory Nameserver
  imports Consumer_Groups Offset_Store Tx_Coordinator
begin

text \<open>
  \<^verbatim>\<open>cluster/go/nameserver/nameserver.go\<close>: the name server, its registry of brokers and topics, the
  routes, the consumer groups with their heartbeats, and the HTTP handlers in front of the offset store and
  of the transaction coordinator. A handler maps a request to a status code, a body and the new state. Shown: an invariant of the whole server over
  every sequence of requests, that routes exist and spread, how replicas are placed, and what the handlers of the groups keep.
\<close>

section \<open>State\<close>

record PartitionInfo =
  PartitionID :: int
  pi_Leader :: string
  Replicas :: "string list"
  ISR :: "string list"

record TopicInfo =
  ti_Topic :: string
  Partitions :: "(int, PartitionInfo) gomap"

record BrokerInfo =
  BrokerID :: int
  Address :: string
  ClientAddr :: string
  Hostname :: string
  Port :: int
  LastUpdate :: time

record 'db NameServer =
  ns_topics :: "(string, TopicInfo) gomap"
  ns_brokers :: "(int, BrokerInfo) gomap"
  consumerGroups :: "(string, ConsumerGroup) gomap"
  nextID :: int
  ns_addr :: string
  ns_httpPort :: int
  offsetStore :: "'db option"
  txCoordinator :: TransactionCoordinator

text \<open>\<open>opened\<close> is the result of \<open>bolt.Open\<close> for the offsets, \<open>left\<close> the transaction log on disk; the error of
  \<open>NewOffsetStore\<close> is dropped and the pointer is then nil.\<close>

definition NewNameServer :: "'db bolt \<Rightarrow> 'db option \<Rightarrow> TxState gob list option \<Rightarrow> string \<Rightarrow> int \<Rightarrow> 'db NameServer" where
  "NewNameServer bolt opened left addr port =
     \<lparr>ns_topics = [], ns_brokers = [], consumerGroups = [], nextID = 1, ns_addr = addr, ns_httpPort = port,
      offsetStore = (case NewOffsetStore bolt opened of Inl e \<Rightarrow> None | Inr db \<Rightarrow> Some db),
      txCoordinator = NewTransactionCoordinator left\<rparr>"

section \<open>Requests and responses\<close>

text \<open>\<open>r.ParseForm\<close> succeeds or not; \<open>r.Form.Get\<close> gives the empty string for a missing field.\<close>

record request =
  parsed :: bool
  form :: "string \<Rightarrow> string"

datatype ns_body =
    ErrBody string
  | RegisterBody int
  | TopicBody string int
  | TopicInfoBody string "(int, PartitionInfo) gomap"
  | BrokerListBody "(int \<times> string \<times> string) list"
  | PeersBody "string list"
  | RouteBody string int PartitionInfo
  | JoinBody string int string "int list" string
  | MemberBody string string
  | OffsetBody string string int int
  | TxBody string TxStatus
  | TxOkBody string
  | TxErrBody tc_error
  | OffsetErrBody offset_error

type_synonym response = "int \<times> ns_body"

definition form_error :: response where "form_error = (400, ErrBody ''failed to parse form'')"

section \<open>Brokers and topics\<close>

type_synonym broker_order = "(int \<times> BrokerInfo) list \<Rightarrow> (int \<times> BrokerInfo) list"

definition handleRegister :: "broker_order \<Rightarrow> time \<Rightarrow> request \<Rightarrow> 'db NameServer \<Rightarrow> response \<times> 'db NameServer" where
  "handleRegister ord now r n =
     (let addr = form r ''addr''; clientAddr = form r ''client_addr''; hostname = form r ''hostname''
      in if addr = [] \<or> clientAddr = [] then ((400, ErrBody ''addr and client_addr are required''), n)
         else case find (\<lambda>(k, broker). Address broker = addr) (ord (ns_brokers n)) of
                Some (k, broker) \<Rightarrow>
                  ((200, RegisterBody (BrokerID broker)),
                   n\<lparr>ns_brokers := put k (broker\<lparr>ClientAddr := clientAddr, Hostname := hostname, LastUpdate := now\<rparr>) (ns_brokers n)\<rparr>)
              | None \<Rightarrow>
                  let broker = \<lparr>BrokerID = nextID n, Address = addr, ClientAddr = clientAddr, Hostname = hostname,
                                Port = 0, LastUpdate = now\<rparr>
                  in ((200, RegisterBody (BrokerID broker)),
                      n\<lparr>nextID := nextID n + 1, ns_brokers := put (BrokerID broker) broker (ns_brokers n)\<rparr>))"

text \<open>\<open>now\<close> reads the clock for each broker.\<close>

definition getAvailableBrokers :: "broker_order \<Rightarrow> (int \<Rightarrow> time) \<Rightarrow> 'db NameServer \<Rightarrow> int list" where
  "getAvailableBrokers ord now n =
     map fst (filter (\<lambda>(k, broker). now k - LastUpdate broker < 30 * Second) (ord (ns_brokers n)))"

definition replica_addrs :: "'db NameServer \<Rightarrow> int list \<Rightarrow> nat \<Rightarrow> string list" where
  "replica_addrs n brokerIDs i =
     map (\<lambda>j. ClientAddr (the (map_of (ns_brokers n) (brokerIDs ! ((i + j) mod length brokerIDs)))))
       [0..<min 3 (length brokerIDs)]"

definition partition_info :: "'db NameServer \<Rightarrow> int list \<Rightarrow> nat \<Rightarrow> PartitionInfo" where
  "partition_info n brokerIDs i =
     (let replicas = replica_addrs n brokerIDs i
      in \<lparr>PartitionID = int i, pi_Leader = replicas ! 0, Replicas = replicas, ISR = replicas\<rparr>)"

text \<open>The field \<open>partitions\<close>, one if it is missing.\<close>

definition partitions_arg :: "request \<Rightarrow> int option" where
  "partitions_arg r =
     (if form r ''partitions'' = [] then Some 1
      else case atoi (form r ''partitions'') of None \<Rightarrow> None | Some k \<Rightarrow> if k < 1 then None else Some k)"

definition handleCreateTopic ::
    "broker_order \<Rightarrow> (int \<Rightarrow> time) \<Rightarrow> request \<Rightarrow> 'db NameServer \<Rightarrow> response \<times> 'db NameServer" where
  "handleCreateTopic ord now r n =
     (if \<not> parsed r then (form_error, n)
      else let topic = form r ''topic''
           in if topic = [] then ((400, ErrBody ''topic is required''), n)
              else case partitions_arg r of
                     None \<Rightarrow> ((400, ErrBody ''invalid partitions value''), n)
                   | Some parts \<Rightarrow>
                       if has (ns_topics n) topic then ((409, ErrBody ''topic already exists''), n)
                       else let brokerIDs = getAvailableBrokers ord now n
                            in if brokerIDs = [] then ((503, ErrBody ''no brokers available''), n)
                               else let info = \<lparr>ti_Topic = topic,
                                                Partitions = map (\<lambda>i. (int i, partition_info n brokerIDs i)) [0..<nat parts]\<rparr>
                                    in ((200, TopicBody topic parts), n\<lparr>ns_topics := put topic info (ns_topics n)\<rparr>))"

definition handleTopicInfo :: "request \<Rightarrow> 'db NameServer \<Rightarrow> response" where
  "handleTopicInfo r n =
     (if \<not> parsed r then form_error
      else let topic = form r ''topic''
           in if topic = [] then (400, ErrBody ''topic is required'')
              else case map_of (ns_topics n) topic of
                     None \<Rightarrow> (404, ErrBody ''topic not found'')
                   | Some info \<Rightarrow> (200, TopicInfoBody topic (Partitions info)))"

definition handleBrokerList :: "broker_order \<Rightarrow> 'db NameServer \<Rightarrow> response" where
  "handleBrokerList ord n =
     (200, BrokerListBody (map (\<lambda>(k, b). (BrokerID b, Address b, Hostname b)) (ord (ns_brokers n))))"

definition handleBrokerPeers :: "broker_order \<Rightarrow> 'db NameServer \<Rightarrow> response" where
  "handleBrokerPeers ord n = (200, PeersBody (map (\<lambda>(k, b). Address b) (ord (ns_brokers n))))"

section \<open>Routes\<close>

text \<open>\<open>int64\<close> arithmetic keeps the low 64 bits.\<close>

definition wrap64 :: "int \<Rightarrow> int" where
  "wrap64 i = to_s 64 (to_u 64 i)"

definition hashString :: "string \<Rightarrow> int" where
  "hashString s = foldl (\<lambda>h c. wrap64 (31 * h + of_char c)) 0 s"

definition route_partition :: "string \<Rightarrow> string \<Rightarrow> TopicInfo \<Rightarrow> int option" where
  "route_partition partitionStr key info =
     (if partitionStr \<noteq> [] then atoi partitionStr
      else if key \<noteq> []
      then let p = go_mod (hashString key) (int (length (Partitions info))) in Some (if p < 0 then - p else p)
      else Some 0)"

definition handleRoute :: "request \<Rightarrow> 'db NameServer \<Rightarrow> response" where
  "handleRoute r n =
     (if \<not> parsed r then form_error
      else let topic = form r ''topic''
           in if topic = [] then (400, ErrBody ''topic is required'')
              else case map_of (ns_topics n) topic of
                     None \<Rightarrow> (404, ErrBody ''topic not found'')
                   | Some info \<Rightarrow>
                       if Partitions info = [] then (500, ErrBody ''no partitions available'')
                       else case route_partition (form r ''partition'') (form r ''key'') info of
                              None \<Rightarrow> (400, ErrBody ''invalid partition'')
                            | Some p \<Rightarrow>
                                (case map_of (Partitions info) p of
                                   None \<Rightarrow> (500, ErrBody ''partition not found'')
                                 | Some pinfo \<Rightarrow> (200, RouteBody topic p pinfo)))"

definition GetTopicInfo :: "string \<Rightarrow> 'db NameServer \<Rightarrow> TopicInfo option" where
  "GetTopicInfo topic n = map_of (ns_topics n) topic"

definition GetBrokerInfo :: "int \<Rightarrow> 'db NameServer \<Rightarrow> BrokerInfo option" where
  "GetBrokerInfo k n = map_of (ns_brokers n) k"

section \<open>Consumer groups\<close>

definition new_group :: "string \<Rightarrow> string \<Rightarrow> TopicInfo \<Rightarrow> ConsumerGroup" where
  "new_group groupID topic info =
     \<lparr>GroupID = groupID, Members = [], cg_Topic = topic, cg_Partitions = sort (map fst (Partitions info)), Generation = 1\<rparr>"

text \<open>\<open>handleJoinGroup\<close> once the group is found or made.\<close>

definition join_member ::
    "string \<Rightarrow> string \<Rightarrow> string \<Rightarrow> time \<Rightarrow> ConsumerGroup \<Rightarrow> 'db NameServer \<Rightarrow> response \<times> 'db NameServer" where
  "join_member groupID clientID topic now grp n =
     (if cg_Topic grp \<noteq> topic then ((400, ErrBody ''group already subscribed to different topic''), n)
      else let member = (case map_of (Members grp) clientID of
                           None \<Rightarrow> \<lparr>ClientID = clientID, Heartbeat = now, Assignments = []\<rparr>
                         | Some m \<Rightarrow> m\<lparr>Heartbeat := now\<rparr>);
               grp1 = grp\<lparr>Members := put clientID member (Members grp)\<rparr>;
               groups = doRebalance groupID (put groupID grp1 (consumerGroups n));
               grp2 = the (map_of groups groupID);
               assignments = sort (map fst (Assignments (the (map_of (Members grp2) clientID))))
           in ((200, JoinBody groupID (Generation grp2) clientID assignments topic), n\<lparr>consumerGroups := groups\<rparr>))"

definition handleJoinGroup :: "time \<Rightarrow> request \<Rightarrow> 'db NameServer \<Rightarrow> response \<times> 'db NameServer" where
  "handleJoinGroup now r n =
     (if \<not> parsed r then (form_error, n)
      else let groupID = form r ''group_id''; clientID = form r ''client_id''; topic = form r ''topic''
           in if groupID = [] \<or> clientID = [] \<or> topic = []
              then ((400, ErrBody ''group_id, client_id, and topic are required''), n)
              else case map_of (consumerGroups n) groupID of
                     Some grp \<Rightarrow> join_member groupID clientID topic now grp n
                   | None \<Rightarrow>
                       (case map_of (ns_topics n) topic of
                          None \<Rightarrow> ((404, ErrBody ''topic not found''), n)
                        | Some info \<Rightarrow>
                            let grp = new_group groupID topic info
                            in join_member groupID clientID topic now grp
                                 (n\<lparr>consumerGroups := put groupID grp (consumerGroups n)\<rparr>)))"

definition handleHeartbeat :: "time \<Rightarrow> request \<Rightarrow> 'db NameServer \<Rightarrow> response \<times> 'db NameServer" where
  "handleHeartbeat now r n =
     (if \<not> parsed r then (form_error, n)
      else let groupID = form r ''group_id''; clientID = form r ''client_id''
           in if groupID = [] \<or> clientID = [] then ((400, ErrBody ''group_id and client_id are required''), n)
              else case map_of (consumerGroups n) groupID of
                     None \<Rightarrow> ((404, ErrBody ''consumer group not found''), n)
                   | Some grp \<Rightarrow>
                       (case map_of (Members grp) clientID of
                          None \<Rightarrow> ((404, ErrBody ''member not found in group''), n)
                        | Some m \<Rightarrow>
                            ((200, MemberBody groupID clientID),
                             n\<lparr>consumerGroups := put groupID
                                 (grp\<lparr>Members := put clientID (m\<lparr>Heartbeat := now\<rparr>) (Members grp)\<rparr>) (consumerGroups n)\<rparr>)))"

text \<open>What remains of a group without the clients \<open>gone\<close>: nothing if it was the last member, a rebalanced group otherwise.\<close>

definition without_members :: "string \<Rightarrow> string list \<Rightarrow> (string, ConsumerGroup) gomap \<Rightarrow> (string, ConsumerGroup) gomap" where
  "without_members groupID gone groups =
     (case map_of groups groupID of
        None \<Rightarrow> groups
      | Some grp \<Rightarrow>
          let grp1 = grp\<lparr>Members := foldl (\<lambda>ms c. del c ms) (Members grp) gone\<rparr>
          in if Members grp1 = [] then del groupID groups
             else doRebalance groupID (put groupID grp1 groups))"

definition handleLeaveGroup :: "request \<Rightarrow> 'db NameServer \<Rightarrow> response \<times> 'db NameServer" where
  "handleLeaveGroup r n =
     (if \<not> parsed r then (form_error, n)
      else let groupID = form r ''group_id''; clientID = form r ''client_id''
           in if groupID = [] \<or> clientID = [] then ((400, ErrBody ''group_id and client_id are required''), n)
              else if \<not> has (consumerGroups n) groupID then ((404, ErrBody ''consumer group not found''), n)
              else ((200, MemberBody groupID clientID),
                    n\<lparr>consumerGroups := without_members groupID [clientID] (consumerGroups n)\<rparr>))"

text \<open>One pulse of \<open>startHeartbeatChecker\<close>; \<open>now g c\<close> is the reading of the clock for member \<open>c\<close> of group \<open>g\<close>.\<close>

definition deadMembers :: "(string \<Rightarrow> string \<Rightarrow> time) \<Rightarrow> 'db NameServer \<Rightarrow> (string, string list) gomap" where
  "deadMembers now n =
     filter (\<lambda>(g, clients). clients \<noteq> [])
       (map (\<lambda>(g, grp). (g, map fst (filter (\<lambda>(c, m). 30 * Second < now g c - Heartbeat m) (Members grp)))) (consumerGroups n))"

definition heartbeatTick ::
    "((string \<times> string list) list \<Rightarrow> (string \<times> string list) list) \<Rightarrow> (string \<Rightarrow> string \<Rightarrow> time) \<Rightarrow>
     'db NameServer \<Rightarrow> 'db NameServer" where
  "heartbeatTick ord now n =
     n\<lparr>consumerGroups := foldl (\<lambda>groups (g, clients). without_members g clients groups) (consumerGroups n)
                            (ord (deadMembers now n))\<rparr>"

section \<open>Offsets\<close>

definition handleCommitOffset :: "'db bolt \<Rightarrow> request \<Rightarrow> 'db NameServer \<Rightarrow> response \<times> 'db NameServer" where
  "handleCommitOffset bolt r n =
     (if \<not> parsed r then (form_error, n)
      else let groupID = form r ''group_id''; topic = form r ''topic'';
               partitionStr = form r ''partition''; offsetStr = form r ''offset''
           in if groupID = [] \<or> topic = [] \<or> partitionStr = [] \<or> offsetStr = []
              then ((400, ErrBody ''group_id, topic, partition, and offset are required''), n)
              else case atoi partitionStr of
                     None \<Rightarrow> ((400, ErrBody ''invalid partition''), n)
                   | Some part \<Rightarrow>
                       (case atoi offsetStr of
                          None \<Rightarrow> ((400, ErrBody ''invalid offset''), n)
                        | Some off \<Rightarrow>
                            (case offsetStore n of
                               None \<Rightarrow> ((200, OffsetBody groupID topic part off), n)
                             | Some db \<Rightarrow>
                                 (case PutOffset bolt groupID topic part off db of
                                    (Inl e, db') \<Rightarrow> ((500, OffsetErrBody e), n\<lparr>offsetStore := Some db'\<rparr>)
                                  | (Inr u, db') \<Rightarrow> ((200, OffsetBody groupID topic part off), n\<lparr>offsetStore := Some db'\<rparr>)))))"

definition handleGetOffset :: "'db bolt \<Rightarrow> request \<Rightarrow> 'db NameServer \<Rightarrow> response go" where
  "handleGetOffset bolt r n =
     (if \<not> parsed r then Ret form_error
      else let groupID = form r ''group_id''; topic = form r ''topic''; partitionStr = form r ''partition''
           in if groupID = [] \<or> topic = [] \<or> partitionStr = []
              then Ret (400, ErrBody ''group_id, topic, and partition are required'')
              else case atoi partitionStr of
                     None \<Rightarrow> Ret (400, ErrBody ''invalid partition'')
                   | Some part \<Rightarrow>
                       (case offsetStore n of
                          None \<Rightarrow> Ret (200, OffsetBody groupID topic part 0)
                        | Some db \<Rightarrow>
                            go_bind (os_GetOffset bolt groupID topic part db)
                              (\<lambda>res. case res of
                                       Inl e \<Rightarrow> Ret (500, OffsetErrBody e)
                                     | Inr off \<Rightarrow> Ret (200, OffsetBody groupID topic part off))))"

section \<open>Transactions\<close>

definition handleBeginTx ::
    "tx_order \<Rightarrow> log_io \<Rightarrow> time \<Rightarrow> time \<Rightarrow> time \<Rightarrow> time \<Rightarrow> request \<Rightarrow> 'db NameServer \<Rightarrow> response \<times> 'db NameServer" where
  "handleBeginTx ord io n1 n2 n3 n4 r n =
     (if \<not> parsed r then (form_error, n)
      else let producerID = form r ''producer_id''
           in if producerID = [] then ((400, ErrBody ''producer_id is required''), n)
              else let (txID, tc) = BeginTx ord io producerID n1 n2 n3 n4 (txCoordinator n)
                   in ((200, TxBody txID TxPending), n\<lparr>txCoordinator := tc\<rparr>))"

definition tx_response :: "ns_body \<Rightarrow> tc_error + unit \<Rightarrow> response" where
  "tx_response body res = (case res of Inl e \<Rightarrow> (500, TxErrBody e) | Inr u \<Rightarrow> (200, body))"

definition handleAddMessage :: "tx_order \<Rightarrow> log_io \<Rightarrow> time \<Rightarrow> request \<Rightarrow> 'db NameServer \<Rightarrow> response \<times> 'db NameServer" where
  "handleAddMessage ord io now r n =
     (if \<not> parsed r then (form_error, n)
      else let txID = form r ''tx_id''; topic = form r ''topic''; partitionStr = form r ''partition'';
               key = form r ''key''; val = form r ''value''
           in if txID = [] \<or> topic = [] \<or> partitionStr = [] \<or> val = []
              then ((400, ErrBody ''tx_id, topic, partition, and value are required''), n)
              else case atoi partitionStr of
                     None \<Rightarrow> ((400, ErrBody ''invalid partition''), n)
                   | Some part \<Rightarrow>
                       let (res, tc) = tc_AddMessage ord io txID topic part key (bytes_of val) now (txCoordinator n)
                       in (tx_response (TxOkBody txID) res, n\<lparr>txCoordinator := tc\<rparr>))"

definition handleCommitTx ::
    "tx_order \<Rightarrow> log_io \<Rightarrow> log_io \<Rightarrow> time \<Rightarrow> time \<Rightarrow> request \<Rightarrow> 'db NameServer \<Rightarrow> response \<times> 'db NameServer" where
  "handleCommitTx ord io1 io2 n1 n2 r n =
     (if \<not> parsed r then (form_error, n)
      else let txID = form r ''tx_id''
           in if txID = [] then ((400, ErrBody ''tx_id is required''), n)
              else let (res, tc) = CommitTx ord io1 io2 txID n1 n2 (txCoordinator n)
                   in (tx_response (TxBody txID TxCommitted) res, n\<lparr>txCoordinator := tc\<rparr>))"

definition handleRollbackTx :: "tx_order \<Rightarrow> log_io \<Rightarrow> time \<Rightarrow> request \<Rightarrow> 'db NameServer \<Rightarrow> response \<times> 'db NameServer" where
  "handleRollbackTx ord io now r n =
     (if \<not> parsed r then (form_error, n)
      else let txID = form r ''tx_id''
           in if txID = [] then ((400, ErrBody ''tx_id is required''), n)
              else let (res, tc) = RollbackTx ord io txID now (txCoordinator n)
                   in (tx_response (TxBody txID TxAborted) res, n\<lparr>txCoordinator := tc\<rparr>))"

definition handleTxStatus :: "request \<Rightarrow> 'db NameServer \<Rightarrow> response" where
  "handleTxStatus r n =
     (if \<not> parsed r then form_error
      else let txID = form r ''tx_id''
           in if txID = [] then (400, ErrBody ''tx_id is required'')
              else case GetTxStatus txID (txCoordinator n) of
                     Inl e \<Rightarrow> (500, TxErrBody e)
                   | Inr st \<Rightarrow> (200, TxBody txID st))"

section \<open>The invariant\<close>

definition brokers_inv :: "int \<Rightarrow> (int, BrokerInfo) gomap \<Rightarrow> bool" where
  "brokers_inv next bs \<longleftrightarrow> gm_ok bs \<and> (\<forall>k b. map_of bs k = Some b \<longrightarrow> BrokerID b = k \<and> k < next)
     \<and> (\<forall>k b k' b'. map_of bs k = Some b \<longrightarrow> map_of bs k' = Some b' \<longrightarrow> Address b = Address b' \<longrightarrow> k = k')"

definition partition_ok :: "int \<Rightarrow> PartitionInfo \<Rightarrow> bool" where
  "partition_ok p pinfo \<longleftrightarrow> PartitionID pinfo = p \<and> Replicas pinfo \<noteq> [] \<and> pi_Leader pinfo = hd (Replicas pinfo)
     \<and> ISR pinfo = Replicas pinfo \<and> length (Replicas pinfo) \<le> 3"

definition topic_ok :: "string \<Rightarrow> TopicInfo \<Rightarrow> bool" where
  "topic_ok t info \<longleftrightarrow> ti_Topic info = t \<and> Partitions info \<noteq> []
     \<and> map fst (Partitions info) = map int [0..<length (Partitions info)]
     \<and> (\<forall>(p, pinfo) \<in> set (Partitions info). partition_ok p pinfo)"

definition topics_inv :: "(string, TopicInfo) gomap \<Rightarrow> bool" where
  "topics_inv ts \<longleftrightarrow> gm_ok ts \<and> (\<forall>t info. map_of ts t = Some info \<longrightarrow> topic_ok t info)"

text \<open>A group has the partitions of its topic.\<close>

definition subscribed :: "(string, TopicInfo) gomap \<Rightarrow> string \<Rightarrow> ConsumerGroup \<Rightarrow> bool" where
  "subscribed ts g grp \<longleftrightarrow> GroupID grp = g \<and>
     (\<exists>info. map_of ts (cg_Topic grp) = Some info \<and> cg_Partitions grp = sort (map fst (Partitions info)))"

definition groups_inv :: "(string, TopicInfo) gomap \<Rightarrow> (string, ConsumerGroup) gomap \<Rightarrow> bool" where
  "groups_inv ts gs \<longleftrightarrow> gm_ok gs \<and> (\<forall>g grp. map_of gs g = Some grp \<longrightarrow> group_ok grp \<and> subscribed ts g grp)"

definition nsv_inv :: "'db NameServer \<Rightarrow> bool" where
  "nsv_inv n \<longleftrightarrow> brokers_inv (nextID n) (ns_brokers n) \<and> topics_inv (ns_topics n) \<and> groups_inv (ns_topics n) (consumerGroups n)"

lemma nsv_inv_New: "nsv_inv (NewNameServer bolt opened left addr port)"
  by (simp add: nsv_inv_def NewNameServer_def brokers_inv_def topics_inv_def groups_inv_def)

lemma subscribed_distinct: "topics_inv ts \<Longrightarrow> subscribed ts g grp \<Longrightarrow> distinct (cg_Partitions grp)"
  by (auto simp: subscribed_def topics_inv_def topic_ok_def distinct_map inj_on_def)

lemma subscribed_members [simp]: "subscribed ts g (grp\<lparr>Members := ms\<rparr>) = subscribed ts g grp"
  by (simp add: subscribed_def)

lemma groups_inv_rebalance:
  assumes "topics_inv ts" and "groups_inv ts gs" and "subscribed ts g grp" and "gm_ok (Members grp)" and "Members grp \<noteq> []"
  shows "groups_inv ts (doRebalance g (put g grp gs))"
proof -
  have "group_ok (rebalance grp)"
    using assms subscribed_distinct [OF assms(1,3)] by (intro rebalance_ok) simp_all
  moreover have "subscribed ts g (rebalance grp)" using assms(3) by (simp add: subscribed_def)
  ultimately show ?thesis using assms(2) by (simp add: groups_inv_def doRebalance_def)
qed

lemma gm_ok_foldl_del: "gm_ok ms \<Longrightarrow> gm_ok (foldl (\<lambda>ms c. del c ms) ms cs)"
  by (induction cs arbitrary: ms) simp_all

lemma groups_inv_without:
  assumes "topics_inv ts" and "groups_inv ts gs"
  shows "groups_inv ts (without_members g gone gs)"
proof (cases "map_of gs g")
  case None
  then show ?thesis using assms(2) by (simp add: without_members_def)
next
  case (Some grp)
  let ?grp = "grp\<lparr>Members := foldl (\<lambda>ms c. del c ms) (Members grp) gone\<rparr>"
  have grp: "subscribed ts g grp" "gm_ok (Members grp)" using assms(2) Some by (auto simp: groups_inv_def group_ok_def)
  have "groups_inv ts (del g gs)" using assms(2) by (auto simp: groups_inv_def split: if_splits)
  moreover have "groups_inv ts (doRebalance g (put g ?grp gs))" if "Members ?grp \<noteq> []"
    using assms grp that by (intro groups_inv_rebalance) (simp_all add: gm_ok_foldl_del)
  ultimately show ?thesis using Some by (simp add: without_members_def)
qed

lemma groups_inv_withouts:
  "topics_inv ts \<Longrightarrow> groups_inv ts gs \<Longrightarrow>
   groups_inv ts (foldl (\<lambda>groups (g, clients). without_members g clients groups) gs xs)"
  by (induction xs arbitrary: gs) (auto simp: groups_inv_without)

lemma join_member_inv:
  assumes "topics_inv (ns_topics n)" and "groups_inv (ns_topics n) gs" and "subscribed (ns_topics n) g grp" and "gm_ok (Members grp)"
    and "consumerGroups n = gs \<or> consumerGroups n = put g grp gs" and "cg_Topic grp = topic"
  shows "groups_inv (ns_topics n) (consumerGroups (snd (join_member g c topic now grp n)))"
proof -
  define m where "m = (case map_of (Members grp) c of None \<Rightarrow> \<lparr>ClientID = c, Heartbeat = now, Assignments = []\<rparr>
                       | Some m \<Rightarrow> m\<lparr>Heartbeat := now\<rparr>)"
  let ?grp = "grp\<lparr>Members := put c m (Members grp)\<rparr>"
  have ne: "put c m (Members grp) \<noteq> []" by (cases "Members grp") auto
  have put2: "put g ?grp (put g grp gs) = put g ?grp gs" by (simp add: update_last)
  have "groups_inv (ns_topics n) (doRebalance g (put g ?grp gs))"
    using assms ne by (intro groups_inv_rebalance) simp_all
  moreover have "consumerGroups (snd (join_member g c topic now grp n)) = doRebalance g (put g ?grp (consumerGroups n))"
    using assms(6) by (simp add: join_member_def m_def Let_def)
  ultimately show ?thesis using assms(5) put2 by metis
qed

lemma handleJoinGroup_inv: "nsv_inv n \<Longrightarrow> nsv_inv (snd (handleJoinGroup now r n))"
proof -
  assume inv: "nsv_inv n"
  let ?g = "form r ''group_id''" and ?c = "form r ''client_id''" and ?t = "form r ''topic''"
  have frame: "ns_topics (snd (join_member g c t now grp m)) = ns_topics m \<and> ns_brokers (snd (join_member g c t now grp m)) = ns_brokers m
      \<and> nextID (snd (join_member g c t now grp m)) = nextID m" for g c t grp and m :: "'a NameServer"
    by (simp add: join_member_def Let_def)
  have old: "nsv_inv (snd (join_member ?g ?c ?t now grp n))" if "map_of (consumerGroups n) ?g = Some grp" for grp
  proof (cases "cg_Topic grp = ?t")
    case True
    have "groups_inv (ns_topics n) (consumerGroups (snd (join_member ?g ?c ?t now grp n)))"
      by (rule join_member_inv) (use inv that True in \<open>auto simp: nsv_inv_def groups_inv_def group_ok_def\<close>)
    with inv frame [of ?g ?c ?t grp n] show ?thesis by (simp add: nsv_inv_def)
  qed (simp add: join_member_def inv)
  have new: "nsv_inv (snd (join_member ?g ?c ?t now (new_group ?g ?t info)
      (n\<lparr>consumerGroups := put ?g (new_group ?g ?t info) (consumerGroups n)\<rparr>)))" if "map_of (ns_topics n) ?t = Some info" for info
  proof -
    let ?n = "n\<lparr>consumerGroups := put ?g (new_group ?g ?t info) (consumerGroups n)\<rparr>"
    have "groups_inv (ns_topics ?n) (consumerGroups (snd (join_member ?g ?c ?t now (new_group ?g ?t info) ?n)))"
      by (rule join_member_inv [where gs = "consumerGroups n"])
        (use inv that in \<open>auto simp: nsv_inv_def new_group_def subscribed_def\<close>)
    with inv frame [of ?g ?c ?t "new_group ?g ?t info" ?n] show ?thesis by (simp add: nsv_inv_def)
  qed
  show ?thesis using inv old new by (auto simp: handleJoinGroup_def Let_def split: option.split)
qed

lemma group_ok_heartbeat:
  assumes "group_ok grp" and "map_of (Members grp) c = Some m"
  shows "group_ok (grp\<lparr>Members := put c (m\<lparr>Heartbeat := now\<rparr>) (Members grp)\<rparr>)"
proof -
  let ?ms = "put c (m\<lparr>Heartbeat := now\<rparr>) (Members grp)"
  have c: "c \<in> fst ` set (Members grp)" using assms(2) by (metis map_of_eq_None_iff option.distinct(1))
  then have keys: "map fst ?ms = map fst (Members grp)" by (simp add: update_keys)
  then have len: "length ?ms = length (Members grp)" by (metis length_map)
  have "?ms \<noteq> []" using len assms(1) by (metis group_ok_def length_0_conv)
  moreover have "dealt (grp\<lparr>Members := ?ms\<rparr>)"
    using assms by (auto simp: group_ok_def dealt_def keys len)
  ultimately show ?thesis using assms(1) keys by (simp add: group_ok_def)
qed

lemma groups_inv_put: "groups_inv ts gs \<Longrightarrow> group_ok grp \<Longrightarrow> subscribed ts g grp \<Longrightarrow> groups_inv ts (put g grp gs)"
  unfolding groups_inv_def using map_of_put [of g grp gs] by (metis fun_upd_apply gm_ok_put option.inject)

lemma groups_inv_lookup: "groups_inv ts gs \<Longrightarrow> map_of gs g = Some grp \<Longrightarrow> group_ok grp \<and> subscribed ts g grp"
  unfolding groups_inv_def by blast

lemma handleHeartbeat_inv: "nsv_inv n \<Longrightarrow> nsv_inv (snd (handleHeartbeat now r n))"
proof -
  assume inv: "nsv_inv n"
  have "nsv_inv (n\<lparr>consumerGroups := put g (grp\<lparr>Members := put c (m\<lparr>Heartbeat := now\<rparr>) (Members grp)\<rparr>) (consumerGroups n)\<rparr>)"
    if "map_of (consumerGroups n) g = Some grp" "map_of (Members grp) c = Some m" for g grp c m
  proof -
    have "group_ok grp \<and> subscribed (ns_topics n) g grp" using inv that(1) groups_inv_lookup by (auto simp: nsv_inv_def)
    then show ?thesis using inv that(2) by (simp add: nsv_inv_def groups_inv_put group_ok_heartbeat)
  qed
  with inv show ?thesis by (simp add: handleHeartbeat_def Let_def split: option.split)
qed

lemma handleLeaveGroup_inv: "nsv_inv n \<Longrightarrow> nsv_inv (snd (handleLeaveGroup r n))"
  by (auto simp: handleLeaveGroup_def Let_def nsv_inv_def groups_inv_without)

lemma heartbeatTick_inv: "nsv_inv n \<Longrightarrow> nsv_inv (heartbeatTick ord now n)"
  by (simp add: heartbeatTick_def nsv_inv_def groups_inv_withouts)

lemma find_ord_Some:
  "range_order ord \<Longrightarrow> gm_ok m \<Longrightarrow> find P (ord m) = Some (k, v) \<Longrightarrow> map_of m k = Some v \<and> P (k, v)"
  using find_Some_iff [of P "ord m" "(k, v)"] range_order_set [of ord m] by (metis map_of_is_SomeI nth_mem)

lemma find_ord_None:
  "range_order ord \<Longrightarrow> find P (ord m) = None \<Longrightarrow> map_of m k = Some v \<Longrightarrow> \<not> P (k, v)"
  using range_order_set [of ord m] map_of_SomeD [of m k v] by (auto simp: find_None_iff)

lemma handleRegister_inv:
  assumes "nsv_inv n" and "range_order ord"
  shows "nsv_inv (snd (handleRegister ord now r n))"
proof -
  let ?a = "form r ''addr''" and ?find = "find (\<lambda>(k, broker). Address broker = form r ''addr'') (ord (ns_brokers n))"
  have inv: "brokers_inv (nextID n) (ns_brokers n)" using assms(1) by (simp add: nsv_inv_def)
  then have ok: "gm_ok (ns_brokers n)" by (simp add: brokers_inv_def)
  have "brokers_inv (nextID n) (put k (b\<lparr>ClientAddr := ca, Hostname := h, LastUpdate := now\<rparr>) (ns_brokers n))"
    if "?find = Some (k, b)" for k b ca h
    using inv find_ord_Some [OF assms(2) ok that] by (auto simp: brokers_inv_def split: if_splits)
  moreover have "brokers_inv (nextID n + 1) (put (nextID n) b (ns_brokers n))"
    if "?find = None" "BrokerID b = nextID n" "Address b = ?a" for b
    using inv find_ord_None [OF assms(2) that(1)] that(2,3) by (fastforce simp: brokers_inv_def split: if_splits)
  ultimately show ?thesis using assms(1)
    by (auto simp: handleRegister_def Let_def nsv_inv_def split: option.split)
qed

lemma length_replica_addrs [simp]: "length (replica_addrs n ids i) = min 3 (length ids)"
  by (simp add: replica_addrs_def)

lemma partition_info_ok: "ids \<noteq> [] \<Longrightarrow> partition_ok (int i) (partition_info n ids i)"
  by (auto simp: partition_ok_def partition_info_def Let_def hd_conv_nth length_replica_addrs
      simp flip: length_greater_0_conv)

lemma partitions_arg_pos: "partitions_arg r = Some k \<Longrightarrow> 1 \<le> k"
  by (auto simp: partitions_arg_def split: if_splits option.splits)

lemma subscribed_new_topic: "map_of ts t = None \<Longrightarrow> subscribed ts g grp \<Longrightarrow> subscribed (put t info ts) g grp"
  by (auto simp: subscribed_def)

lemma handleCreateTopic_inv:
  assumes "nsv_inv n"
  shows "nsv_inv (snd (handleCreateTopic ord now r n))"
proof -
  let ?ids = "getAvailableBrokers ord now n" and ?t = "form r ''topic''"
  have "nsv_inv (n\<lparr>ns_topics := put ?t \<lparr>ti_Topic = ?t,
      Partitions = map (\<lambda>i. (int i, partition_info n ?ids i)) [0..<nat k]\<rparr> (ns_topics n)\<rparr>)" (is "nsv_inv (n\<lparr>ns_topics := put ?t ?info _\<rparr>)")
    if "map_of (ns_topics n) ?t = None" "?ids \<noteq> []" "1 \<le> k" for k
  proof -
    have "topic_ok ?t ?info" using that(2,3) by (auto simp: topic_ok_def partition_info_ok comp_def)
    then have "topics_inv (put ?t ?info (ns_topics n))" using assms by (auto simp: nsv_inv_def topics_inv_def)
    moreover have "groups_inv (put ?t ?info (ns_topics n)) (consumerGroups n)"
      using assms subscribed_new_topic [OF that(1)] by (auto simp: nsv_inv_def groups_inv_def)
    ultimately show ?thesis using assms by (simp add: nsv_inv_def)
  qed
  then show ?thesis using assms partitions_arg_pos [of r]
    by (auto simp: handleCreateTopic_def Let_def split: option.split)
qed

section \<open>Runs\<close>

datatype nsv_op =
    NsRegister broker_order time request
  | NsCreateTopic broker_order "int \<Rightarrow> time" request
  | NsJoin time request
  | NsHeartbeat time request
  | NsLeave request
  | NsCommitOffset request
  | NsBeginTx tx_order log_io time time time time request
  | NsAddMessage tx_order log_io time request
  | NsCommitTx tx_order log_io log_io time time request
  | NsRollbackTx tx_order log_io time request
  | NsTxTick tx_order "string \<Rightarrow> log_io" time
  | NsHeartbeatTick "(string \<times> string list) list \<Rightarrow> (string \<times> string list) list" "string \<Rightarrow> string \<Rightarrow> time"

fun nsv_step :: "'db bolt \<Rightarrow> 'db NameServer \<Rightarrow> nsv_op \<Rightarrow> 'db NameServer" where
  "nsv_step bolt n (NsRegister ord now r) = snd (handleRegister ord now r n)"
| "nsv_step bolt n (NsCreateTopic ord now r) = snd (handleCreateTopic ord now r n)"
| "nsv_step bolt n (NsJoin now r) = snd (handleJoinGroup now r n)"
| "nsv_step bolt n (NsHeartbeat now r) = snd (handleHeartbeat now r n)"
| "nsv_step bolt n (NsLeave r) = snd (handleLeaveGroup r n)"
| "nsv_step bolt n (NsCommitOffset r) = snd (handleCommitOffset bolt r n)"
| "nsv_step bolt n (NsBeginTx ord io n1 n2 n3 n4 r) = snd (handleBeginTx ord io n1 n2 n3 n4 r n)"
| "nsv_step bolt n (NsAddMessage ord io now r) = snd (handleAddMessage ord io now r n)"
| "nsv_step bolt n (NsCommitTx ord io1 io2 n1 n2 r) = snd (handleCommitTx ord io1 io2 n1 n2 r n)"
| "nsv_step bolt n (NsRollbackTx ord io now r) = snd (handleRollbackTx ord io now r n)"
| "nsv_step bolt n (NsTxTick ord io now) = n\<lparr>txCoordinator := timeoutTick ord io now (txCoordinator n)\<rparr>"
| "nsv_step bolt n (NsHeartbeatTick ord now) = heartbeatTick ord now n"

fun nsv_ok :: "nsv_op \<Rightarrow> bool" where
  "nsv_ok (NsRegister ord now r) \<longleftrightarrow> range_order ord"
| "nsv_ok _ \<longleftrightarrow> True"

lemma nsv_inv_tx [simp]: "nsv_inv (n\<lparr>txCoordinator := tc\<rparr>) = nsv_inv n" "nsv_inv (n\<lparr>offsetStore := db\<rparr>) = nsv_inv n"
  by (simp_all add: nsv_inv_def)

lemma nsv_inv_step: "nsv_inv n \<Longrightarrow> nsv_ok a \<Longrightarrow> nsv_inv (nsv_step bolt n a)"
  by (cases a)
    (auto simp: handleRegister_inv handleCreateTopic_inv handleJoinGroup_inv handleHeartbeat_inv handleLeaveGroup_inv
      heartbeatTick_inv handleCommitOffset_def handleBeginTx_def handleAddMessage_def handleCommitTx_def handleRollbackTx_def
      Let_def split: option.split sum.split prod.split)

interpretation nsvm: machine "nsv_step bolt" nsv_inv nsv_ok for bolt
  by unfold_locales (rule nsv_inv_step)

lemma nsv_run_inv:
  "list_all nsv_ok ops \<Longrightarrow> n = foldl (nsv_step bolt) (NewNameServer bolt opened left addr port) ops \<Longrightarrow> nsv_inv n"
  using nsvm.inv_run [OF nsv_inv_New] by simp

section \<open>Hashing\<close>

text \<open>The polynomial in 31 whose low 64 bits the loop computes.\<close>

fun hash_poly :: "string \<Rightarrow> int" where
  "hash_poly [] = 0"
| "hash_poly (c # s) = of_char c * 31 ^ length s + hash_poly s"

lemma wrap64_cong: "wrap64 x = wrap64 y \<longleftrightarrow> x mod 2 ^ 64 = y mod 2 ^ 64"
proof
  assume "wrap64 x = wrap64 y"
  moreover have "wrap64 z mod 2 ^ 64 = z mod 2 ^ 64" for z
    by (auto simp: wrap64_def to_s_def to_u_def Let_def)
  ultimately show "x mod 2 ^ 64 = y mod 2 ^ 64" by metis
qed (simp add: wrap64_def to_u_def)

lemma wrap64_mod: "wrap64 x mod 2 ^ 64 = x mod 2 ^ 64"
  by (auto simp: wrap64_def to_s_def to_u_def Let_def)

lemma wrap64_step: "wrap64 (31 * wrap64 h + c) = wrap64 (31 * h + c)"
  unfolding wrap64_cong by (metis mod_add_left_eq mod_mult_right_eq wrap64_mod)

lemma hash_loop: "foldl (\<lambda>h c. wrap64 (31 * h + of_char c)) (wrap64 h) s = wrap64 (h * 31 ^ length s + hash_poly s)"
proof (induction s arbitrary: h)
  case (Cons c s)
  have "foldl (\<lambda>h c. wrap64 (31 * h + of_char c)) (wrap64 (31 * h + of_char c)) s
      = wrap64 ((31 * h + of_char c) * 31 ^ length s + hash_poly s)" by (rule Cons)
  also have "(31 * h + of_char c) * 31 ^ length s + hash_poly s = h * 31 ^ length (c # s) + hash_poly (c # s)"
    by (simp add: algebra_simps)
  finally show ?case by (simp add: wrap64_step)
qed simp

lemma hashString_poly: "hashString s = wrap64 (hash_poly s)"
  using hash_loop [of 0 s] by (simp add: hashString_def wrap64_def to_s_def to_u_def)

lemma abs_go_mod: "0 < n \<Longrightarrow> \<bar>go_mod a n\<bar> = \<bar>a\<bar> mod n"
  by (cases "0 \<le> a") (simp_all add: go_mod_neg)

section \<open>Heartbeats\<close>

lemma without_members_other: "h \<noteq> g \<Longrightarrow> map_of (without_members g gone gs) h = map_of gs h"
  by (simp add: without_members_def doRebalance_def Let_def split: option.split)

lemma without_members_fold_other:
  "h \<notin> fst ` set xs \<Longrightarrow>
   map_of (foldl (\<lambda>groups (g, clients). without_members g clients groups) gs xs) h = map_of gs h"
proof (induction xs arbitrary: gs)
  case (Cons a xs)
  then show ?case by (cases a) (simp add: without_members_other)
qed simp

lemma without_members_fold:
  assumes "gm_ok xs" and "(h, gone) \<in> set xs"
  shows "map_of (foldl (\<lambda>groups (g, clients). without_members g clients groups) gs xs) h
    = map_of (without_members h gone gs) h"
  using assms
proof (induction xs arbitrary: gs)
  case (Cons a xs)
  obtain g cs where a: "a = (g, cs)" by (cases a)
  show ?case
  proof (cases "g = h")
    case True
    then have "h \<notin> fst ` set xs" "gone = cs" using Cons.prems by (force simp: a)+
    then show ?thesis using True by (simp add: a without_members_fold_other)
  next
    case False
    have "map_of (without_members h gone (without_members g cs gs)) h = map_of (without_members h gone gs) h"
      using False without_members_other [of h g cs gs]
      by (simp add: without_members_def [of h] doRebalance_def Let_def split: option.split)
    moreover have "(h, gone) \<in> set xs" "gm_ok xs" using Cons.prems False by (auto simp: a)
    ultimately show ?thesis using Cons.IH [of "without_members g cs gs"] by (simp add: a)
  qed
qed simp

lemma foldl_del_filter: "foldl (\<lambda>ms c. del c ms) ms cs = filter (\<lambda>(c, m). c \<notin> set cs) ms"
proof (induction cs arbitrary: ms)
  case (Cons c cs)
  have "del c ms = filter (\<lambda>(d, m). d \<noteq> c) ms" by (induction ms) (auto simp: delete_simps)
  with Cons show ?case by (auto intro: filter_cong)
qed (simp add: case_prod_beta)

definition alive :: "(string \<Rightarrow> string \<Rightarrow> time) \<Rightarrow> string \<Rightarrow> ConsumerGroup \<Rightarrow> string list" where
  "alive now g grp = map fst (filter (\<lambda>(c, m). now g c - Heartbeat m \<le> 30 * Second) (Members grp))"

lemma keys_without_dead:
  assumes "gm_ok (Members grp)"
  shows "map fst (foldl (\<lambda>ms c. del c ms) (Members grp)
           (map fst (filter (\<lambda>(c, m). 30 * Second < now g c - Heartbeat m) (Members grp)))) = alive now g grp"
proof -
  have "c \<notin> set (map fst (filter (\<lambda>(c, m). 30 * Second < now g c - Heartbeat m) (Members grp)))
      \<longleftrightarrow> now g c - Heartbeat m \<le> 30 * Second" if "(c, m) \<in> set (Members grp)" for c m
    using that assms by (force simp: not_less dest: eq_key_imp_eq_value)
  then show ?thesis unfolding foldl_del_filter alive_def by (intro arg_cong [where f = "map fst"] filter_cong) auto
qed

lemma heartbeatTick_group:
  assumes "nsv_inv n" and "range_order ord" and "map_of (consumerGroups n) g = Some grp"
  shows "case map_of (consumerGroups (heartbeatTick ord now n)) g of
           None \<Rightarrow> alive now g grp = []
         | Some grp' \<Rightarrow> map fst (Members grp') = alive now g grp \<and> alive now g grp \<noteq> []"
proof -
  let ?dead = "map fst (filter (\<lambda>(c, m). 30 * Second < now g c - Heartbeat m) (Members grp))"
  let ?xs = "ord (deadMembers now n)"
  have gi: "groups_inv (ns_topics n) (consumerGroups n)" using assms(1) by (simp add: nsv_inv_def)
  have gs: "gm_ok (consumerGroups n)" using gi by (simp add: groups_inv_def)
  have grp: "group_ok grp" using groups_inv_lookup [OF gi assms(3)] by simp
  have members: "gm_ok (Members grp)" "Members grp \<noteq> []" using grp by (simp_all add: group_ok_def)
  have mem: "(g, grp) \<in> set (consumerGroups n)" using assms(3) by (rule map_of_SomeD)
  have dm: "gm_ok (deadMembers now n)" using gs unfolding deadMembers_def by (intro distinct_map_filter) (simp add: comp_def case_prod_beta)
  have xs: "gm_ok ?xs" "set ?xs = set (deadMembers now n)"
    using range_order_map_fst [OF assms(2) dm] range_order_set [OF assms(2)] by simp_all
  show ?thesis
  proof (cases "?dead = []")
    case True
    have "(g, cs) \<notin> set (deadMembers now n)" for cs
      using True gs mem by (auto simp: deadMembers_def dest: eq_key_imp_eq_value)
    then have "g \<notin> fst ` set ?xs" unfolding xs(2) by auto
    then have "map_of (consumerGroups (heartbeatTick ord now n)) g = Some grp"
      using assms(3) by (simp add: heartbeatTick_def without_members_fold_other)
    moreover have "\<forall>(c, m) \<in> set (Members grp). now g c - Heartbeat m \<le> 30 * Second"
      using True by (auto simp: filter_empty_conv not_less)
    then have "alive now g grp = map fst (Members grp)" by (simp add: alive_def case_prod_beta)
    ultimately show ?thesis using members(2) by simp
  next
    case False
    moreover have "(g, ?dead) \<in> (\<lambda>(g, grp). (g, map fst (filter (\<lambda>(c, m). 30 * Second < now g c - Heartbeat m) (Members grp))))
        ` set (consumerGroups n)"
      using mem by (rule rev_image_eqI) simp
    ultimately have "(g, ?dead) \<in> set (deadMembers now n)" unfolding deadMembers_def by simp
    then have "(g, ?dead) \<in> set ?xs" unfolding xs(2) .
    from without_members_fold [OF xs(1) this]
    have "map_of (consumerGroups (heartbeatTick ord now n)) g = map_of (without_members g ?dead (consumerGroups n)) g"
      by (simp add: heartbeatTick_def)
    moreover note keys_without_dead [OF members(1), of now g]
    ultimately show ?thesis using assms(3)
      by (auto simp: without_members_def doRebalance_def Let_def)
  qed
qed

section \<open>Properties\<close>

definition demo_form :: "(string \<times> string) list \<Rightarrow> request" where
  "demo_form kvs = \<lparr>parsed = True, form = (\<lambda>k. case map_of kvs k of None \<Rightarrow> [] | Some v \<Rightarrow> v)\<rparr>"

definition demo_ops :: "nsv_op list" where
  "demo_ops = [NsRegister id 1 (demo_form [(''addr'', ''h:1''), (''client_addr'', ''h:2'')]),
     NsCreateTopic id (\<lambda>k. 2) (demo_form [(''topic'', ''t''), (''partitions'', ''2'')]),
     NsJoin 3 (demo_form [(''group_id'', ''g''), (''client_id'', ''c''), (''topic'', ''t'')])]"


text \<open>The state of the witnesses: one broker, a topic with two partitions, a group with one member.\<close>

definition demo_broker :: BrokerInfo where
  "demo_broker = \<lparr>BrokerID = 1, Address = ''h:1'', ClientAddr = ''h:2'', Hostname = [], Port = 0, LastUpdate = 1\<rparr>"

definition demo_topic :: TopicInfo where
  "demo_topic = \<lparr>ti_Topic = ''t'', Partitions =
     [(0, \<lparr>PartitionID = 0, pi_Leader = ''h:2'', Replicas = [''h:2''], ISR = [''h:2'']\<rparr>),
      (1, \<lparr>PartitionID = 1, pi_Leader = ''h:2'', Replicas = [''h:2''], ISR = [''h:2'']\<rparr>)]\<rparr>"

definition demo_member :: ConsumerGroup where
  "demo_member = \<lparr>GroupID = ''g'',
     Members = [(''c'', \<lparr>ClientID = ''c'', Heartbeat = 3, Assignments = [(0, True), (1, True)]\<rparr>)],
     cg_Topic = ''t'', cg_Partitions = [0, 1], Generation = 2\<rparr>"

abbreviation demo_ns :: "(byte list, byte list) gomap NameServer" where
  "demo_ns \<equiv> foldl (nsv_step mem_bolt) (NewNameServer mem_bolt (Some []) None ''n'' 9090) demo_ops"

lemma demo_ns_step1:
  "foldl (nsv_step mem_bolt) (NewNameServer mem_bolt (Some []) None ''n'' 9090) (take 2 demo_ops)
   = \<lparr>ns_topics = [(''t'', demo_topic)], ns_brokers = [(1, demo_broker)], consumerGroups = [], nextID = 2, ns_addr = ''n'', ns_httpPort = 9090,
      offsetStore = Some [], txCoordinator = NewTransactionCoordinator None\<rparr>"
  by (simp add: demo_ops_def demo_form_def NewNameServer_def NewOffsetStore_def mem_bolt_def handleRegister_def handleCreateTopic_def
      Let_def partitions_arg_def atoi_def signed_val_def is_digit_def digit_val_def int64_range_def getAvailableBrokers_def Second_def Millisecond_def
      demo_topic_def demo_broker_def partition_info_def replica_addrs_def upt_rec)

lemma demo_ns_eq:
  "demo_ns = \<lparr>ns_topics = [(''t'', demo_topic)], ns_brokers = [(1, demo_broker)], consumerGroups = [(''g'', demo_member)], nextID = 2,
      ns_addr = ''n'', ns_httpPort = 9090, offsetStore = Some [], txCoordinator = NewTransactionCoordinator None\<rparr>"
  using demo_ns_step1
  by (simp add: demo_ops_def demo_form_def handleJoinGroup_def join_member_def new_group_def doRebalance_def rebalance_def Let_def
      demo_topic_def demo_member_def)

lemma demo_ops_ok: "list_all nsv_ok demo_ops"
  by (simp add: demo_ops_def)

text \<open>C13. After any sequence of requests and pulses of the heartbeat checker, every partition of the topic of a
  consumer group is assigned to exactly one member of the group.\<close>

theorem groups_exactly_once:
  assumes "list_all nsv_ok ops" and "n = foldl (nsv_step bolt) (NewNameServer bolt opened left addr port) ops"
    and "map_of (consumerGroups n) g = Some grp" and "map_of (ns_topics n) (cg_Topic grp) = Some info"
    and "has (Partitions info) p"
  shows "\<exists>!c. assigned grp c p"
proof -
  have gi: "groups_inv (ns_topics n) (consumerGroups n)"
    using nsv_run_inv [OF assms(1,2)] by (simp add: nsv_inv_def)
  have "group_ok grp" "subscribed (ns_topics n) g grp" using groups_inv_lookup [OF gi assms(3)] by simp_all
  moreover from this have "p \<in> set (cg_Partitions grp)"
    using assms(4,5) by (auto simp: subscribed_def map_of_eq_None_iff)
  ultimately show ?thesis by (intro group_exactly_one)
qed

theorem groups_exactly_once_witness: "\<exists>!c. assigned demo_member c 1"
  by (rule groups_exactly_once [OF demo_ops_ok refl, where bolt = mem_bolt and opened = "Some []" and left = None
        and addr = "''n''" and port = 9090 and g = "''g''" and info = demo_topic])
    (simp_all add: demo_ns_eq demo_member_def demo_topic_def)

text \<open>A route exists for every topic and key: after any sequence of requests, \<open>handleRoute\<close> without an explicit
  partition answers with the partition that the absolute value of the key's hash gives, one of the topic's partitions, and
  its leader is the first of its replicas.\<close>

theorem route_by_key:
  assumes "list_all nsv_ok ops" and "n = foldl (nsv_step bolt) (NewNameServer bolt opened left addr port) ops"
    and "parsed r" and "form r ''topic'' = t" and "t \<noteq> []" and "form r ''partition'' = []" and "form r ''key'' \<noteq> []"
    and "map_of (ns_topics n) t = Some info"
  shows "\<exists>pinfo. handleRoute r n
      = (200, RouteBody t (\<bar>hashString (form r ''key'')\<bar> mod int (length (Partitions info))) pinfo)
    \<and> has (Partitions info) (\<bar>hashString (form r ''key'')\<bar> mod int (length (Partitions info)))
    \<and> Replicas pinfo \<noteq> [] \<and> pi_Leader pinfo = hd (Replicas pinfo)"
proof -
  let ?n = "int (length (Partitions info))"
  let ?p = "\<bar>hashString (form r ''key'')\<bar> mod ?n"
  have "topic_ok t info" using nsv_run_inv [OF assms(1,2)] assms(8) by (simp add: nsv_inv_def topics_inv_def)
  then have t: "Partitions info \<noteq> []" "map fst (Partitions info) = map int [0..<length (Partitions info)]"
    "\<forall>(p, pinfo) \<in> set (Partitions info). partition_ok p pinfo" by (simp_all add: topic_ok_def)
  have n: "0 < ?n" using t(1) by simp
  have p: "0 \<le> ?p" "?p < ?n" using n by (simp_all add: pos_mod_sign pos_mod_bound)
  then have "?p \<in> set (map int [0..<length (Partitions info)])" by (auto intro!: image_eqI [of _ _ "nat ?p"])
  then have "?p \<in> fst ` set (Partitions info)" unfolding t(2) [symmetric] by simp
  then obtain pinfo where pinfo: "map_of (Partitions info) ?p = Some pinfo"
    by (metis map_of_eq_None_iff not_None_eq)
  have "route_partition [] (form r ''key'') info = Some ?p"
    using assms(7) abs_go_mod [OF n, of "hashString (form r ''key'')"] by (auto simp: route_partition_def Let_def abs_if)
  then have "handleRoute r n = (200, RouteBody t ?p pinfo)"
    using assms t(1) pinfo by (simp add: handleRoute_def)
  with pinfo map_of_SomeD [OF pinfo] t(3) show ?thesis by (auto simp: partition_ok_def)
qed

theorem route_by_key_witness:
  "\<exists>pinfo. handleRoute (demo_form [(''topic'', ''t''), (''key'', ''k'')]) demo_ns
     = (200, RouteBody ''t'' (\<bar>hashString ''k''\<bar> mod 2) pinfo)"
  using route_by_key [OF demo_ops_ok refl, where r = "demo_form [(''topic'', ''t''), (''key'', ''k'')]" and t = "''t''"
      and bolt = mem_bolt and opened = "Some []" and left = None and addr = "''n''" and port = 9090 and info = demo_topic]
  by (auto simp: demo_ns_eq demo_form_def demo_topic_def)

text \<open>The loop of \<open>hashString\<close> on \<open>int64\<close> computes the low 64 bits, read as a signed number, of the polynomial in 31 with the bytes of the
  string as coefficients.\<close>

theorem hashString_is_polynomial: "hashString s = wrap64 (hash_poly s)"
  by (rule hashString_poly)

text \<open>A pulse of the heartbeat checker removes exactly the members that have been silent for more than thirty seconds,
  and the group with its last member.\<close>

theorem heartbeat_removes_dead:
  assumes "list_all nsv_ok ops" and "n = foldl (nsv_step bolt) (NewNameServer bolt opened left addr port) ops"
    and "range_order ord" and "map_of (consumerGroups n) g = Some grp"
  shows "case map_of (consumerGroups (heartbeatTick ord now n)) g of
           None \<Rightarrow> alive now g grp = []
         | Some grp' \<Rightarrow> map fst (Members grp') = alive now g grp \<and> alive now g grp \<noteq> []"
  by (rule heartbeatTick_group [OF nsv_run_inv [OF assms(1,2)] assms(3,4)])

theorem heartbeat_removes_dead_witness:
  "map_of (consumerGroups (heartbeatTick id (\<lambda>g c. 31 * Second) demo_ns)) ''g'' = None"
  using heartbeat_removes_dead [OF demo_ops_ok refl, where ord = id and bolt = mem_bolt and opened = "Some []" and left = None
      and addr = "''n''" and port = 9090 and g = "''g''" and grp = demo_member and now = "\<lambda>g c. 31 * Second"]
  by (simp add: demo_ns_eq demo_member_def alive_def Second_def Millisecond_def split: option.splits)

lemma available_in_brokers:
  assumes "brokers_inv next (ns_brokers n)" and "range_order ord" and "k \<in> set (getAvailableBrokers ord now n)"
  shows "\<exists>b. map_of (ns_brokers n) k = Some b"
  using assms range_order_set [OF assms(2), of "ns_brokers n"]
  by (auto simp: getAvailableBrokers_def brokers_inv_def)

lemma distinct_available:
  assumes "brokers_inv next (ns_brokers n)" and "range_order ord"
  shows "distinct (getAvailableBrokers ord now n)"
  using assms range_order_map_fst [OF assms(2)] unfolding getAvailableBrokers_def
  by (intro distinct_map_filter) (simp add: brokers_inv_def)

lemma mod_shift_inj: "j < len \<Longrightarrow> j' < len \<Longrightarrow> (i + j) mod len = (i + j') mod len \<Longrightarrow> j = (j' :: nat)"
proof (induction j j' rule: linorder_wlog)
  case (le a b)
  then have "len dvd (i + b) - (i + a)" by (metis mod_eq_dvd_iff_nat add_le_mono order_refl)
  then have "len dvd b - a" by simp
  with le show ?case by (auto dest: dvd_imp_le)
next
  case (sym a b)
  then show ?case by simp
qed

lemma replicas_distinct:
  assumes "distinct ids" and "\<forall>k \<in> set ids. \<exists>b. map_of (ns_brokers n) k = Some b"
    and "\<forall>k b k' b'. map_of (ns_brokers n) k = Some b \<longrightarrow> map_of (ns_brokers n) k' = Some b' \<longrightarrow> ClientAddr b = ClientAddr b' \<longrightarrow> k = k'"
  shows "distinct (replica_addrs n ids i)"
proof -
  let ?len = "length ids"
  have "j = j'" if j: "j < min 3 ?len" "j' < min 3 ?len"
    and eq: "ClientAddr (the (map_of (ns_brokers n) (ids ! ((i + j) mod ?len)))) = ClientAddr (the (map_of (ns_brokers n) (ids ! ((i + j') mod ?len))))"
    for j j'
  proof -
    have l: "(i + j) mod ?len < ?len" "(i + j') mod ?len < ?len" using j by (auto intro: mod_less_divisor)
    obtain b b' where "map_of (ns_brokers n) (ids ! ((i + j) mod ?len)) = Some b" "map_of (ns_brokers n) (ids ! ((i + j') mod ?len)) = Some b'"
      using assms(2) nth_mem [OF l(1)] nth_mem [OF l(2)] by blast
    with eq assms(3) have "ids ! ((i + j) mod ?len) = ids ! ((i + j') mod ?len)" by simp
    then have "(i + j) mod ?len = (i + j') mod ?len" using assms(1) l nth_eq_iff_index_eq by blast
    with j show ?thesis using mod_shift_inj [of j ?len j' i] by simp
  qed
  then show ?thesis by (auto simp: replica_addrs_def distinct_map inj_on_def)
qed

text \<open>\<open>handleCreateTopic\<close> places the replicas of partition \<open>i\<close> on up to three different brokers that are available,
  led by the \<open>i\<close>-th of them, counted round, if brokers have different client addresses.\<close>

theorem createTopic_placement:
  assumes "nsv_inv n" and "range_order ord" and "handleCreateTopic ord now r n = ((200, TopicBody t k), n')"
    and "\<forall>k b k' b'. map_of (ns_brokers n) k = Some b \<longrightarrow> map_of (ns_brokers n) k' = Some b' \<longrightarrow> ClientAddr b = ClientAddr b' \<longrightarrow> k = k'"
    and "ids = getAvailableBrokers ord now n" and "i < nat k"
  shows "\<exists>info pinfo. map_of (ns_topics n') t = Some info \<and> map_of (Partitions info) (int i) = Some pinfo
    \<and> length (Replicas pinfo) = min 3 (length ids) \<and> distinct (Replicas pinfo)
    \<and> map_option ClientAddr (map_of (ns_brokers n) (ids ! (i mod length ids))) = Some (pi_Leader pinfo)"
proof -
  let ?info = "\<lparr>ti_Topic = t, Partitions = map (\<lambda>i. (int i, partition_info n ids i)) [0..<nat k]\<rparr>"
  have n': "ids \<noteq> []" "map_of (ns_topics n') t = Some ?info"
    using assms(3,5) by (auto simp: handleCreateTopic_def Let_def form_error_def split: if_splits option.splits)
  have p: "map_of (Partitions ?info) (int i) = Some (partition_info n ids i)"
    using assms(6) by (simp add: map_of_map_restrict [symmetric] map_of_eq_Some_iff comp_def distinct_map image_iff)
  have b: "brokers_inv (nextID n) (ns_brokers n)" using assms(1) by (simp add: nsv_inv_def)
  have ids: "distinct ids" "\<forall>k \<in> set ids. \<exists>b. map_of (ns_brokers n) k = Some b"
    using distinct_available [OF b assms(2)] available_in_brokers [OF b assms(2)] assms(5) by blast+
  have "ids ! (i mod length ids) \<in> set ids" using n'(1) by simp
  then have "map_option ClientAddr (map_of (ns_brokers n) (ids ! (i mod length ids))) = Some (pi_Leader (partition_info n ids i))"
    using ids(2) n'(1) by (fastforce simp: partition_info_def replica_addrs_def Let_def)
  then show ?thesis
    using n'(2) p replicas_distinct [OF ids assms(4)] by (auto simp: partition_info_def Let_def)
qed

theorem createTopic_placement_witness:
  "\<exists>n' info pinfo. handleCreateTopic id (\<lambda>k. 2) (demo_form [(''topic'', ''u'')]) demo_ns = ((200, TopicBody ''u'' 1), n')
     \<and> map_of (ns_topics n') ''u'' = Some info \<and> map_of (Partitions info) 0 = Some pinfo \<and> length (Replicas pinfo) = 1"
proof -
  have ids: "getAvailableBrokers id (\<lambda>k. 2) demo_ns = [1]"
    by (simp add: getAvailableBrokers_def demo_ns_eq demo_broker_def Second_def Millisecond_def)
  obtain n' where n': "handleCreateTopic id (\<lambda>k. 2) (demo_form [(''topic'', ''u'')]) demo_ns = ((200, TopicBody ''u'' 1), n')"
    using ids by (auto simp: handleCreateTopic_def demo_form_def demo_ns_eq partitions_arg_def Let_def)
  have "nsv_inv demo_ns" using nsv_run_inv [OF demo_ops_ok refl] .
  moreover have "\<forall>k b k' b'. map_of (ns_brokers demo_ns) k = Some b \<longrightarrow> map_of (ns_brokers demo_ns) k' = Some b' \<longrightarrow>
      ClientAddr b = ClientAddr b' \<longrightarrow> k = k'" by (auto simp: demo_ns_eq split: if_splits)
  ultimately have "\<exists>info pinfo. map_of (ns_topics n') ''u'' = Some info \<and> map_of (Partitions info) (int 0) = Some pinfo
    \<and> length (Replicas pinfo) = min 3 (length [1 :: int]) \<and> distinct (Replicas pinfo)
    \<and> map_option ClientAddr (map_of (ns_brokers demo_ns) ([1] ! (0 mod length [1 :: int]))) = Some (pi_Leader pinfo)"
    by (intro createTopic_placement [OF _ range_order_id(1) n' _ ids [symmetric]]) simp_all
  with n' show ?thesis by auto
qed

text \<open>Brokers register once, when they start: thirty seconds after the last registration no topic can be
  created any more.\<close>

theorem no_topic_after_thirty_seconds:
  assumes "range_order ord" and "\<forall>(k, b) \<in> set (ns_brokers n). LastUpdate b + 30 * Second \<le> now k"
    and "parsed r" and "form r ''topic'' \<noteq> []" and "partitions_arg r = Some k" and "\<not> has (ns_topics n) (form r ''topic'')"
  shows "handleCreateTopic ord now r n = ((503, ErrBody ''no brokers available''), n)"
proof -
  have "getAvailableBrokers ord now n = []"
    using assms(2) range_order_set [OF assms(1), of "ns_brokers n"]
    by (auto simp: getAvailableBrokers_def filter_empty_conv)
  with assms(3-6) show ?thesis by (simp add: handleCreateTopic_def)
qed

theorem no_topic_after_thirty_seconds_witness:
  "handleCreateTopic id (\<lambda>k. 31 * Second) (demo_form [(''topic'', ''u'')]) demo_ns = ((503, ErrBody ''no brokers available''), demo_ns)"
  by (rule no_topic_after_thirty_seconds [where k = 1])
    (simp_all add: demo_ns_eq demo_broker_def demo_form_def partitions_arg_def Second_def Millisecond_def)

lemma no_store_step: "offsetStore n = None \<Longrightarrow> offsetStore (nsv_step bolt n a) = None"
  by (cases a)
    (auto simp: handleRegister_def handleCreateTopic_def handleJoinGroup_def join_member_def handleHeartbeat_def handleLeaveGroup_def
      heartbeatTick_def handleCommitOffset_def handleBeginTx_def handleAddMessage_def handleCommitTx_def handleRollbackTx_def
      Let_def split: option.split sum.split prod.split)

lemma no_store_run: "offsetStore n = None \<Longrightarrow> offsetStore (foldl (nsv_step bolt) n ops) = None"
  by (induction ops arbitrary: n) (auto simp: no_store_step)

text \<open>The name server opens the offset database before its directory exists and drops the error. From then on every
  commit of an offset is acknowledged and stored nowhere: the offset that is read back is zero.\<close>

theorem offsets_lost_without_store:
  assumes "n = foldl (nsv_step bolt) (NewNameServer bolt None left addr port) ops"
    and "parsed r" and "form r ''group_id'' = g" and "form r ''topic'' = t" and "g \<noteq> []" and "t \<noteq> []"
    and "atoi (form r ''partition'') = Some p" and "atoi (form r ''offset'') = Some off"
  shows "handleCommitOffset bolt r n = ((200, OffsetBody g t p off), n)
    \<and> handleGetOffset bolt r n = Ret (200, OffsetBody g t p 0)"
proof -
  have "offsetStore n = None"
    using no_store_run [of "NewNameServer bolt None left addr port"] assms(1) by (simp add: NewNameServer_def NewOffsetStore_def)
  moreover have "atoi [] = None" by (simp add: atoi_def signed_val_def)
  then have "form r ''partition'' \<noteq> []" "form r ''offset'' \<noteq> []" using assms(7,8) by auto
  ultimately show ?thesis using assms by (simp add: handleCommitOffset_def handleGetOffset_def)
qed

theorem offsets_lost_without_store_witness:
  "handleGetOffset mem_bolt (demo_form [(''group_id'', ''g''), (''topic'', ''t''), (''partition'', ''0''), (''offset'', ''7'')])
     (foldl (nsv_step mem_bolt) (NewNameServer mem_bolt None None ''n'' 9090) []) = Ret (200, OffsetBody ''g'' ''t'' 0 0)"
  using offsets_lost_without_store [OF refl, where r = "demo_form [(''group_id'', ''g''), (''topic'', ''t''), (''partition'', ''0''), (''offset'', ''7'')]"
      and g = "''g''" and t = "''t''" and p = 0 and off = 7 and bolt = mem_bolt and left = None and addr = "''n''" and port = 9090 and ops = "[]"]
  by (simp add: demo_form_def atoi_def signed_val_def is_digit_def digit_val_def int64_range_def)

end
