(* ===== verification/Broker_Requests.thy ===== *)
theory Broker_Requests
  imports Broker_Delivery Raft_Hazards
begin

text \<open>
  What requests do to the broker: producing, acknowledging and retrying, pipelined requests on a connection, and the
  cleanup of old segments. The Raft node is used through the cases of \<open>SubmitCommand\<close>.
\<close>

section \<open>Producing\<close>

definition data_entry :: "string \<Rightarrow> int \<Rightarrow> byte list \<Rightarrow> LogEntry \<Rightarrow> bool" where
  "data_entry topic part data e \<longleftrightarrow> le_Topic e = topic \<and> le_Partition e = part \<and> le_Data e = data \<and> le_Type e = DATA"

lemma SubmitCommand_cases:
  assumes "SubmitCommand topic part data r = Ret (res, r')"
  obtains (refused) "res = Inl NotLeader" "r' = r" "state r \<noteq> Leader"
    | (accepted) e where "res = Inr (length (log r), chanCount r)" "state r = Leader" "peers r \<noteq> []" "log r' = log r @ [e]"
        "data_entry topic part data e" "state r' = Leader" "peers r' = peers r"
proof (cases "state r = Leader")
  case True
  with SubmitCommand_Ret [OF assms] accepted show ?thesis by (auto simp: data_entry_def)
qed (use assms refused in \<open>auto simp: SubmitCommand_def\<close>)

definition same_setup :: "Broker \<Rightarrow> Broker \<Rightarrow> bool" where
  "same_setup b b' \<longleftrightarrow> namespaceManager b' = namespaceManager b \<and> idempotentMgr b' = idempotentMgr b \<and>
     b_clientAddr b' = b_clientAddr b \<and> b_nameserverURL b' = b_nameserverURL b"

lemma produce_submit_cases:
  assumes "produce_submit clk ord route topic key val userID producerID seqNum b = Ret (res, b')"
  obtains (refused) "res = Inl (SubmitError NotLeader)" "raftNode b' = raftNode b" "same_setup b b'"
    | (accepted) msg e where "res = Inr msg" "m_Topic msg = topic" "m_Value msg = val" "m_Partition msg = ri_Partition route"
        "state (raftNode b) = Leader" "log (raftNode b') = log (raftNode b) @ [e]"
        "data_entry topic (to_int32 (ri_Partition route)) val e"
proof -
  obtain ctx tr where t: "StartTrace ord topic (ri_Partition route) (clk 1) (clk 2) (clk 3) (tracer b) = (ctx, tr)" by fastforce
  note u = assms [unfolded produce_submit_def t Let_def prod.case]
  obtain res1 r1 where s: "SubmitCommand topic (to_int32 (ri_Partition route)) val (raftNode b) = Ret (res1, r1)"
    using u by (cases "SubmitCommand topic (to_int32 (ri_Partition route)) val (raftNode b)") (auto simp: trace_event_def)
  from s show thesis
  proof (cases rule: SubmitCommand_cases)
    case refused
    with u s show thesis by (intro that(1)) (auto simp: trace_event_def same_setup_def)
  next
    case (accepted e)
    with u s show thesis by (cases res) (auto simp: trace_event_def intro!: that(2) [of _ e])
  qed
qed

text \<open>The ways a call of \<open>Produce\<close> can end.\<close>

lemma Produce_cases:
  assumes "Produce clk ordI ordT get topic key val userID producerID seqNum b = Ret (res, b')"
  obtains (rejected) err where "res = Inl err" "raftNode b' = raftNode b" "\<And>e. err \<noteq> SubmitError e"
    | (duplicate) route msg where "CheckPermission userID topic ActionProduce (namespaceManager b) = Inr True"
        "getRoute (get (route_url b topic key)) = Some route" "ri_Leader route = b_clientAddr b" "producerID \<noteq> []"
        "fst (CheckAndRecord ordI producerID seqNum (tp_key topic (ri_Partition route)) (clk 0) (idempotentMgr b)) = Inr False"
        "res = Inr msg" "m_Topic msg = topic" "m_Value msg = val" "m_Partition msg = ri_Partition route" "raftNode b' = raftNode b"
    | (submitted) route im where "CheckPermission userID topic ActionProduce (namespaceManager b) = Inr True"
        "getRoute (get (route_url b topic key)) = Some route" "ri_Leader route = b_clientAddr b"
        "producerID \<noteq> [] \<Longrightarrow> CheckAndRecord ordI producerID seqNum (tp_key topic (ri_Partition route)) (clk 0) (idempotentMgr b) = (Inr True, im)"
        "produce_submit clk ordT route topic key val userID producerID seqNum (if producerID = [] then b else b\<lparr>idempotentMgr := im\<rparr>) = Ret (res, b')"
proof (cases "CheckPermission userID topic ActionProduce (namespaceManager b) = Inr True \<and>
    (\<exists>route. getRoute (get (route_url b topic key)) = Some route \<and> ri_Leader route = b_clientAddr b)")
  case False
  with assms show thesis
    by (intro that(1) [of "case res of Inl e \<Rightarrow> e | Inr m \<Rightarrow> RouteError"])
      (auto simp: Produce_def split: sum.splits if_splits option.splits)
next
  case True
  then obtain route where r: "CheckPermission userID topic ActionProduce (namespaceManager b) = Inr True"
    "getRoute (get (route_url b topic key)) = Some route" "ri_Leader route = b_clientAddr b" by blast
  show thesis
  proof (cases "producerID = []")
    case True
    with assms r show thesis by (intro that(3) [of route undefined]) (auto simp: Produce_def)
  next
    case pid: False
    obtain ans im where c: "CheckAndRecord ordI producerID seqNum (tp_key topic (ri_Partition route)) (clk 0) (idempotentMgr b) = (ans, im)"
      by fastforce
    consider e where "ans = Inl e" | "ans = Inr False" | "ans = Inr True" by (cases ans) auto
    then show thesis
    proof cases
      case (1 e)
      with assms r pid c show thesis by (intro that(1) [of "IdempotenceError e"]) (auto simp: Produce_def)
    next
      case 2
      with assms r pid c show thesis by (cases res) (auto simp: Produce_def intro!: that(2))
    next
      case 3
      with assms r pid c show thesis by (intro that(3) [of route im]) (auto simp: Produce_def)
    qed
  qed
qed

text \<open>C15. \<open>Produce\<close> changes the log only if it succeeds, and then only for a caller with permission, at the leader of the route: it
  appends one entry with the value, or none if the sequence number repeats the last one of the producer.\<close>

theorem Produce_effect:
  assumes "Produce clk ordI ordT get topic key val userID producerID seqNum b = Ret (res, b')"
  shows "case res of
      Inl err \<Rightarrow> raftNode b' = raftNode b
    | Inr msg \<Rightarrow> m_Topic msg = topic \<and> m_Value msg = val \<and> CheckPermission userID topic ActionProduce (namespaceManager b) = Inr True \<and>
        (\<exists>route. getRoute (get (route_url b topic key)) = Some route \<and> ri_Leader route = b_clientAddr b \<and> m_Partition msg = ri_Partition route \<and>
          (if producerID \<noteq> [] \<and> fst (CheckAndRecord ordI producerID seqNum (tp_key topic (ri_Partition route)) (clk 0) (idempotentMgr b)) = Inr False
           then raftNode b' = raftNode b
           else state (raftNode b) = Leader \<and>
             (\<exists>e. log (raftNode b') = log (raftNode b) @ [e] \<and> data_entry topic (to_int32 (ri_Partition route)) val e)))"
  using assms
proof (cases rule: Produce_cases)
  case (submitted route im)
  from submitted(5) show ?thesis
    by (cases rule: produce_submit_cases) (use submitted(1-4) in \<open>auto split: if_splits\<close>)
qed auto

text \<open>A leader with one peer, and a name server that names it for every topic.\<close>

definition demo_leader_b :: Broker where
  "demo_leader_b = demo_b\<lparr>raftNode := demo_raft\<lparr>state := Leader,
     peers := [(''b2'', \<lparr>peer_addr = ''b2'', peer_learner = False\<rparr>)]\<rparr>\<rparr>"

definition demo_route :: "string \<Rightarrow> RouteInfo http_answer" where
  "demo_route url = Some (200, Some \<lparr>ri_Topic = ''t'', ri_Partition = 0, ri_Leader = ''b1'', ri_Replicas = [''b1''], ri_ISR = [''b1'']\<rparr>)"

lemma demo_setup: "CheckPermission [] ''t'' ActionProduce (namespaceManager demo_b) = Inr True" "b_clientAddr demo_b = ''b1''"
    "getRoute (demo_route url) = Some \<lparr>ri_Topic = ''t'', ri_Partition = 0, ri_Leader = ''b1'', ri_Replicas = [''b1''], ri_ISR = [''b1'']\<rparr>"
    "producerState (idempotentMgr demo_b) = []" "state (raftNode demo_b) = Follower"
  by (simp_all add: demo_b_def broker_struct_def CheckPermission_def NewNamespaceManager_def getRoute_def demo_route_def
      NewIdempotentManager_def demo_raft_def NewRaftNode_def loadState_def)

theorem Produce_effect_witness:
  "\<exists>msg b' e. Produce (\<lambda>i. 0) id id demo_route ''t'' ''k'' [7] [] [] 0 demo_leader_b = Ret (Inr msg, b')
     \<and> log (raftNode b') = log demo_raft @ [e] \<and> data_entry ''t'' 0 [7] e"
proof -
  have "\<exists>msg b'. Produce (\<lambda>i. 0) id id demo_route ''t'' ''k'' [7] [] [] 0 demo_leader_b = Ret (Inr msg, b')"
    using demo_setup by (auto simp: Produce_def demo_leader_b_def produce_submit_def trace_event_def SubmitCommand_def Let_def split_beta)
  then obtain msg b' where p: "Produce (\<lambda>i. 0) id id demo_route ''t'' ''k'' [7] [] [] 0 demo_leader_b = Ret (Inr msg, b')" by blast
  from Produce_effect [OF p] p show ?thesis using demo_setup(3) by (auto simp: demo_leader_b_def to_int32_small)
qed

text \<open>The sequence number is recorded before the command is submitted: when the submission fails, the producer that
  tries again is told that the message was accepted, and nothing is appended, even if the node has become the leader.\<close>

theorem failed_produce_retry_lost:
  assumes "Produce clk ordI ordT get topic key val userID producerID seqNum b = Ret (Inl (SubmitError e), b1)" and "producerID \<noteq> []"
    and "b2 = b1\<lparr>raftNode := r\<rparr>"
  shows "\<exists>msg. Produce clk' ordI' ordT' get topic key val userID producerID seqNum b2 = Ret (Inr msg, b2)"
  using assms(1)
proof (cases rule: Produce_cases)
  case (submitted route im)
  let ?tp = "tp_key topic (ri_Partition route)"
  have c: "CheckAndRecord ordI producerID seqNum ?tp (clk 0) (idempotentMgr b) = (Inr True, im)" using submitted(4) assms(2) .
  obtain st where st: "map_of (producerState im) producerID = Some st" "LastSequenceNumber st = seqNum" "ps_TopicPartition st = ?tp"
    using CheckAndRecord_accepted(1) [OF c] by blast
  from submitted(5) have s: "same_setup (b\<lparr>idempotentMgr := im\<rparr>) b1"
    by (cases rule: produce_submit_cases) (use assms(2) in auto)
  then have "CheckAndRecord ordI' producerID seqNum ?tp (clk' 0) (idempotentMgr b2) = (Inr False, idempotentMgr b2)"
    using st assms(3) by (simp add: CheckAndRecord_def same_setup_def)
  then show ?thesis
    using s submitted(1-3) assms(2,3) by (auto simp: Produce_def same_setup_def route_url_def)
qed auto

theorem failed_produce_retry_lost_witness:
  "\<exists>b1 msg. Produce (\<lambda>i. 0) id id demo_route ''t'' ''k'' [7] [] ''p'' 1 demo_b = Ret (Inl (SubmitError NotLeader), b1)
     \<and> Produce (\<lambda>i. 0) id id demo_route ''t'' ''k'' [7] [] ''p'' 1 (b1\<lparr>raftNode := raftNode demo_leader_b\<rparr>)
         = Ret (Inr msg, b1\<lparr>raftNode := raftNode demo_leader_b\<rparr>)"
proof -
  have "\<exists>b1. Produce (\<lambda>i. 0) id id demo_route ''t'' ''k'' [7] [] ''p'' 1 demo_b = Ret (Inl (SubmitError NotLeader), b1)"
    using demo_setup by (auto simp: Produce_def produce_submit_def trace_event_def SubmitCommand_def CheckAndRecord_def Let_def split_beta)
  then obtain b1 where p: "Produce (\<lambda>i. 0) id id demo_route ''t'' ''k'' [7] [] ''p'' 1 demo_b = Ret (Inl (SubmitError NotLeader), b1)" by blast
  from failed_produce_retry_lost [OF p _ refl, where r = "raftNode demo_leader_b" and clk' = "\<lambda>i. 0" and ordI' = id and ordT' = id] p show ?thesis by blast
qed

section \<open>Retries\<close>

definition due :: "time \<Rightarrow> RetryMessage \<Rightarrow> bool" where
  "due now m \<longleftrightarrow> NextRetryAt m \<le> now"

definition retry_entry :: "RetryMessage \<Rightarrow> LogEntry \<Rightarrow> bool" where
  "retry_entry m e \<longleftrightarrow> data_entry (rm_Topic m @ ''_RETRY'') (to_int32 (rm_Partition m)) (rm_Data m) e"

lemma retry_loop_follower:
  "state (raftNode b) \<noteq> Leader \<Longrightarrow> retry_loop now msgs acc b = Ret (b\<lparr>retryQueue := acc @ msgs\<rparr>)"
  by (induction msgs arbitrary: acc) (simp_all add: SubmitCommand_def)

lemma SubmitCommand_leader:
  assumes "state r = Leader" and "peers r \<noteq> []"
  shows "\<exists>e r'. SubmitCommand topic part data r = Ret (Inr (length (log r), chanCount r), r') \<and> log r' = log r @ [e]
           \<and> data_entry topic part data e \<and> state r' = Leader \<and> peers r' = peers r"
proof -
  have "\<exists>res r'. SubmitCommand topic part data r = Ret (res, r')" using assms by (simp add: SubmitCommand_def Let_def)
  then obtain res r' where s: "SubmitCommand topic part data r = Ret (res, r')" by blast
  from s show ?thesis by (cases rule: SubmitCommand_cases) (use assms(1) s in auto)
qed

lemma retry_loop_leader:
  assumes "state (raftNode b) = Leader" and "peers (raftNode b) \<noteq> []"
  shows "\<exists>b' es. retry_loop now msgs acc b = Ret b' \<and> retryQueue b' = acc @ filter (\<lambda>m. \<not> due now m) msgs
           \<and> log (raftNode b') = log (raftNode b) @ es \<and> list_all2 retry_entry (filter (due now) msgs) es
           \<and> state (raftNode b') = Leader \<and> peers (raftNode b') = peers (raftNode b)"
  using assms
proof (induction msgs arbitrary: acc b)
  case (Cons m msgs)
  show ?case
  proof (cases "due now m")
    case False
    with Cons.IH [OF Cons.prems, of "acc @ [m]"] show ?thesis by (auto simp: due_def)
  next
    case True
    obtain e r' where s: "SubmitCommand (rm_Topic m @ ''_RETRY'') (to_int32 (rm_Partition m)) (rm_Data m) (raftNode b)
        = Ret (Inr (length (log (raftNode b)), chanCount (raftNode b)), r')"
        and r: "log r' = log (raftNode b) @ [e]" "retry_entry m e" "state r' = Leader" "peers r' = peers (raftNode b)"
      using SubmitCommand_leader [OF Cons.prems] unfolding retry_entry_def by blast
    have "state (raftNode (b\<lparr>raftNode := r'\<rparr>)) = Leader" "peers (raftNode (b\<lparr>raftNode := r'\<rparr>)) \<noteq> []" using r(3,4) Cons.prems(2) by simp_all
    from Cons.IH [OF this, of acc] obtain b' es where i: "retry_loop now msgs acc (b\<lparr>raftNode := r'\<rparr>) = Ret b'"
      "retryQueue b' = acc @ filter (\<lambda>m. \<not> due now m) msgs" "log (raftNode b') = log r' @ es" "list_all2 retry_entry (filter (due now) msgs) es"
      "state (raftNode b') = Leader" "peers (raftNode b') = peers r'"
      by auto
    have "retry_loop now (m # msgs) acc b = Ret b'" using True s i(1) by (simp add: due_def)
    with i r True show ?thesis by (intro exI [of _ b'] exI [of _ "e # es"]) simp
  qed
qed auto

text \<open>A round of the retry processor on a leader with peers submits exactly the messages that are due, in the order of the queue, to the retry topic, and
  keeps the others; on another node it changes nothing.\<close>

theorem processRetryQueue_functional:
  "if state (raftNode b) \<noteq> Leader then processRetryQueue now b = Ret b
   else if peers (raftNode b) = [] then (\<exists>m \<in> set (retryQueue b). due now m) \<longrightarrow> processRetryQueue now b = Deadlock
   else \<exists>b' es. processRetryQueue now b = Ret b' \<and> retryQueue b' = filter (\<lambda>m. \<not> due now m) (retryQueue b)
          \<and> log (raftNode b') = log (raftNode b) @ es \<and> list_all2 retry_entry (filter (due now) (retryQueue b)) es"
proof -
  have "(\<exists>m \<in> set msgs. due now m) \<Longrightarrow> retry_loop now msgs acc b = Deadlock"
    if "state (raftNode b) = Leader" "peers (raftNode b) = []" for msgs acc
    using that by (induction msgs arbitrary: acc) (auto simp: due_def SubmitCommand_def Let_def applyCommittedEntries_def)
  then show ?thesis
    using retry_loop_follower [of b now "retryQueue b" "[]"] retry_loop_leader [of b now "retryQueue b" "[]"]
    by (auto simp: processRetryQueue_def)
qed

theorem processRetryQueue_functional_witness:
  "\<exists>b' e. processRetryQueue 6 (demo_leader_b\<lparr>retryQueue := [\<lparr>rm_Topic = ''t'', rm_Partition = 0, rm_Offset = 0, rm_Data = [7], RetryCount = 1, NextRetryAt = 5\<rparr>,
       \<lparr>rm_Topic = ''t'', rm_Partition = 0, rm_Offset = 21, rm_Data = [8], RetryCount = 1, NextRetryAt = 9\<rparr>]\<rparr>) = Ret b'
     \<and> map rm_Data (retryQueue b') = [[8]] \<and> log (raftNode b') = log demo_raft @ [e] \<and> data_entry ''t_RETRY'' 0 [7] e"
  using processRetryQueue_functional [of "demo_leader_b\<lparr>retryQueue := [\<lparr>rm_Topic = ''t'', rm_Partition = 0, rm_Offset = 0, rm_Data = [7], RetryCount = 1, NextRetryAt = 5\<rparr>,
      \<lparr>rm_Topic = ''t'', rm_Partition = 0, rm_Offset = 21, rm_Data = [8], RetryCount = 1, NextRetryAt = 9\<rparr>]\<rparr>" 6]
  by (force simp: demo_leader_b_def due_def retry_entry_def to_int32_small list_all2_Cons1)

section \<open>Well-formed partitions\<close>

text \<open>A partition is filed under its own topic and number; its index has one entry per offset, filed under that offset, with a size that
  fits into 32 bits.\<close>

definition tp_wf :: "string \<Rightarrow> TopicPartition \<Rightarrow> bool" where
  "tp_wf key tp \<longleftrightarrow> key = tp_key (tp_Topic tp) (tp_Partition tp) \<and> gm_ok (tp_index tp) \<and>
     (\<forall>k e. map_of (tp_index tp) k = Some e \<longrightarrow> ie_Offset e = k \<and> - (2 ^ 31) \<le> ie_Size e \<and> ie_Size e < 2 ^ 31)"

definition topics_wf :: "Broker \<Rightarrow> bool" where
  "topics_wf b \<longleftrightarrow> gm_ok (b_topics b) \<and> (\<forall>key tp. map_of (b_topics b) key = Some tp \<longrightarrow> tp_wf key tp)"

lemma to_int32_range: "- (2 ^ 31) \<le> to_int32 i \<and> to_int32 i < 2 ^ 31"
  using to_u_bound [of 32 i] by (auto simp: to_int32_def to_s_def Let_def)

lemma topics_wf_put: "topics_wf b \<Longrightarrow> tp_wf key tp \<Longrightarrow> topics_wf (b\<lparr>b_topics := put key tp (b_topics b)\<rparr>)"
  by (auto simp: topics_wf_def gm_ok_put split: if_splits)

lemma topics_wfD: "topics_wf b \<Longrightarrow> map_of (b_topics b) key = Some tp \<Longrightarrow> tp_wf key tp"
  by (simp add: topics_wf_def)

lemma tp_wf_Put:
  assumes "tp_wf key tp"
  shows "tp_wf key (tp\<lparr>commitLog := cl\<rparr>)" "tp_wf key (tp\<lparr>commitLog := cl, tp_index := idx_Put off (to_int32 sz) ts (tp_index tp)\<rparr>)"
  using assms to_int32_range [of sz] by (auto simp: tp_wf_def idx_Put_def gm_ok_put split: if_splits)

lemma apply_entry_wf:
  assumes "topics_wf b" and "apply_entry opened e entry b = Ret b'"
  shows "topics_wf b'"
proof -
  let ?k = "tp_key (le_Topic entry) (le_Partition entry)"
  obtain tp b1 where g: "getOrCreateTopicPartition opened (le_Topic entry) (le_Partition entry) b = Ret (tp, b1)"
    using assms(2) by (cases "getOrCreateTopicPartition opened (le_Topic entry) (le_Partition entry) b") (auto simp: apply_entry_def)
  have "tp_wf ?k \<lparr>tp_Topic = le_Topic entry, tp_Partition = le_Partition entry, commitLog = cl, tp_index = OpenSparseIndex\<rparr>" for cl
    by (simp add: tp_wf_def OpenSparseIndex_def)
  then have "topics_wf b1 \<and> tp_wf ?k tp" using assms(1) g
    by (auto simp: getOrCreateTopicPartition_def topics_wf_put Let_def dest: topics_wfD split: option.splits)
  moreover obtain io n1 n2 res cl where "e = (io, n1, n2)" "Append io n1 (le_Data entry) (commitLog tp) = (res, cl)"
    by (metis prod_cases3 surj_pair)
  ultimately show ?thesis using assms(2) g by (cases res) (auto simp: apply_entry_def topics_wf_put tp_wf_Put)
qed

lemma apply_loop_wf: "topics_wf b \<Longrightarrow> apply_loop opened env i batch b = Ret b' \<Longrightarrow> topics_wf b'"
proof (induction batch arbitrary: i b)
  case (Cons e batch)
  then obtain b1 where "apply_entry opened (env i) e b = Ret b1" "apply_loop opened env (i + 1) batch b1 = Ret b'"
    by (cases "apply_entry opened (env i) e b") auto
  with Cons apply_entry_wf show ?case by blast
qed simp

lemma apply_event_wf: "topics_wf b \<Longrightarrow> apply_event_step opened env ev (batch, b) = Ret (batch', b') \<Longrightarrow> topics_wf b'"
  by (cases ev) (auto simp: apply_event_step_def applyBatch_def Let_def go_bind_Ret_iff split: if_splits intro: apply_loop_wf)

lemma handleApply_wf: "topics_wf b \<Longrightarrow> handleApply opened env i evs (batch, b) = Ret (batch', b') \<Longrightarrow> topics_wf b'"
proof (induction evs arbitrary: i batch b)
  case (Cons ev evs)
  then obtain batch1 b1 where s: "apply_event_step opened (env i) ev (batch, b) = Ret (batch1, b1)"
    by (cases "apply_event_step opened (env i) ev (batch, b)") auto
  have k: "topics_wf b1" using apply_event_wf [OF Cons.prems(1) s] .
  show ?case using Cons.prems(2) s Cons.IH [OF k, of "i + 1" batch1] k by (cases ev) auto
qed simp

lemma topics_wf_empty: "b_topics b = [] \<Longrightarrow> topics_wf b"
  by (simp add: topics_wf_def)

section \<open>Acknowledgements and delayed messages\<close>

lemma no_dash_no_key:
  assumes "topics_wf b" and "CHR ''-'' \<notin> set topic"
  shows "\<not> has (b_topics b) topic"
proof
  assume "has (b_topics b) topic"
  then obtain tp where "map_of (b_topics b) topic = Some tp" by blast
  then have "topic = tp_key (tp_Topic tp) (tp_Partition tp)" using topics_wfD [OF assms(1)] by (simp add: tp_wf_def)
  then have "CHR ''-'' \<in> set topic" by (simp add: tp_key_def)
  with assms(2) show False by simp
qed

text \<open>A negative acknowledgement and a delayed message are looked up under the name of the topic alone, under which there is no partition: whatever
  was applied, for a topic without a hyphen the consumer that rejects a message gets an error and nothing is queued for retry, and a delayed message is
  dropped.\<close>

theorem nack_and_delayed_dropped:
  assumes "b_topics b0 = []" and "handleApply opened env 0 evs ([], b0) = Ret (batch, b)" and "CHR ''-'' \<notin> set topic"
    and "9 \<le> length data" and "data ! 8 \<noteq> 0" and "dispatchCh (timeWheel b) = msg # msgs" and "dm_Topic msg = topic"
  shows "handleTCPAck now topic part data b = Ret ([Magic, RespError], b)
    \<and> processDelayed b = Ret (b\<lparr>timeWheel := (timeWheel b)\<lparr>dispatchCh := msgs\<rparr>\<rparr>)"
proof -
  have "topics_wf b" using topics_wf_empty [OF assms(1)] assms(2) by (rule handleApply_wf)
  then have "\<not> has (b_topics b) topic" using assms(3) by (rule no_dash_no_key)
  then show ?thesis using assms(4-7)
    by (simp add: handleTCPAck_def processDelayed_def Let_def sendResponse_def RespError_def RespSuccess_def RespRedirect_def)
qed

theorem nack_and_delayed_dropped_witness:
  "\<exists>b wheel msg. handleApply (\<lambda>k. Some ([], [])) demo_clock 0 (demo_events @ [ApplyTimer]) ([], demo_b\<lparr>timeWheel := wheel\<rparr>) = Ret ([], b)
     \<and> dm_Data msg = [9] \<and> dispatchCh (timeWheel b) = [msg]
     \<and> handleTCPAck 0 ''t'' 0 (replicate 8 0 @ [1, 0, 7]) b = Ret ([Magic, RespError], b)
     \<and> processDelayed b = Ret (b\<lparr>timeWheel := (timeWheel b)\<lparr>dispatchCh := []\<rparr>\<rparr>)"
proof -
  let ?msg = "\<lparr>dm_Topic = ''t'', dm_Partition = 0, dm_Data = [9], DeliveryAt = 0\<rparr>"
  let ?wheel = "(timeWheel demo_b)\<lparr>dispatchCh := [?msg]\<rparr>"
  let ?b0 = "demo_b\<lparr>timeWheel := ?wheel\<rparr>"
  have empty: "b_topics ?b0 = []" by (simp add: demo_b_def broker_struct_def)
  then have "\<forall>k. part_holds ?b0 k []" by (simp add: part_holds_empty)
  from handleApply_holds [where D = "\<lambda>k. []", OF this _ demo_entries(4) _ demo_entries(3), of "\<lambda>k. Some ([], [])" "[]" ApplyTimer 0]
  obtain ts where h: "handleApply (\<lambda>k. Some ([], [])) demo_clock 0 (demo_events @ [ApplyTimer]) ([], ?b0) = Ret ([], ?b0\<lparr>b_topics := ts\<rparr>)"
    using demo_entries(2) by auto
  show ?thesis
    using nack_and_delayed_dropped [OF empty h, where topic = "''t''" and data = "replicate 8 0 @ [1, 0, 7]" and msg = ?msg and msgs = "[]"
        and now = 0 and part = 0] h
    by (intro exI [of _ "?b0\<lparr>b_topics := ts\<rparr>"] exI [of _ ?wheel] exI [of _ ?msg]) (simp add: nth_append)
qed

section \<open>Cleanup\<close>

lemma itoa_last: "is_digit (last (itoa i))"
  using nat_str_digits [OF last_in_set, of "nat i"] nat_str_digits [OF last_in_set, of "nat (- i)"] by (simp add: itoa_def)

lemma cleanup_partition_same: "cleanup_partition now mtime tp b = b"
proof -
  have "log_path key \<noteq> segmentDir tp" for key
  proof
    assume "log_path key = segmentDir tp"
    then have "last (log_path key) = last (segmentDir tp)" by (rule arg_cong)
    moreover have "last (log_path key) = CHR ''g''" "last (segmentDir tp) = last (itoa (tp_Partition tp))"
      by (simp_all add: log_path_def segmentDir_def tp_key_def)
    ultimately have "is_digit (CHR ''g'')" using itoa_last [of "tp_Partition tp"] by simp
    then show False by (simp add: is_digit_def)
  qed
  then have "find (\<lambda>(key, tp'). log_path key = segmentDir tp) (b_topics b) = None"
    unfolding find_None_iff by auto
  then show ?thesis by (simp add: cleanup_partition_def)
qed

text \<open>The cleanup looks for the segments of a partition in a directory that is never the one the log of a partition is kept in: it
  never removes anything, whatever the retention and the age of the segments.\<close>

theorem cleanup_removes_nothing: "cleanupOldSegments ord now mtime b = b"
proof -
  have "foldl (\<lambda>b (key, tp). b) b xs = b" for xs :: "(string \<times> TopicPartition) list" by (induction xs) auto
  then show ?thesis by (simp add: cleanupOldSegments_def cleanup_partition_same)
qed

section \<open>Connections\<close>

text \<open>The requests of a connection, one after the other.\<close>

fun serve :: "(nat \<Rightarrow> client_env) \<Rightarrow> nat \<Rightarrow> frame list \<Rightarrow> Broker \<Rightarrow> (byte list \<times> Broker) go" where
  "serve env i [] b = Ret ([], b)"
| "serve env i (f # fs) b =
     go_bind (dispatch (env i) f b) (\<lambda>(out, b1). go_bind (serve env (i + 1) fs b1) (\<lambda>(outs, b2). Ret (out @ outs, b2)))"

lemma handleClient_frames:
  assumes "list_all frame_ok fs" and "read_frame rest = Inl err"
  shows "handleClient env i (concat (map write_frame fs) @ rest) b = serve env i fs b"
  using assms(1)
proof (induction fs arbitrary: i b)
  case Nil
  then show ?case using assms(2) by (simp add: handleClient.simps)
next
  case (Cons f fs)
  then have "read_frame (concat (map write_frame (f # fs)) @ rest) = Inr (f, concat (map write_frame fs) @ rest)"
    using read_write_frame [of f] by simp
  with Cons show ?case by (subst handleClient.simps) simp
qed

definition ack_frame :: frame where
  "ack_frame = \<lparr>fr_cmd = CmdAck, fr_topic = ''t'', fr_partition = 0, fr_data = replicate 9 0\<rparr>"

lemma ack_frame_ok: "frame_ok ack_frame"
  by (simp add: frame_ok_def ack_frame_def)

lemma dispatch_ack: "dispatch env ack_frame b = Ret (sendResponse RespSuccess [] 0, b)"
  by (simp add: ack_frame_def dispatch_def handleTCPAck_def Let_def CmdAck_def CmdProduce_def CmdFetch_def
      CmdJoinGroup_def CmdHeartbeat_def CmdCommitOffset_def CmdLeaveGroup_def)

lemma no_frame: "read_frame [] = Inl Eof"
  by (simp add: read_frame_def ReadFull_def)

lemma handleClient_one: "frame_ok f \<Longrightarrow> handleClient env i (write_frame f) b = dispatch (env i) f b"
  using handleClient_frames [of "[f]" "[]" Eof env i b] by (cases "dispatch (env i) f b") (auto simp: no_frame)

text \<open>C18. \<open>handleClient\<close> on the bytes of any number of requests, followed by an incomplete one, does what serving the requests one after the other
  does: requests may be pipelined, and the answers come in their order.\<close>

theorem handleClient_serves_frames:
  assumes "list_all frame_ok fs" and "read_frame rest = Inl err"
  shows "handleClient env i (concat (map write_frame fs) @ rest) b = serve env i fs b"
  using assms by (rule handleClient_frames)

theorem handleClient_serves_frames_witness:
  "\<forall>env. handleClient env 0 (concat (map write_frame [ack_frame, ack_frame]) @ []) demo_b
     = Ret (sendResponse RespSuccess [] 0 @ sendResponse RespSuccess [] 0, demo_b)"
  using handleClient_serves_frames [of "[ack_frame, ack_frame]" "[]" Eof _ 0 demo_b]
  by (simp add: dispatch_ack ack_frame_ok read_frame_def ReadFull_def)

end
