(* ===== verification/Clients.thy ===== *)
theory Clients
  imports Wire
begin

text \<open>
  The sample clients that speak the TCP protocol: \<^verbatim>\<open>samples/go-producer/main.go\<close>,
  \<^verbatim>\<open>samples/go-consumer/main.go\<close> and \<^verbatim>\<open>samples/go-dlq-consumer/main.go\<close>. What a client writes is a list of byte
  strings, one for each call of \<open>Write\<close>; what it reads is the stream of the connection. Errors are the strings of the code, since
  \<open>isRedirectError\<close> looks at them. Shown: the client side of the round trips with the broker, how redirects are recognised, how the producer counts, and which
  offset a consumer commits.
\<close>

section \<open>Producer\<close>

definition hex_digit :: "nat \<Rightarrow> char" where
  "hex_digit d = ''0123456789abcdef'' ! d"

text \<open>The verb \<open>%x\<close> for a byte.\<close>

definition hex_byte :: "byte \<Rightarrow> string" where
  "hex_byte b = (if unat b < 16 then [hex_digit (unat b)] else [hex_digit (unat b div 16), hex_digit (unat b mod 16)])"

text \<open>The three writes of \<open>sendMessage\<close>.\<close>

definition sendMessage_writes :: "string \<Rightarrow> int \<Rightarrow> byte list \<Rightarrow> int \<Rightarrow> byte list list" where
  "sendMessage_writes topic part msg acks =
     [frame_header CmdProduce (length topic) part (length msg + 1), bytes_of topic, of_int acks # msg]"

text \<open>The rest of \<open>sendMessage\<close> on the bytes that \<open>Read\<close> returned; \<open>None\<close> is the nil error.\<close>

definition sendMessage_reply :: "byte list \<Rightarrow> string option" where
  "sendMessage_reply respBuf =
     (let n = length respBuf
      in if n < 2 then Some ''invalid response''
         else if respBuf ! 0 \<noteq> Magic then Some (''invalid magic byte: '' @ hex_byte (respBuf ! 0))
         else if respBuf ! 1 = RespSuccess then None
         else if respBuf ! 1 = RespRedirect
         then if n < 3 then Some ''redirect: no leader address''
              else let leaderLen = unat (respBuf ! 2)
                   in if n < 3 + leaderLen then Some ''redirect: invalid leader address length''
                      else Some (''redirect:'' @ string_of (take leaderLen (drop 3 respBuf)))
         else if respBuf ! 1 = RespError then Some ''server error''
         else Some (''unknown response status: '' @ hex_byte (respBuf ! 1)))"

definition isRedirectError :: "string option \<Rightarrow> string \<times> bool" where
  "isRedirectError err =
     (case err of
        None \<Rightarrow> ([], False)
      | Some msg \<Rightarrow> if 9 < length msg \<and> take 9 msg = ''redirect:'' then (drop 9 msg, True) else ([], False))"

record Response =
  success :: bool
  redirect :: bool
  leaderAddr :: string
  resp_err :: "string option"

text \<open>What a goroutine of a batch records.\<close>

definition response_of :: "string option \<Rightarrow> Response" where
  "response_of err =
     (case err of
        None \<Rightarrow> \<lparr>success = True, redirect = False, leaderAddr = [], resp_err = None\<rparr>
      | Some e \<Rightarrow>
          (case isRedirectError err of
             (redirectAddr, isRedirect) \<Rightarrow>
               if isRedirect \<and> redirectAddr \<noteq> []
               then \<lparr>success = False, redirect = True, leaderAddr = redirectAddr, resp_err = None\<rparr>
               else \<lparr>success = False, redirect = False, leaderAddr = [], resp_err = err\<rparr>))"

record ProducerStats =
  st_success :: nat
  st_failed :: nat
  st_redirects :: nat
  st_conn :: bool

text \<open>One round of the loop of \<open>main\<close> after the replies \<open>errs\<close> of its messages: \<open>connect_ok\<close> is the outcome of \<open>connect\<close>,
  \<open>resend j\<close> the error of sending message \<open>j\<close> again. With a nil connection the first \<open>Write\<close> panics.\<close>

definition producer_batch ::
    "string option list \<Rightarrow> bool \<Rightarrow> (nat \<Rightarrow> string option) \<Rightarrow> ProducerStats \<Rightarrow> ProducerStats go" where
  "producer_batch errs connect_ok resend st =
     (if \<not> st_conn st \<and> errs \<noteq> [] then Panic
      else let responses = map response_of errs
           in if \<exists>resp \<in> set responses. redirect resp
              then let st1 = st\<lparr>st_redirects := st_redirects st + 1\<rparr>
                   in if \<not> connect_ok
                      then Ret (st1\<lparr>st_conn := False,
                                    st_failed := st_failed st + length (filter (\<lambda>resp. \<not> success resp) responses)\<rparr>)
                      else let oks = map (\<lambda>j. success (responses ! j) \<or> resend j = None) [0..<length responses]
                           in Ret (st1\<lparr>st_success := st_success st + length (filter (\<lambda>b. b) oks),
                                       st_failed := st_failed st + length (filter (\<lambda>b. \<not> b) oks)\<rparr>)
              else Ret (st\<lparr>st_success := st_success st + length (filter success responses),
                           st_failed := st_failed st + length (filter (\<lambda>resp. \<not> success resp) responses)\<rparr>))"

text \<open>The leader a batch turns to: the address of the first redirect.\<close>

definition new_leader :: "string option list \<Rightarrow> string option" where
  "new_leader errs = map_option leaderAddr (find redirect (map response_of errs))"

section \<open>Consumers\<close>

record FetchedMessage =
  fm_Offset :: int
  fm_Timestamp :: int
  fm_Value :: "byte list"

text \<open>The two parts of a fetch request that \<open>fetch\<close> writes, and the request as a frame.\<close>

definition fetch_data :: "int \<Rightarrow> int \<Rightarrow> byte list" where
  "fetch_data offset maxBytes = put_be 8 (to_u 64 offset) @ put_be 4 (to_u 32 maxBytes)"

definition fetch_writes :: "string \<Rightarrow> int \<Rightarrow> int \<Rightarrow> int \<Rightarrow> byte list list" where
  "fetch_writes topic part offset maxBytes =
     [frame_header CmdFetch (length topic) part (length (fetch_data offset maxBytes)), bytes_of topic, fetch_data offset maxBytes]"

datatype fetch_error = FEof | FError string

definition read_entry :: "byte list \<Rightarrow> fetch_error + FetchedMessage \<times> byte list" where
  "read_entry bs =
     (case ReadFull 20 bs of
        None \<Rightarrow> Inl FEof
      | Some (msgHeader, bs1) \<Rightarrow>
          let dataLen = get_be (take 4 (drop 16 msgHeader))
          in case ReadFull dataLen bs1 of
               None \<Rightarrow> Inl FEof
             | Some (msgData, bs2) \<Rightarrow>
                 Inr (\<lparr>fm_Offset = to_s 64 (get_be (take 8 msgHeader)),
                       fm_Timestamp = to_s 64 (get_be (take 8 (drop 8 msgHeader))), fm_Value = msgData\<rparr>, bs2))"

text \<open>\<open>fetch\<close> after its writes: messages, high watermark, error, the stream that is left, and whether
  the go-consumer drops the connection (the go-dlq-consumer never does). For an unknown status the
  go-dlq-consumer reports the status (\<open>shown\<close> is the identity), the go-consumer the second byte of its own request.\<close>

record FetchResult =
  fe_messages :: "FetchedMessage list"
  fe_highWatermark :: int
  fe_err :: "fetch_error option"
  fe_rest :: "byte list"
  fe_reset :: bool

definition fetch_fail :: "fetch_error \<Rightarrow> byte list \<Rightarrow> bool \<Rightarrow> FetchResult" where
  "fetch_fail e bs reset = \<lparr>fe_messages = [], fe_highWatermark = 0, fe_err = Some e, fe_rest = bs, fe_reset = reset\<rparr>"

definition fetch_reply :: "(byte \<Rightarrow> byte) \<Rightarrow> byte list \<Rightarrow> FetchResult" where
  "fetch_reply shown bs =
     (case ReadFull 14 bs of
        None \<Rightarrow> fetch_fail FEof bs True
      | Some (respHeader, bs1) \<Rightarrow>
          if respHeader ! 0 \<noteq> Magic then fetch_fail (FError (''invalid magic byte: '' @ hex_byte (respHeader ! 0))) bs1 False
          else if respHeader ! 1 = RespSuccess
          then let highWatermark = to_s 64 (get_be (take 8 (drop 2 respHeader)));
                   msgCount = get_be (take 4 (drop 10 respHeader));
                   (messages, err, rest) = read_many read_entry msgCount bs1
               in \<lparr>fe_messages = messages, fe_highWatermark = highWatermark, fe_err = err, fe_rest = rest, fe_reset = (err \<noteq> None)\<rparr>
          else if respHeader ! 1 = RespRedirect
          then (case ReadFull 1 bs1 of
                  None \<Rightarrow> fetch_fail (FError ''redirect: failed to read leader length'') bs1 True
                | Some (leaderLen, bs2) \<Rightarrow>
                    (case ReadFull (unat (leaderLen ! 0)) bs2 of
                       None \<Rightarrow> fetch_fail (FError ''redirect: failed to read leader address'') bs2 True
                     | Some (leader, bs3) \<Rightarrow> fetch_fail (FError (''redirect:'' @ string_of leader)) bs3 True))
          else if respHeader ! 1 = RespError then fetch_fail (FError ''server error'') bs1 False
          else fetch_fail (FError (''unknown response status: '' @ hex_byte (shown (respHeader ! 1)))) bs1 False)"

definition consumer_fetch :: "byte list \<Rightarrow> FetchResult" where
  "consumer_fetch = fetch_reply (\<lambda>status. CmdFetch)"

definition dlq_fetch :: "byte list \<Rightarrow> FetchResult" where
  "dlq_fetch = fetch_reply (\<lambda>status. status)"

record Consumer =
  c_nameserverURL :: string
  c_groupID :: string
  c_clientID :: string
  c_topic :: string
  c_assignments :: "int list"
  c_offsets :: "(int, int) gomap"
  c_connCache :: "(int, nat) gomap"

definition NewConsumer :: "string \<Rightarrow> string \<Rightarrow> string \<Rightarrow> string \<Rightarrow> Consumer" where
  "NewConsumer url groupID clientID topic =
     \<lparr>c_nameserverURL = url, c_groupID = groupID, c_clientID = clientID, c_topic = topic,
      c_assignments = [], c_offsets = [], c_connCache = []\<rparr>"

text \<open>An answer of the name server: \<open>None\<close> if the request failed, otherwise the status code and the decoded body,
  if it could be decoded.\<close>

type_synonym 'a answer = "(int \<times> 'a option) option"

definition answer_ok :: "'a answer \<Rightarrow> 'a option" where
  "answer_ok resp = (case resp of Some (status, body) \<Rightarrow> (if status = 200 then body else None) | None \<Rightarrow> None)"

text \<open>\<open>getOffset\<close> and \<open>getLeader\<close> on their answers; \<open>None\<close> is an error.\<close>

definition c_getOffset :: "int answer \<Rightarrow> int option" where
  "c_getOffset resp = answer_ok resp"

definition getLeader :: "string answer \<Rightarrow> string option" where
  "getLeader resp = answer_ok resp"

definition c_commitOffset :: "unit answer \<Rightarrow> bool" where
  "c_commitOffset resp = (case resp of None \<Rightarrow> False | Some (status, body) \<Rightarrow> status = 200)"

text \<open>\<open>offset p\<close> is the answer for partition \<open>p\<close>; after an error the consumer starts at zero.\<close>

definition JoinGroup :: "int list answer \<Rightarrow> (int \<Rightarrow> int answer) \<Rightarrow> Consumer \<Rightarrow> bool \<times> Consumer" where
  "JoinGroup resp offset c =
     (case answer_ok resp of
        None \<Rightarrow> (False, c)
      | Some assignments \<Rightarrow>
          let ps = sort assignments;
              start = (\<lambda>p. case c_getOffset (offset p) of None \<Rightarrow> 0 | Some off \<Rightarrow> off)
          in (True, c\<lparr>c_assignments := ps, c_offsets := foldl (\<lambda>m p. put p (start p) m) (c_offsets c) ps\<rparr>))"

text \<open>\<open>dial\<close> is the connection that \<open>net.Dial\<close> makes, if it does.\<close>

definition getConn :: "int \<Rightarrow> string answer \<Rightarrow> (string \<Rightarrow> nat option) \<Rightarrow> Consumer \<Rightarrow> nat option \<times> Consumer" where
  "getConn p route dial c =
     (case map_of (c_connCache c) p of
        Some conn \<Rightarrow> (Some conn, c)
      | None \<Rightarrow>
          (case getLeader route of
             None \<Rightarrow> (None, c)
           | Some leader \<Rightarrow>
               (case dial leader of
                  None \<Rightarrow> (None, c)
                | Some conn \<Rightarrow> (Some conn, c\<lparr>c_connCache := put p conn (c_connCache c)\<rparr>))))"

definition resetConn :: "int \<Rightarrow> Consumer \<Rightarrow> Consumer" where
  "resetConn p c = c\<lparr>c_connCache := del p (c_connCache c)\<rparr>"

text \<open>One round of \<open>consumePartition\<close> on the result of \<open>fetch\<close>: the offset that is committed, if any. A missing key of \<open>offsets\<close>
  reads as zero.\<close>

definition offset_of :: "int \<Rightarrow> Consumer \<Rightarrow> int" where
  "offset_of p c = (case map_of (c_offsets c) p of None \<Rightarrow> 0 | Some off \<Rightarrow> off)"

definition consume_round :: "int \<Rightarrow> FetchResult \<Rightarrow> Consumer \<Rightarrow> int option \<times> Consumer" where
  "consume_round p res c =
     (let c1 = (if fe_reset res then resetConn p c else c)
      in if fe_err res \<noteq> None \<or> fe_messages res = [] then (None, c1)
         else let c2 = foldl (\<lambda>c msg. c\<lparr>c_offsets := put p (fm_Offset msg + 1) (c_offsets c)\<rparr>) c1 (fe_messages res)
              in (Some (offset_of p c2), c2))"

definition consumer_Stop :: "Consumer \<Rightarrow> Consumer" where
  "consumer_Stop c = c\<lparr>c_connCache := []\<rparr>"

text \<open>One round of the go-dlq-consumer: its next offset and the messages it reports.\<close>

definition dlq_round :: "FetchResult \<Rightarrow> int \<Rightarrow> int \<times> FetchedMessage list" where
  "dlq_round res offset =
     (if fe_err res \<noteq> None then (offset, [])
      else (foldl (\<lambda>off msg. fm_Offset msg + 1) offset (fe_messages res), fe_messages res))"

section \<open>Round trips with the broker\<close>

lemma sendMessage_frame:
  "concat (sendMessage_writes topic part msg acks)
   = write_frame \<lparr>fr_cmd = CmdProduce, fr_topic = topic, fr_partition = part, fr_data = of_int acks # msg\<rparr>"
  by (simp add: sendMessage_writes_def write_frame_def)

lemma fetch_frame:
  "concat (fetch_writes topic part offset maxBytes)
   = write_frame \<lparr>fr_cmd = CmdFetch, fr_topic = topic, fr_partition = part, fr_data = fetch_data offset maxBytes\<rparr>"
  by (simp add: fetch_writes_def write_frame_def)

definition fetched :: "Message \<Rightarrow> FetchedMessage" where
  "fetched m = \<lparr>fm_Offset = m_Offset m, fm_Timestamp = m_Timestamp m, fm_Value = m_Value m\<rparr>"

definition entry_ok :: "FetchedMessage \<Rightarrow> bool" where
  "entry_ok m \<longleftrightarrow> int64_range (fm_Offset m) \<and> int64_range (fm_Timestamp m) \<and> length (fm_Value m) < 2 ^ 32"

definition write_entry :: "FetchedMessage \<Rightarrow> byte list" where
  "write_entry m = put_be 8 (to_u 64 (fm_Offset m)) @ put_be 8 (to_u 64 (fm_Timestamp m))
     @ put_be 4 (to_u 32 (int (length (fm_Value m)))) @ fm_Value m"

lemma fetch_entry_write: "fetch_entry m = write_entry (fetched m)"
  by (simp add: fetch_entry_def write_entry_def fetched_def)

lemma read_write_entry:
  assumes "entry_ok m"
  shows "read_entry (write_entry m @ rest) = Inr (m, rest)"
proof -
  let ?h = "put_be 8 (to_u 64 (fm_Offset m)) @ put_be 8 (to_u 64 (fm_Timestamp m)) @ put_be 4 (to_u 32 (int (length (fm_Value m))))"
  have "write_entry m @ rest = ?h @ fm_Value m @ rest" by (simp add: write_entry_def)
  moreover have "length ?h = 20" by (simp del: put_be.simps)
  ultimately have "ReadFull 20 (write_entry m @ rest) = Some (?h, fm_Value m @ rest)" by (metis ReadFull_append)
  then show ?thesis
    using assms be_int64.dec_enc [of "fm_Offset m"] be_int64.dec_enc [of "fm_Timestamp m"] get_len32 [of "length (fm_Value m)"]
    by (simp add: read_entry_def entry_ok_def del: put_be.simps)
qed

interpretation entries: stream_codec write_entry read_entry entry_ok
  by unfold_locales (rule read_write_entry)

section \<open>Properties\<close>

lemma fetch_response_decodes:
  assumes "list_all (\<lambda>m. entry_ok (fetched m)) msgs" and "length msgs < 2 ^ 32" and "int64_range hw"
  shows "consumer_fetch (fetch_response msgs hw @ rest)
    = \<lparr>fe_messages = map fetched msgs, fe_highWatermark = hw, fe_err = None, fe_rest = rest, fe_reset = False\<rparr>"
proof -
  let ?h = "[Magic, RespSuccess] @ put_be 8 (to_u 64 hw) @ put_be 4 (to_u 32 (int (length msgs)))"
  let ?es = "concat (map write_entry (map fetched msgs))"
  have "fetch_response msgs hw @ rest = ?h @ ?es @ rest"
    by (simp add: fetch_response_def fetch_entry_write [abs_def] comp_def)
  moreover have "length ?h = 14" by (simp del: put_be.simps)
  ultimately have h: "ReadFull 14 (fetch_response msgs hw @ rest) = Some (?h, ?es @ rest)" by (metis ReadFull_append)
  have "list_all entry_ok (map fetched msgs)" using assms(1) by (simp add: list_all_iff)
  from entries.read_many_enc [OF this, of rest] be_int64.dec_enc [OF assms(3)] get_len32 [OF assms(2)]
  show ?thesis unfolding consumer_fetch_def fetch_reply_def h
    by (simp add: Let_def del: put_be.simps)
qed

text \<open>A consumer reads from a fetch response exactly the messages and the high watermark that the broker put into it, and leaves the rest of the
  stream alone.\<close>

theorem fetch_response_roundtrip:
  assumes "list_all (\<lambda>m. entry_ok (fetched m)) msgs" and "length msgs < 2 ^ 32" and "int64_range hw"
  shows "consumer_fetch (fetch_response msgs hw @ rest)
    = \<lparr>fe_messages = map fetched msgs, fe_highWatermark = hw, fe_err = None, fe_rest = rest, fe_reset = False\<rparr>"
  using assms by (rule fetch_response_decodes)

theorem fetch_response_roundtrip_witness:
  "consumer_fetch (fetch_response [\<lparr>m_Topic = ''t'', m_Partition = 0, m_Key = [], m_Value = [1, 2], m_Offset = 22, m_Timestamp = 5\<rparr>] 23 @ [])
   = \<lparr>fe_messages = [\<lparr>fm_Offset = 22, fm_Timestamp = 5, fm_Value = [1, 2]\<rparr>], fe_highWatermark = 23, fe_err = None, fe_rest = [], fe_reset = False\<rparr>"
  using fetch_response_roundtrip [of "[\<lparr>m_Topic = ''t'', m_Partition = 0, m_Key = [], m_Value = [1, 2], m_Offset = 22, m_Timestamp = 5\<rparr>]" 23 "[]"]
  by (simp add: entry_ok_def fetched_def int64_range_def)

lemma produce_reply_decodes:
  assumes "leader \<noteq> []" and "length leader < 256"
  shows "sendMessage_reply (sendResponse RespSuccess l off) = None
    \<and> isRedirectError (sendMessage_reply (sendResponse RespError l off)) = ([], False)
    \<and> isRedirectError (sendMessage_reply (sendResponse RespRedirect leader off)) = (leader, True)"
proof -
  have l: "unat (of_nat (length leader) :: byte) = length leader" using assms(2) by (simp add: unat_of_nat)
  have "sendMessage_reply (sendResponse RespRedirect leader off) = Some (''redirect:'' @ leader)"
    using assms by (simp add: sendMessage_reply_def sendResponse_def l Let_def wire_consts)
  then have "isRedirectError (sendMessage_reply (sendResponse RespRedirect leader off)) = (leader, True)"
    using assms(1) by (simp add: isRedirectError_def)
  moreover have "sendMessage_reply (sendResponse RespSuccess l off) = None"
    by (simp add: sendMessage_reply_def sendResponse_def wire_consts del: put_be.simps)
  moreover have "isRedirectError (sendMessage_reply (sendResponse RespError l off)) = ([], False)"
    by (simp add: sendMessage_reply_def sendResponse_def isRedirectError_def wire_consts)
  ultimately show ?thesis by blast
qed

text \<open>The producer understands the broker's answer to a produce request: success, an error, or a redirect, from which it recovers the
  leader's address, if that has between 1 and 255 bytes.\<close>

theorem produce_reply_roundtrip:
  assumes "leader \<noteq> []" and "length leader < 256"
  shows "sendMessage_reply (sendResponse RespSuccess l off) = None
    \<and> isRedirectError (sendMessage_reply (sendResponse RespError l off)) = ([], False)
    \<and> isRedirectError (sendMessage_reply (sendResponse RespRedirect leader off)) = (leader, True)"
  using assms by (rule produce_reply_decodes)

theorem produce_reply_roundtrip_witness:
  "isRedirectError (sendMessage_reply (sendResponse RespRedirect ''h:9092'' 0)) = (''h:9092'', True)"
  using produce_reply_roundtrip [of "''h:9092''" "[]" 0] by simp

text \<open>A redirect without a leader is taken for a redirect to the address \<open>" no leader address"\<close>, the end of the error
  message.\<close>

theorem redirect_without_leader:
  "isRedirectError (sendMessage_reply (sendResponse RespRedirect [] off)) = ('' no leader address'', True)"
  by (simp add: sendMessage_reply_def sendResponse_def isRedirectError_def wire_consts)

text \<open>The broker answers a fetch it cannot serve with two bytes; the consumer waits for fourteen and so never sees the error, unless
  twelve more bytes come.\<close>

theorem fetch_error_not_seen:
  assumes "length rest < 12"
  shows "fe_err (consumer_fetch (sendResponse RespError [] 0 @ rest)) = Some FEof"
  using assms
  by (simp add: consumer_fetch_def fetch_reply_def ReadFull_short sendResponse_def fetch_fail_def wire_consts)

theorem fetch_error_not_seen_witness: "fe_err (consumer_fetch (sendResponse RespError [] 0 @ [])) = Some FEof"
  by (rule fetch_error_not_seen) simp

lemma batch_counts:
  assumes "st_conn st"
  shows "\<exists>st'. producer_batch errs connect_ok resend st = Ret st' \<and>
    (if (\<exists>e \<in> set errs. redirect (response_of e)) \<and> \<not> connect_ok
     then st_success st' = st_success st
       \<and> st_failed st' = st_failed st + length (filter (\<lambda>e. e \<noteq> None) errs)
       \<and> (\<forall>errs' ok' resend'. errs' \<noteq> [] \<longrightarrow> producer_batch errs' ok' resend' st' = Panic)
     else st_success st' + st_failed st' = st_success st + st_failed st + length errs \<and> st_conn st')"
proof -
  let ?rs = "map response_of errs" and ?oks = "map (\<lambda>j. success (map response_of errs ! j) \<or> resend j = None) [0..<length (map response_of errs)]"
  have s: "success (response_of e) \<longleftrightarrow> e = None" for e
    by (auto simp: response_of_def split: option.split prod.split)
  have fails: "length (filter (\<lambda>r. \<not> success r) ?rs) = length (filter (\<lambda>e. e \<noteq> None) errs)"
    by (simp add: filter_map comp_def s)
  have all: "length (filter (\<lambda>b. b) ?oks) + length (filter (\<lambda>b. \<not> b) ?oks) = length errs"
    "length (filter success ?rs) + length (filter (\<lambda>r. \<not> success r) ?rs) = length errs"
    using sum_length_filter_compl [of "\<lambda>b. b" ?oks] sum_length_filter_compl [of success ?rs] by simp_all
  have red: "(\<exists>r \<in> set ?rs. redirect r) \<longleftrightarrow> (\<exists>e \<in> set errs. redirect (response_of e))" by simp
  show ?thesis
  proof (cases "\<exists>e \<in> set errs. redirect (response_of e)")
    case True
    then show ?thesis
      unfolding producer_batch_def Let_def red using assms all(1) fails
      by (cases connect_ok) (simp_all del: length_map add: producer_batch_def)
  next
    case False
    then show ?thesis unfolding producer_batch_def Let_def red using assms all(2) by simp
  qed
qed

text \<open>Over one batch the producer counts every message once, as sent or as failed, unless it is redirected and cannot
  connect: then the messages that were sent are counted nowhere and the next batch panics on the nil connection.\<close>

theorem producer_counts:
  assumes "st_conn st"
  shows "\<exists>st'. producer_batch errs connect_ok resend st = Ret st' \<and>
    (if (\<exists>e \<in> set errs. redirect (response_of e)) \<and> \<not> connect_ok
     then st_success st' = st_success st
       \<and> st_failed st' = st_failed st + length (filter (\<lambda>e. e \<noteq> None) errs)
       \<and> (\<forall>errs' ok' resend'. errs' \<noteq> [] \<longrightarrow> producer_batch errs' ok' resend' st' = Panic)
     else st_success st' + st_failed st' = st_success st + st_failed st + length errs \<and> st_conn st')"
  using assms by (rule batch_counts)

theorem producer_counts_witness:
  "\<exists>st'. producer_batch [None, Some ''redirect:h:1''] False (\<lambda>j. None) \<lparr>st_success = 0, st_failed = 0, st_redirects = 0, st_conn = True\<rparr> = Ret st'
     \<and> st_success st' = 0 \<and> st_failed st' = 1"
  using producer_counts [of "\<lparr>st_success = 0, st_failed = 0, st_redirects = 0, st_conn = True\<rparr>" "[None, Some ''redirect:h:1'']" False "\<lambda>j. None"]
  by (auto simp: response_of_def isRedirectError_def)

text \<open>The goroutines of a batch share one connection and send a frame with three writes. If the writes of two of
  them alternate, the broker takes the first bytes of the second header for the topic of the first message.\<close>

theorem interleaved_writes_corrupt:
  assumes "sendMessage_writes t1 p1 m1 a1 = [h1, b1, d1]" and "sendMessage_writes t2 p2 m2 a2 = [h2, b2, d2]"
    and "t1 \<noteq> []" and "length t1 \<le> 12" and "length m1 < 2 ^ 31"
  shows "\<exists>f rest. read_frame (h1 @ h2 @ b1 @ b2 @ d1 @ d2) = Inr (f, rest) \<and> fr_cmd f = CmdProduce
    \<and> hd (fr_topic f) = char_of (unat Magic)"
proof -
  let ?bs = "h2 @ b1 @ b2 @ d1 @ d2" and ?n = "length t1"
  have h: "h1 = frame_header CmdProduce ?n p1 (length d1)" "h2 = frame_header CmdProduce (length t2) p2 (length d2)"
    "length d1 < 2 ^ 32" "length h2 = 12"
    using assms by (auto simp: sendMessage_writes_def)
  have n: "get_be (put_be 2 (to_u 16 (int ?n))) = ?n" "get_be (put_be 4 (to_u 32 (int (length d1)))) = length d1"
    using assms(4) h(3) by (auto intro!: get_len16 get_len32)
  have r1: "ReadFull ?n ?bs = Some (take ?n h2, drop ?n h2 @ b1 @ b2 @ d1 @ d2)"
    using assms(4) h(4) by (simp add: ReadFull_def)
  obtain fd rest where r2: "ReadFull (length d1) (drop ?n h2 @ b1 @ b2 @ d1 @ d2) = Some (fd, rest)"
    by (simp add: ReadFull_def)
  have "hd (string_of (take ?n h2)) = char_of (unat Magic)"
    using assms(3) by (cases t1) (simp_all add: h(2) frame_header_def string_of_def)
  then show ?thesis
    using r1 r2 by (simp add: read_frame_def h(1) frame_header_fields n Let_def del: put_be.simps)
qed

theorem interleaved_writes_corrupt_witness:
  "\<exists>f rest. read_frame (frame_header CmdProduce 1 0 (Suc 1) @ frame_header CmdProduce 1 0 (Suc 1) @ bytes_of ''t'' @ bytes_of ''t'' @ [1, 8] @ [1, 9])
     = Inr (f, rest) \<and> fr_topic f \<noteq> ''t''"
proof -
  obtain f rest where "read_frame (frame_header CmdProduce 1 0 (Suc 1) @ frame_header CmdProduce 1 0 (Suc 1) @ bytes_of ''t'' @ bytes_of ''t'' @ [1, 8] @ [1, 9])
     = Inr (f, rest)" "hd (fr_topic f) = char_of (unat Magic)"
    using interleaved_writes_corrupt [of "''t''" 0 "[8]" 1 "frame_header CmdProduce 1 0 (Suc 1)" "bytes_of ''t''" "[1, 8]"
        "''t''" 0 "[9]" 1 "frame_header CmdProduce 1 0 (Suc 1)" "bytes_of ''t''" "[1, 9]"]
    by (auto simp: sendMessage_writes_def)
  moreover have "char_of (unat Magic) \<noteq> CHR ''t''" by (simp add: wire_consts char_of_def)
  ultimately show ?thesis by force
qed

lemma foldl_offsets:
  "msgs \<noteq> [] \<Longrightarrow> offset_of p (foldl (\<lambda>c msg. c\<lparr>c_offsets := put p (fm_Offset msg + 1) (c_offsets c)\<rparr>) c msgs) = fm_Offset (last msgs) + 1"
  by (induction msgs arbitrary: c rule: list_nonempty_induct) (simp_all add: offset_of_def)

lemma consume_round_commits:
  "fe_err res = None \<Longrightarrow> fe_messages res \<noteq> [] \<Longrightarrow>
   fst (consume_round p res c) = Some (fm_Offset (last (fe_messages res)) + 1)
   \<and> offset_of p (snd (consume_round p res c)) = fm_Offset (last (fe_messages res)) + 1"
  by (simp add: consume_round_def foldl_offsets Let_def)

end
