(* ===== verification/Consumer_Process.thy ===== *)
theory Consumer_Process
  imports Clients Nameserver
begin

text \<open>
  The sample consumer as a process (\<^verbatim>\<open>samples/go-consumer/main.go\<close>: \<open>heartbeat\<close>, \<open>consumePartition\<close>, \<open>Start\<close>, \<open>main\<close>) against
  the name server's handlers. Shown: what a join tells the consumer is what the name server has assigned; a consumer that gets no partition
  leaves again at once; a running consumer never learns of a rebalance, so that after a second one has joined both read the same partitions.
\<close>

section \<open>Requests of the consumer\<close>

text \<open>The query strings name the fields of the forms; the names are taken to need no escaping, which the consumer does not do.\<close>

definition query :: "(string \<times> string) list \<Rightarrow> request" where
  "query kvs = \<lparr>parsed = True, form = (\<lambda>k. case map_of kvs k of None \<Rightarrow> [] | Some v \<Rightarrow> v)\<rparr>"

definition join_request :: "Consumer \<Rightarrow> request" where
  "join_request c = query [(''group_id'', c_groupID c), (''client_id'', c_clientID c), (''topic'', c_topic c)]"

definition member_request :: "Consumer \<Rightarrow> request" where
  "member_request c = query [(''group_id'', c_groupID c), (''client_id'', c_clientID c)]"

text \<open>The decoded \<open>JoinResponse\<close>; a body of another kind has no assignments.\<close>

definition join_answer :: "response \<Rightarrow> int list answer" where
  "join_answer resp = Some (fst resp, Some (case snd resp of JoinBody g gen c parts t \<Rightarrow> parts | _ \<Rightarrow> []))"

section \<open>The goroutines\<close>

text \<open>\<open>heartbeat\<close>: a request for every tick until the stop channel is closed; the answer is only printed.\<close>

datatype hb_event = HbTick "int option" | HbStop

fun heartbeat_loop :: "hb_event list \<Rightarrow> Consumer \<Rightarrow> request list" where
  "heartbeat_loop [] c = []"
| "heartbeat_loop (HbStop # evs) c = []"
| "heartbeat_loop (HbTick status # evs) c = member_request c # heartbeat_loop evs c"

text \<open>\<open>consumePartition\<close>: rounds until the stop channel is found closed; the offsets it commits.\<close>

datatype round_event = Fetched FetchResult | RoundStop

fun consumePartition :: "int \<Rightarrow> round_event list \<Rightarrow> Consumer \<Rightarrow> int list \<times> Consumer" where
  "consumePartition p [] c = ([], c)"
| "consumePartition p (RoundStop # evs) c = ([], c)"
| "consumePartition p (Fetched res # evs) c =
     (let (committed, c1) = consume_round p res c; (offsets, c2) = consumePartition p evs c1
      in ((case committed of None \<Rightarrow> [] | Some off \<Rightarrow> [off]) @ offsets, c2))"

text \<open>\<open>Start\<close> joins and starts a goroutine for the heartbeats and one for each partition; it returns when those of the partitions have.\<close>

datatype consumer_goroutine = GoHeartbeat | GoConsume int

definition consumer_Start :: "int list answer \<Rightarrow> (int \<Rightarrow> int answer) \<Rightarrow> Consumer \<Rightarrow> consumer_goroutine list \<times> Consumer" where
  "consumer_Start join offset c =
     (case JoinGroup join offset c of
        (False, c1) \<Rightarrow> ([], c1)
      | (True, c1) \<Rightarrow> (GoHeartbeat # map GoConsume (c_assignments c1), c1))"

definition waits :: "consumer_goroutine list \<Rightarrow> bool" where
  "waits gs \<longleftrightarrow> (\<exists>g \<in> set gs. g \<noteq> GoHeartbeat)"

text \<open>\<open>main\<close>. The stop channel is closed by the deferred \<open>Stop\<close>, after \<open>Start\<close> has returned; so \<open>main\<close> ends, and leaves the group, if
  there is nothing to wait for, and otherwise goes on until it is killed.\<close>

datatype consumer_outcome = Left Consumer request | Consuming Consumer "consumer_goroutine list"

definition consumer_id :: "time \<Rightarrow> string \<Rightarrow> string" where
  "consumer_id now clientID = (if clientID = [] then ''consumer-'' @ itoa (UnixNano now) else clientID)"

definition consumer_main ::
    "time \<Rightarrow> (Consumer \<Rightarrow> int list answer) \<Rightarrow> (int \<Rightarrow> int answer) \<Rightarrow> string \<Rightarrow> string \<Rightarrow> string \<Rightarrow> string \<Rightarrow> consumer_outcome" where
  "consumer_main now join offset url groupID clientID topic =
     (let c = NewConsumer url groupID (consumer_id now clientID) topic;
          (gs, c1) = consumer_Start (join c) offset c
      in if waits gs then Consuming c1 gs else Left (consumer_Stop c1) (member_request c1))"

text \<open>What happens to a running consumer: heartbeats and rounds of its goroutines, in any order.\<close>

datatype consumer_event = Beat "int option" | Round int FetchResult

fun consumer_step :: "Consumer \<Rightarrow> consumer_event \<Rightarrow> Consumer" where
  "consumer_step c (Beat status) = c"
| "consumer_step c (Round p res) = snd (consume_round p res c)"

lemma consume_round_keeps: "c_assignments (snd (consume_round p res c)) = c_assignments c"
proof -
  have "c_assignments (foldl (\<lambda>c msg. c\<lparr>c_offsets := put p (fm_Offset msg + 1) (c_offsets c)\<rparr>) c msgs) = c_assignments c" for c :: Consumer and msgs :: "FetchedMessage list"
    by (induction msgs arbitrary: c) simp_all
  then show ?thesis by (simp add: consume_round_def Let_def resetConn_def)
qed

lemma consumer_run_keeps: "c_assignments (foldl consumer_step c evs) = c_assignments c"
proof (induction evs rule: rev_induct)
  case (snoc e evs)
  then show ?case by (cases e) (simp_all add: consume_round_keeps)
qed simp

section \<open>What a join answers\<close>

text \<open>The group after a join is \<open>rebalance\<close> of the group with the member, and the answer lists what it assigns to the member.\<close>

lemma join_member_answer:
  assumes "join_member g c t now grp n = ((status, body), n')" and "cg_Topic grp = t" and "gm_ok (Members grp)" and "distinct (cg_Partitions grp)"
  obtains grp' gen where "status = 200" and "map_of (consumerGroups n') g = Some grp'" and "group_ok grp'"
    and "body = JoinBody g gen c (sort (map fst (Assignments (the (map_of (Members grp') c))))) t"
    and "fst ` set (Members grp') = insert c (fst ` set (Members grp))" and "cg_Partitions grp' = cg_Partitions grp" and "cg_Topic grp' = t"
    and "n' = n\<lparr>consumerGroups := put g grp' (consumerGroups n)\<rparr>"
proof -
  define m where "m = (case map_of (Members grp) c of None \<Rightarrow> \<lparr>ClientID = c, Heartbeat = now, Assignments = []\<rparr> | Some m \<Rightarrow> m\<lparr>Heartbeat := now\<rparr>)"
  let ?grp = "grp\<lparr>Members := put c m (Members grp)\<rparr>"
  have ne: "put c m (Members grp) \<noteq> []" by (cases "Members grp") auto
  have ok: "group_ok (rebalance ?grp)" using rebalance_ok [of ?grp] ne assms(3,4) by simp
  have k: "fst ` set (Members (rebalance ?grp)) = insert c (fst ` set (Members grp))"
    unfolding list.set_map [symmetric] rebalance_keys by (simp add: dom_update)
  have groups: "doRebalance g (put g ?grp (consumerGroups n)) = put g (rebalance ?grp) (consumerGroups n)"
    by (simp add: doRebalance_def update_last)
  from assms(1,2) show thesis
    by (intro that [of "rebalance ?grp" "Generation (rebalance ?grp)"])
      (auto simp: join_member_def Let_def m_def [symmetric] groups ok k)
qed

text \<open>The answer to the join of a consumer that is told 200: its partitions are those the name server now has for it.\<close>

lemma Consumer_join:
  assumes "nsv_inv n" and "handleJoinGroup now (join_request c) n = ((200, body), n')"
  obtains grp' where "map_of (consumerGroups n') (c_groupID c) = Some grp'" and "group_ok grp'"
    and "set (c_assignments (snd (JoinGroup (join_answer (200, body)) offset c))) = {p. assigned grp' (c_clientID c) p}"
    and "fst (JoinGroup (join_answer (200, body)) offset c)"
    and "fst ` set (Members grp') = insert (c_clientID c)
          (case map_of (consumerGroups n) (c_groupID c) of None \<Rightarrow> {} | Some grp \<Rightarrow> fst ` set (Members grp))"
    and "\<exists>info. map_of (ns_topics n) (c_topic c) = Some info \<and> cg_Partitions grp' = sort (map fst (Partitions info))"
    and "ns_topics n' = ns_topics n"
proof -
  let ?g = "c_groupID c" and ?c = "c_clientID c" and ?t = "c_topic c"
  have f: "form (join_request c) ''group_id'' = ?g" "form (join_request c) ''client_id'' = ?c" "form (join_request c) ''topic'' = ?t"
    "parsed (join_request c)" by (simp_all add: join_request_def query_def)
  have ti: "topics_inv (ns_topics n)" and gi: "groups_inv (ns_topics n) (consumerGroups n)" using assms(1) by (simp_all add: nsv_inv_def)
  obtain grp n0 where jm: "join_member ?g ?c ?t now grp n0 = ((200, body), n')" and n0: "ns_topics n0 = ns_topics n"
    and ms: "fst ` set (Members grp) = (case map_of (consumerGroups n) ?g of None \<Rightarrow> {} | Some grp \<Rightarrow> fst ` set (Members grp))"
    and gm: "gm_ok (Members grp)" and sub: "subscribed (ns_topics n) ?g grp"
  proof (cases "map_of (consumerGroups n) ?g")
    case None
    then obtain info where i: "map_of (ns_topics n) ?t = Some info"
      using assms(2) by (auto simp: handleJoinGroup_def f Let_def split: if_splits option.splits)
    let ?n = "n\<lparr>consumerGroups := put ?g (new_group ?g ?t info) (consumerGroups n)\<rparr>"
    show thesis
      by (rule that [of "new_group ?g ?t info" ?n])
        (use assms(2) None i in \<open>auto simp: handleJoinGroup_def f Let_def new_group_def subscribed_def split: if_splits\<close>)
  next
    case (Some grp)
    then have "group_ok grp" "subscribed (ns_topics n) ?g grp" using groups_inv_lookup [OF gi] by simp_all
    then show thesis
      by (intro that [of grp n]) (use assms(2) Some in \<open>auto simp: handleJoinGroup_def f Let_def group_ok_def split: if_splits\<close>)
  qed
  have t: "cg_Topic grp = ?t" using jm by (auto simp: join_member_def split: if_splits)
  obtain grp' gen where r: "map_of (consumerGroups n') ?g = Some grp'" "group_ok grp'"
      "body = JoinBody ?g gen ?c (sort (map fst (Assignments (the (map_of (Members grp') ?c))))) ?t"
      "fst ` set (Members grp') = insert ?c (fst ` set (Members grp))" "cg_Partitions grp' = cg_Partitions grp"
      "n' = n0\<lparr>consumerGroups := put ?g grp' (consumerGroups n0)\<rparr>"
    by (rule join_member_answer [OF jm t gm subscribed_distinct [OF ti sub]])
  have "?c \<in> fst ` set (Members grp')" using r(4) by simp
  then obtain m where "map_of (Members grp') ?c = Some m" by (metis map_of_eq_None_iff not_None_eq)
  then have "{p. assigned grp' ?c p} = fst ` set (Assignments m)" and m: "the (map_of (Members grp') ?c) = m"
    by (simp_all add: assigned_def map_of_eq_None_iff)
  then have as: "set (c_assignments (snd (JoinGroup (join_answer (200, body)) offset c))) = {p. assigned grp' ?c p}"
    by (simp add: JoinGroup_def join_answer_def answer_ok_def r(3) Let_def)
  have "\<exists>info. map_of (ns_topics n) ?t = Some info \<and> cg_Partitions grp' = sort (map fst (Partitions info))"
    using sub t r(5) by (auto simp: subscribed_def)
  with r ms as n0 show thesis
    by (intro that [of grp']) (simp_all add: JoinGroup_def join_answer_def answer_ok_def Let_def)
qed

lemma assigned_member: "assigned grp c p \<Longrightarrow> c \<in> fst ` set (Members grp)"
  by (auto simp: assigned_def dest: map_of_SomeD intro: rev_image_eqI)

lemma assigned_partition:
  assumes "group_ok grp" and "assigned grp c p"
  shows "p \<in> set (cg_Partitions grp)"
proof -
  have "c \<in> set (member_names grp)" using assigned_member [OF assms(2)] by simp
  then obtain i where "i < length (Members grp)" "c = member_names grp ! i" using in_set_conv_nth [of c "member_names grp"] by auto
  then have "p \<in> set (share (cg_Partitions grp) (length (Members grp)) i)" using assigned_share [OF assms(1)] assms(2) by simp
  then show ?thesis by (auto simp: share_def dest: in_set_takeD in_set_dropD)
qed

text \<open>In a group of \<open>k\<close> members with at least \<open>k\<close> partitions everyone has one.\<close>

lemma assigned_some:
  assumes "group_ok grp" and "c \<in> fst ` set (Members grp)" and "length (Members grp) \<le> length (cg_Partitions grp)"
  shows "\<exists>p. assigned grp c p"
proof -
  obtain m where m: "map_of (Members grp) c = Some m" using assms(2) by (metis map_of_eq_None_iff not_None_eq)
  have "0 < length (Members grp)" using assms(2) by (cases "Members grp") auto
  then have "1 \<le> length (cg_Partitions grp) div length (Members grp)"
    using assms(3) div_le_mono [OF assms(3), of "length (Members grp)"] by simp
  then have "0 < length (Assignments m)" using group_balanced [OF assms(1) m] by linarith
  then obtain p v where "(p, v) \<in> set (Assignments m)" by (cases "Assignments m") auto
  then have "has (Assignments m) p" by (metis map_of_eq_None_iff fst_conv image_eqI)
  with m show ?thesis by (auto simp: assigned_def)
qed

lemma length_members: "gm_ok ms \<Longrightarrow> fst ` set ms = K \<Longrightarrow> length ms = card K"
  by (metis distinct_card length_map list.set_map)

text \<open>
  C27. A rebalance is not noticed. The first consumer of a group has joined and has, from then on, all partitions of the topic, whatever
  heartbeats it sends and whatever it fetches. When a second one joins, the name server gives it some of them and takes
  them from the first; both read them from then on, although the name server has each assigned to one member only.
\<close>

theorem rebalance_unnoticed:
  assumes "list_all nsv_ok ops" and "n = foldl (nsv_step bolt) (NewNameServer bolt opened left addr port) ops"
    and "map_of (consumerGroups n) (c_groupID c1) = None" and "map_of (ns_topics n) (c_topic c1) = Some info" and "2 \<le> length (Partitions info)"
    and "c_groupID c2 = c_groupID c1" and "c_topic c2 = c_topic c1" and "c_clientID c2 \<noteq> c_clientID c1"
    and "handleJoinGroup now1 (join_request c1) n = ((200, body1), n1)" and "handleJoinGroup now2 (join_request c2) n1 = ((200, body2), n2)"
    and "d1 = foldl consumer_step (snd (JoinGroup (join_answer (200, body1)) offset1 c1)) evs"
    and "d2 = snd (JoinGroup (join_answer (200, body2)) offset2 c2)"
  shows "set (c_assignments d1) = fst ` set (Partitions info) \<and> c_assignments d2 \<noteq> [] \<and>
    set (c_assignments d2) \<subseteq> set (c_assignments d1) \<and>
    (\<exists>grp. map_of (consumerGroups n2) (c_groupID c1) = Some grp \<and>
       (\<forall>p \<in> set (c_assignments d2). assigned grp (c_clientID c2) p \<and> \<not> assigned grp (c_clientID c1) p))"
proof -
  have inv: "nsv_inv n" by (rule nsv_run_inv [OF assms(1,2)])
  obtain g1 where g1: "group_ok g1" "map_of (consumerGroups n1) (c_groupID c1) = Some g1"
      "set (c_assignments (snd (JoinGroup (join_answer (200, body1)) offset1 c1))) = {p. assigned g1 (c_clientID c1) p}"
      "fst ` set (Members g1) = insert (c_clientID c1)
        (case map_of (consumerGroups n) (c_groupID c1) of None \<Rightarrow> {} | Some grp \<Rightarrow> fst ` set (Members grp))"
      "\<exists>info. map_of (ns_topics n) (c_topic c1) = Some info \<and> cg_Partitions g1 = sort (map fst (Partitions info))" "ns_topics n1 = ns_topics n"
    by (rule Consumer_join [OF inv assms(9)])
  have k1: "fst ` set (Members g1) = {c_clientID c1}" "cg_Partitions g1 = sort (map fst (Partitions info))"
    using g1(4,5) assms(3,4) by simp_all
  have inv1: "nsv_inv n1" using handleJoinGroup_inv [OF inv, of now1 "join_request c1"] assms(9) by simp
  obtain g2 where g2: "group_ok g2" "map_of (consumerGroups n2) (c_groupID c2) = Some g2"
      "set (c_assignments (snd (JoinGroup (join_answer (200, body2)) offset2 c2))) = {p. assigned g2 (c_clientID c2) p}"
      "fst ` set (Members g2) = insert (c_clientID c2)
        (case map_of (consumerGroups n1) (c_groupID c2) of None \<Rightarrow> {} | Some grp \<Rightarrow> fst ` set (Members grp))"
      "\<exists>info. map_of (ns_topics n1) (c_topic c2) = Some info \<and> cg_Partitions g2 = sort (map fst (Partitions info))"
    by (rule Consumer_join [OF inv1 assms(10)])
  have k2: "fst ` set (Members g2) = {c_clientID c2, c_clientID c1}" "cg_Partitions g2 = sort (map fst (Partitions info))"
    using g2(4,5) g1(2,6) k1(1) assms(4,6,7) by simp_all
  have "assigned g1 (c_clientID c1) p" if p: "p \<in> set (cg_Partitions g1)" for p
  proof -
    obtain c where "assigned g1 c p" using group_exactly_one [OF g1(1) p] by blast
    with assigned_member [OF this] k1(1) show ?thesis by simp
  qed
  then have "{p. assigned g1 (c_clientID c1) p} = set (cg_Partitions g1)" using assigned_partition [OF g1(1)] by blast
  then have d1: "set (c_assignments d1) = fst ` set (Partitions info)" using g1(3) k1(2) assms(11) by (simp add: consumer_run_keeps)
  have d2: "set (c_assignments d2) = {p. assigned g2 (c_clientID c2) p}" using g2(3) assms(12) by simp
  have sub: "set (c_assignments d2) \<subseteq> set (c_assignments d1)"
  proof
    fix p assume "p \<in> set (c_assignments d2)"
    then have "p \<in> set (cg_Partitions g2)" unfolding d2 using assigned_partition [OF g2(1)] by simp
    then show "p \<in> set (c_assignments d1)" unfolding d1 k2(2) by simp
  qed
  have "length (Members g2) = 2" using length_members [OF _ k2(1)] g2(1) assms(8) by (simp add: group_ok_def)
  then obtain p where "assigned g2 (c_clientID c2) p" using assigned_some [OF g2(1), of "c_clientID c2"] k2 assms(5) by auto
  then have "p \<in> set (c_assignments d2)" unfolding d2 by simp
  moreover have "\<not> assigned g2 (c_clientID c1) p" if "assigned g2 (c_clientID c2) p" for p
    using group_exactly_one [OF g2(1) assigned_partition [OF g2(1) that]] that assms(8) by blast
  ultimately have "c_assignments d2 \<noteq> []" "\<forall>p \<in> set (c_assignments d2). assigned g2 (c_clientID c2) p \<and> \<not> assigned g2 (c_clientID c1) p"
    using d2 by auto
  then show ?thesis using d1 sub g2(2) assms(6) by simp
qed

definition demo_consumer :: "string \<Rightarrow> Consumer" where
  "demo_consumer client = NewConsumer [] ''g'' client ''t''"

abbreviation demo_ns2 :: "(byte list, byte list) gomap NameServer" where
  "demo_ns2 \<equiv> foldl (nsv_step mem_bolt) (NewNameServer mem_bolt (Some []) None ''n'' 9090) (take 2 demo_ops)"

lemmas join_eval = handleJoinGroup_def join_request_def query_def join_member_def new_group_def doRebalance_def rebalance_def Let_def
  demo_topic_def demo_consumer_def NewConsumer_def

text \<open>The answers to the two joins: both partitions, then the second.\<close>

lemma demo_join1:
  "fst (handleJoinGroup 3 (join_request (demo_consumer ''a'')) demo_ns2) = (200, JoinBody ''g'' 2 ''a'' [0, 1] ''t'')"
  unfolding demo_ns_step1 by (simp add: join_eval)

lemma demo_join2:
  "fst (handleJoinGroup 4 (join_request (demo_consumer ''b'')) (snd (handleJoinGroup 3 (join_request (demo_consumer ''a'')) demo_ns2)))
   = (200, JoinBody ''g'' 3 ''b'' [1] ''t'')"
  unfolding demo_ns_step1 by (simp add: join_eval less_char_def)

theorem rebalance_unnoticed_witness:
  "let d1 = foldl consumer_step (snd (JoinGroup (join_answer (200, JoinBody ''g'' 2 ''a'' [0, 1] ''t'')) (\<lambda>p. None) (demo_consumer ''a''))) [Beat (Some 200)];
       d2 = snd (JoinGroup (join_answer (200, JoinBody ''g'' 3 ''b'' [1] ''t'')) (\<lambda>p. None) (demo_consumer ''b''))
   in c_assignments d2 = [1] \<and> set (c_assignments d1) = {0, 1} \<and> set (c_assignments d2) \<subseteq> set (c_assignments d1)"
proof -
  let ?n1 = "snd (handleJoinGroup 3 (join_request (demo_consumer ''a'')) demo_ns2)"
  have ok: "list_all nsv_ok (take 2 demo_ops)" by (simp add: demo_ops_def)
  have j1: "handleJoinGroup 3 (join_request (demo_consumer ''a'')) demo_ns2 = ((200, JoinBody ''g'' 2 ''a'' [0, 1] ''t''), ?n1)"
    using demo_join1 by (metis prod.collapse)
  have j2: "handleJoinGroup 4 (join_request (demo_consumer ''b'')) ?n1
      = ((200, JoinBody ''g'' 3 ''b'' [1] ''t''), snd (handleJoinGroup 4 (join_request (demo_consumer ''b'')) ?n1))"
    using demo_join2 by (metis prod.collapse)
  have f: "c_groupID (demo_consumer x) = ''g''" "c_topic (demo_consumer x) = ''t''" "c_clientID (demo_consumer x) = x" for x
    by (simp_all add: demo_consumer_def NewConsumer_def)
  have n: "map_of (consumerGroups demo_ns2) (c_groupID (demo_consumer ''a'')) = None" "map_of (ns_topics demo_ns2) (c_topic (demo_consumer ''a'')) = Some demo_topic"
    unfolding demo_ns_step1 f by simp_all
  have two: "2 \<le> length (Partitions demo_topic)" "fst ` set (Partitions demo_topic) = {0, 1}" by (simp_all add: demo_topic_def)
  have ne: "c_clientID (demo_consumer ''b'') \<noteq> c_clientID (demo_consumer ''a'')" by (simp add: f)
  have s: "c_groupID (demo_consumer ''b'') = c_groupID (demo_consumer ''a'')" "c_topic (demo_consumer ''b'') = c_topic (demo_consumer ''a'')"
    by (simp_all add: f)
  from rebalance_unnoticed [OF ok refl n two(1) s ne j1 j2 refl refl, of "\<lambda>p. None" "[Beat (Some 200)]" "\<lambda>p. None"] two(2)
  show ?thesis by (simp add: Let_def) (simp add: JoinGroup_def join_answer_def answer_ok_def demo_consumer_def NewConsumer_def Let_def)
qed

section \<open>A consumer without a partition\<close>

lemma waits_GoConsume: "waits (GoHeartbeat # map GoConsume ps) \<longleftrightarrow> ps \<noteq> []"
  by (cases ps) (auto simp: waits_def)

text \<open>
  A surplus consumer does not stand by. If the name server has no partition for it, or refuses the join, \<open>main\<close> ends at once and leaves the
  group; otherwise it never ends by itself.
\<close>

theorem consumer_without_partition_leaves:
  "(\<exists>c r. consumer_main now join offset url g client t = Left c r) \<longleftrightarrow>
   (let c = NewConsumer url g (consumer_id now client) t
    in \<not> fst (JoinGroup (join c) offset c) \<or> c_assignments (snd (JoinGroup (join c) offset c)) = [])"
  by (cases "JoinGroup (join (NewConsumer url g (consumer_id now client) t)) offset (NewConsumer url g (consumer_id now client) t)")
    (auto simp: consumer_main_def consumer_Start_def Let_def waits_GoConsume waits_def split: bool.splits)

section \<open>The dead-letter consumer\<close>

text \<open>The loop of \<open>main\<close> over the answers of its fetches: the messages it reports and its next offset. It reads the topic with the suffix \<open>_DLQ\<close> from
  offset 0 and commits nothing.\<close>

fun dlq_loop :: "FetchResult list \<Rightarrow> int \<Rightarrow> FetchedMessage list \<times> int" where
  "dlq_loop [] off = ([], off)"
| "dlq_loop (res # rest) off =
     (let (off1, msgs) = dlq_round res off; (later, off2) = dlq_loop rest off1
      in (msgs @ later, off2))"

definition dlq_main :: "bool \<Rightarrow> string \<Rightarrow> FetchResult list \<Rightarrow> (string \<times> FetchedMessage list \<times> int) option" where
  "dlq_main connected topic answers = (if connected then Some (topic @ ''_DLQ'', dlq_loop answers 0) else None)"

text \<open>The messages reported are those of the fetches without an error, in their order; the next offset is the one after the last of them.\<close>

theorem dlq_loop_reports:
  "fst (dlq_loop answers off) = concat (map fe_messages (filter (\<lambda>res. fe_err res = None) answers)) \<and>
   snd (dlq_loop answers off) = (if fst (dlq_loop answers off) = [] then off else fm_Offset (last (fst (dlq_loop answers off))) + 1)"
proof (induction answers arbitrary: off)
  case (Cons res rest)
  have last: "foldl (\<lambda>off msg. fm_Offset msg + 1) off msgs = (if msgs = [] then off else fm_Offset (last msgs) + 1)" for msgs
    by (cases msgs rule: rev_cases) simp_all
  show ?case using Cons [of "fst (dlq_round res off)"] by (auto simp: dlq_round_def last Let_def split_def)
qed simp

end
