(* ===== verification/Fetching.thy ===== *)
theory Fetching
  imports Broker_Requests Consumer_Process
begin

text \<open>
  A fetch of the sample consumer from the broker, byte by byte: the request goes through \<open>handleClient\<close>, the answer through the consumer's decoder. What
  the consumer gets for the two extreme orders of the index, a Go map, and what its loop gets in many rounds while the broker goes on applying entries.
\<close>

section \<open>One fetch\<close>

lemma segment_small: "segmentBytes < 2 ^ 31"
  by (simp add: segmentBytes_def)

lemma behind_bounds:
  assumes "x \<in> set (behind off ds)"
  shows "0 \<le> fst x" and "fst x + 20 + int (length (snd x)) \<le> log_end ds"
  using assms positions_bounds [of "fst x" "snd x" 0 ds] by (auto simp: behind_def)

lemma length_positions [simp]: "length (positions start ds) = length ds"
  by (induction ds arbitrary: start) auto

lemma length_log_end: "int (length ds) \<le> log_end ds"
  by (induction ds) auto

lemma length_behind: "int (length (behind off ds)) \<le> log_end ds"
  using length_filter_le [of "\<lambda>(k, d). off < k" "positions 0 ds"] length_log_end [of ds] by (simp add: behind_def)

text \<open>What the consumer reads from the answer to its fetch: the messages of \<open>Fetch\<close>.\<close>

lemma fetch_answered:
  assumes "part_holds b (tp_key topic part) ds" and "ds \<noteq> []" and "log_end ds \<le> segmentBytes" and "range_order (ce_ord (env 0))"
    and "length topic < 2 ^ 16" and "- (2 ^ 31) \<le> part" and "part < 2 ^ 31" and "int64_range off" and "0 \<le> maxBytes" and "maxBytes < 2 ^ 31"
  shows "\<exists>msgs hw b' out. Fetch (ce_ord (env 0)) topic part off maxBytes b = Ret (Inr (msgs, hw))
    \<and> handleClient env 0 (concat (fetch_writes topic part off maxBytes)) b = Ret (out, b') \<and> b_topics b' = b_topics b
    \<and> consumer_fetch out = \<lparr>fe_messages = map fetched msgs, fe_highWatermark = hw, fe_err = None, fe_rest = [], fe_reset = False\<rparr>
    \<and> (sum_list (map (int \<circ> length \<circ> snd) (behind off ds)) \<le> maxBytes \<longrightarrow> mset (map msg_pair msgs) = mset (behind off ds))"
proof -
  obtain msgs all n hw where f: "Fetch (ce_ord (env 0)) topic part off maxBytes b = Ret (Inr (msgs, hw))" "msgs = take n all"
      "mset (map msg_pair all) = mset (behind off ds)" "sum_list (map (int \<circ> length \<circ> snd) (behind off ds)) \<le> maxBytes \<longrightarrow> msgs = all"
      "\<forall>m \<in> set all. int64_range (m_Timestamp m)" "0 \<le> hw" "hw \<le> log_end ds"
    using Fetch_holds [OF assms(1-4), of off maxBytes] by blast
  let ?f = "\<lparr>fr_cmd = CmdFetch, fr_topic = topic, fr_partition = part, fr_data = fetch_data off maxBytes\<rparr>"
  have len: "length (fetch_data off maxBytes) = 12" by (simp add: fetch_data_def del: put_be.simps)
  have "frame_ok ?f" using assms(5-7) len by (simp add: frame_ok_def)
  moreover have "to_s 64 (get_be (take 8 (fetch_data off maxBytes))) = off"
    using be_int64.dec_enc [OF assms(8)] by (simp add: fetch_data_def del: put_be.simps)
  moreover have "to_s 32 (get_be (take 4 (drop 8 (fetch_data off maxBytes)))) = maxBytes"
    using be_int32.dec_enc [of maxBytes] assms(9,10) by (simp add: fetch_data_def del: put_be.simps)
  ultimately have "handleClient env 0 (concat (fetch_writes topic part off maxBytes)) b
      = Ret (fetch_response msgs hw, b\<lparr>auditLogger := map_option (audit_consumed (ce_ip (env 0)) topic part msgs) (auditLogger b)\<rparr>)"
    by (simp add: fetch_frame handleClient_one dispatch_def handleTCPFetch_def Let_def f(1) len wire_consts)
  moreover have e: "entry_ok (fetched m)" if "m \<in> set msgs" for m
  proof -
    have m: "m \<in> set all" using that f(2) by (auto dest: in_set_takeD)
    then have "msg_pair m \<in> set (behind off ds)" using f(3) by (metis image_eqI list.set_map mset_eq_setD)
    from behind_bounds [OF this] m f(5) assms(3) segment_small
    show ?thesis by (auto simp: entry_ok_def fetched_def msg_pair_def int64_range_def)
  qed
  moreover have "length msgs \<le> length (behind off ds)" using f(2) mset_eq_length [OF f(3)] by simp
  then have "length msgs < 2 ^ 32" using length_behind [of off ds] assms(3) segment_small by simp
  moreover have "int64_range hw" using f(6,7) assms(3) segment_small by (simp add: int64_range_def)
  ultimately show ?thesis using f(1,3,4) fetch_response_decodes [of msgs hw "[]"] by (auto simp: list_all_iff)
qed

section \<open>The order of the index\<close>

text \<open>When the entries of the index come in the reverse of the order in which they were put, so do the messages.\<close>

lemma entries_rev:
  assumes "holds tp ds"
  shows "map (\<lambda>e. (ie_Offset e, payload_at ds (ie_Offset e))) (GetEntriesAfter rev off (tp_index tp)) = rev (behind off ds)"
proof -
  have "map ie_Offset (GetEntriesAfter rev off (tp_index tp)) = filter ((<) off) (rev (map (ie_Offset \<circ> snd) (tp_index tp)))"
    by (simp add: GetEntriesAfter_def filter_map comp_def rev_map)
  also have "map (ie_Offset \<circ> snd) (tp_index tp) = map fst (positions 0 ds)"
    using arg_cong [OF holds_index [OF assms], of "map (fst \<circ> snd)"] by (simp add: case_prod_unfold comp_def)
  finally have o: "map ie_Offset (GetEntriesAfter rev off (tp_index tp)) = rev (filter ((<) off) (map fst (positions 0 ds)))" by (simp add: rev_filter)
  have "behind off ds = map (\<lambda>k. (k, payload_at ds k)) (filter ((<) off) (map fst (positions 0 ds)))"
    unfolding behind_def by (intro filter_keys) (auto simp: payload_at)
  with o show ?thesis by (metis (no_types, lifting) map_map comp_def rev_map map_eq_conv)
qed

text \<open>The messages that fit into the limit, at least one.\<close>

fun fitting :: "int \<Rightarrow> int \<Rightarrow> bool \<Rightarrow> (int \<times> byte list) list \<Rightarrow> (int \<times> byte list) list" where
  "fitting maxBytes sofar some [] = []"
| "fitting maxBytes sofar some (p # ps) =
     (if maxBytes < sofar + int (length (snd p)) \<and> some then [] else p # fitting maxBytes (sofar + int (length (snd p))) True ps)"

lemma within_fitting:
  "\<forall>e \<in> set es. ie_Size e = int (length (f (ie_Offset e))) \<Longrightarrow>
   map (\<lambda>e. (ie_Offset e, f (ie_Offset e))) (within maxBytes sofar some es) = fitting maxBytes sofar some (map (\<lambda>e. (ie_Offset e, f (ie_Offset e))) es)"
  by (induction es arbitrary: sofar some) auto

lemma fitting_all:
  "sofar + sum_list (map (int \<circ> length \<circ> snd) ps) \<le> maxBytes \<Longrightarrow> fitting maxBytes sofar some ps = ps"
proof (induction ps arbitrary: sofar some)
  case (Cons p ps)
  have "0 \<le> (\<Sum>a\<leftarrow>ps. int (length (snd a)))" by (intro sum_list_nonneg) auto
  with Cons show ?case by simp
qed simp

lemma Fetch_rev:
  assumes "part_holds b (tp_key topic part) ds" and "ds \<noteq> []" and "log_end ds \<le> segmentBytes"
    and "Fetch rev topic part off maxBytes b = Ret (Inr (msgs, hw))"
  shows "map msg_pair msgs = fitting maxBytes 0 False (rev (behind off ds))"
proof -
  obtain tp where tp: "map_of (b_topics b) (tp_key topic part) = Some tp" "holds tp ds" using part_holds_found [OF assms(1,2)] by blast
  note r = GetEntriesAfter_readable [OF tp(2) assms(3) range_order_rev, of off]
  let ?es = "GetEntriesAfter rev off (tp_index tp)"
  have "\<forall>e \<in> set ?es. ie_Size e = int (length (payload_at ds (ie_Offset e)))" using r by (auto simp: readable_def)
  from within_fitting [OF this, of maxBytes 0 False] show ?thesis
    using assms(4) unfolding entries_rev [OF tp(2)]
    by (auto simp: Fetch_def tp(1) Let_def fetch_loop_reads [OF r] msg_pair_def new_message_def comp_def)
qed


lemma positions_sorted: "sorted_wrt (\<lambda>x y. fst x + 20 \<le> fst y) (positions start ds)"
  by (induction ds arbitrary: start) (auto dest!: positions_bounds)

lemma behind_later:
  assumes "off \<le> off'"
  shows "behind off' ds = filter (\<lambda>(k, d). off' < k) (behind off ds)"
  using assms by (auto simp: behind_def intro!: filter_cong)

lemma behind_sorted: "sorted_wrt (\<lambda>x y. fst x + 20 \<le> fst y) (behind off ds)"
  by (simp add: behind_def positions_sorted sorted_wrt_filter)

lemma behind_after: "x \<in> set (behind off ds) \<Longrightarrow> off < fst x"
  by (auto simp: behind_def)

lemma behind_tl:
  assumes "behind off ds = p # ps"
  shows "behind (fst p + 1) ds = ps"
proof -
  have "off \<le> fst p + 1" using behind_after [of p off ds] assms by simp
  moreover have "\<forall>q \<in> set ps. fst p + 20 \<le> fst q" using behind_sorted [of off ds] unfolding assms by simp
  ultimately show ?thesis by (subst behind_later [of off]) (auto simp: assms case_prod_unfold intro!: filter_True)
qed

lemma behind_last:
  assumes "behind off ds = ps @ [p]"
  shows "behind (fst p + 1) ds = []"
proof -
  have "off \<le> fst p + 1" using behind_after [of p off ds] assms by simp
  moreover have "\<forall>q \<in> set ps. fst q + 20 \<le> fst p" using behind_sorted [of off ds] unfolding assms by (auto simp: sorted_wrt_append)
  ultimately show ?thesis by (subst behind_later [of off]) (auto simp: assms filter_empty_conv)
qed

lemma sum_behind: "sum_list (map (int \<circ> length \<circ> snd) (behind off ds)) \<le> log_end ds"
proof -
  have "sum_list (map (int \<circ> length \<circ> snd) (filter P (positions start ds))) \<le> log_end ds" for P start
  proof (induction ds arbitrary: start)
    case (Cons d ds)
    from Cons.IH [of "start + 20 + int (length d)"] show ?case by simp
  qed simp
  then show ?thesis by (simp add: behind_def)
qed

lemma consume_round_last:
  assumes "msgs \<noteq> []"
  shows "offset_of part (snd (consume_round part \<lparr>fe_messages = msgs, fe_highWatermark = hw, fe_err = None, fe_rest = rest, fe_reset = False\<rparr> c))
    = fm_Offset (last msgs) + 1"
  using assms by (cases msgs rule: rev_cases) (auto simp: consume_round_def Let_def offset_of_def)


text \<open>A fetch of the consumer when the index is walked backwards.\<close>

abbreviation got :: "FetchedMessage list \<Rightarrow> (int \<times> byte list) list" where
  "got \<equiv> map (\<lambda>m. (fm_Offset m, fm_Value m))"

lemma fetch_rev:
  assumes "part_holds b (tp_key topic part) ds" and "ds \<noteq> []" and "log_end ds \<le> segmentBytes" and "ce_ord (env 0) = rev"
    and "length topic < 2 ^ 16" and "- (2 ^ 31) \<le> part" and "part < 2 ^ 31" and "int64_range off" and "0 \<le> maxBytes" and "maxBytes < 2 ^ 31"
  obtains out hw msgs b' where "handleClient env 0 (concat (fetch_writes topic part off maxBytes)) b = Ret (out, b')"
    "part_holds b' (tp_key topic part) ds" "consumer_fetch out = \<lparr>fe_messages = msgs, fe_highWatermark = hw, fe_err = None, fe_rest = [], fe_reset = False\<rparr>"
    "got msgs = fitting maxBytes 0 False (rev (behind off ds))"
proof -
  have ord: "range_order (ce_ord (env 0))" using assms(4) by simp
  obtain msgs hw b' out where f: "Fetch (ce_ord (env 0)) topic part off maxBytes b = Ret (Inr (msgs, hw))"
      "handleClient env 0 (concat (fetch_writes topic part off maxBytes)) b = Ret (out, b')" "b_topics b' = b_topics b"
      "consumer_fetch out = \<lparr>fe_messages = map fetched msgs, fe_highWatermark = hw, fe_err = None, fe_rest = [], fe_reset = False\<rparr>"
    using fetch_answered [where env = env, OF assms(1-3) ord assms(5-10)] by blast
  have "got (map fetched msgs) = map msg_pair msgs" by (simp add: fetched_def msg_pair_def)
  also have "\<dots> = fitting maxBytes 0 False (rev (behind off ds))" using f(1) assms(4) by (intro Fetch_rev [OF assms(1-3)]) simp
  finally show thesis using f(2-4) assms(1) by (intro that [of out b' "map fetched msgs" hw]) (simp_all add: part_holds_def)
qed

lemma consume_round_got:
  assumes "consumer_fetch out = \<lparr>fe_messages = msgs, fe_highWatermark = hw, fe_err = None, fe_rest = [], fe_reset = False\<rparr>" and "got msgs = ps @ [p]"
  shows "offset_of part (snd (consume_round part (consumer_fetch out) c)) = fst p + 1"
proof -
  have "msgs \<noteq> []" using assms(2) by auto
  moreover from this have "fst p = fm_Offset (last msgs)" using arg_cong [OF assms(2), of last] by (auto simp: last_map)
  ultimately show ?thesis unfolding assms(1) by (simp add: consume_round_last)
qed

text \<open>With the sample consumer's limit and a log of one segment, a fetch gives everything behind the offset; of at most one message the order does not matter.\<close>

lemma fetch_few:
  assumes "part_holds b (tp_key topic part) ds" and "ds \<noteq> []" and "log_end ds \<le> segmentBytes" and "range_order (ce_ord (env 0))"
    and "length topic < 2 ^ 16" and "- (2 ^ 31) \<le> part" and "part < 2 ^ 31" and "int64_range off" and "length (behind off ds) \<le> 1"
  obtains out hw msgs b' where "handleClient env 0 (concat (fetch_writes topic part off (1024 * 1024))) b = Ret (out, b')"
    "consumer_fetch out = \<lparr>fe_messages = msgs, fe_highWatermark = hw, fe_err = None, fe_rest = [], fe_reset = False\<rparr>" "got msgs = behind off ds"
proof -
  let ?M = "1024 * 1024 :: int"
  have M: "0 \<le> ?M" "?M < 2 ^ 31" by simp_all
  have "sum_list (map (int \<circ> length \<circ> snd) (behind off ds)) \<le> ?M" using sum_behind [of off ds] assms(3) by (simp add: segmentBytes_def)
  then obtain msgs hw b' out where f: "handleClient env 0 (concat (fetch_writes topic part off ?M)) b = Ret (out, b')"
      "consumer_fetch out = \<lparr>fe_messages = map fetched msgs, fe_highWatermark = hw, fe_err = None, fe_rest = [], fe_reset = False\<rparr>"
      "mset (map msg_pair msgs) = mset (behind off ds)"
    using fetch_answered [where env = env, OF assms(1-8) M] by blast
  have "got (map fetched msgs) = map msg_pair msgs" by (simp add: fetched_def msg_pair_def)
  also have "\<dots> = behind off ds" using f(3) assms(9) by (cases "behind off ds") (auto simp flip: mset_map)
  finally show thesis using f(1,2) by (intro that)
qed

section \<open>The loop of the consumer\<close>

text \<open>\<open>k\<close> rounds of \<open>consumePartition\<close>, from round \<open>i\<close> on; the request of round \<open>i\<close> meets the broker \<open>B i\<close>.\<close>

fun polls :: "(nat \<Rightarrow> nat \<Rightarrow> client_env) \<Rightarrow> (nat \<Rightarrow> Broker) \<Rightarrow> string \<Rightarrow> int \<Rightarrow> nat \<Rightarrow> nat \<Rightarrow> Consumer \<Rightarrow> FetchResult list go" where
  "polls env B topic part i 0 c = Ret []"
| "polls env B topic part i (Suc k) c =
     go_bind (handleClient (env i) 0 (concat (fetch_writes topic part (offset_of part c) (1024 * 1024))) (B i))
       (\<lambda>(out, b'). let res = consumer_fetch out
                    in go_bind (polls env B topic part (i + 1) k (snd (consume_round part res c))) (\<lambda>rs. Ret (res # rs)))"

text \<open>Where the consumer goes on after it was given everything behind its offset.\<close>

definition next_offset :: "int \<Rightarrow> (int \<times> byte list) list \<Rightarrow> int" where
  "next_offset off ps = (if ps = [] then off else fst (last ps) + 1)"

lemma behind_next:
  assumes "ds' = ds @ es"
  shows "behind off ds @ behind (next_offset off (behind off ds)) ds' = behind off ds'"
proof (cases "behind off ds" rule: rev_cases)
  case Nil
  then show ?thesis by (simp add: next_offset_def)
next
  case (snoc ps p)
  obtain rest where r: "behind off ds' = (ps @ [p]) @ rest" using assms snoc by (simp add: behind_def positions_append)
  have "off \<le> fst p + 1" using behind_after [of p off ds] snoc by simp
  then have "behind (fst p + 1) ds' = filter (\<lambda>(k, d). fst p + 1 < k) ((ps @ [p]) @ rest)" using behind_later [of off "fst p + 1" ds'] r by simp
  moreover have "\<forall>q \<in> set ps. fst q + 20 \<le> fst p" "\<forall>q \<in> set rest. fst p + 20 \<le> fst q"
    using behind_sorted [of off ds'] unfolding r by (auto simp: sorted_wrt_append)
  ultimately have l: "\<forall>q \<in> set ps. fst q + 20 \<le> fst p" and h: "\<forall>q \<in> set rest. fst p + 20 \<le> fst q"
    and eq: "behind (fst p + 1) ds' = filter (\<lambda>(k, d). fst p + 1 < k) ((ps @ [p]) @ rest)" by blast+
  have "filter (\<lambda>(k, d). fst p + 1 < k) (ps @ [p]) = []" "filter (\<lambda>(k, d). fst p + 1 < k) rest = rest"
    using l h by (force simp: filter_empty_conv, force intro: filter_True)
  then have "behind (fst p + 1) ds' = rest" unfolding eq by (simp only: filter_append append_Nil)
  then show ?thesis by (simp add: snoc next_offset_def r)
qed

lemma next_offset_range:
  assumes "log_end ds \<le> segmentBytes" and "int64_range off"
  shows "int64_range (next_offset off (behind off ds))"
proof (cases "behind off ds" rule: rev_cases)
  case (snoc ps p)
  then have "p \<in> set (behind off ds)" by simp
  from behind_bounds [OF this] snoc assms(1) show ?thesis by (simp add: next_offset_def int64_range_def segmentBytes_def)
qed (use assms(2) in \<open>simp add: next_offset_def\<close>)

lemma consume_round_next:
  assumes "res = \<lparr>fe_messages = msgs, fe_highWatermark = hw, fe_err = None, fe_rest = [], fe_reset = False\<rparr>"
  shows "offset_of part (snd (consume_round part res c)) = next_offset (offset_of part c) (got msgs)"
    and "fst (consume_round part res c) = (if msgs = [] then None else Some (next_offset (offset_of part c) (got msgs)))"
proof -
  show o: "offset_of part (snd (consume_round part res c)) = next_offset (offset_of part c) (got msgs)"
    unfolding assms by (cases "msgs = []") (simp_all add: consume_round_last next_offset_def last_map, simp add: consume_round_def Let_def)
  show "fst (consume_round part res c) = (if msgs = [] then None else Some (next_offset (offset_of part c) (got msgs)))"
  proof (cases "msgs = []")
    case False
    then have "fst (consume_round part res c) = Some (offset_of part (snd (consume_round part res c)))"
      unfolding assms by (simp add: consume_round_def Let_def)
    with o False show ?thesis by simp
  qed (simp add: assms consume_round_def Let_def)
qed

text \<open>The broker of round \<open>i\<close> holds \<open>D i\<close> in the partition, in its first segment; the broker of the next round holds the same or one payload more.\<close>

definition growing :: "(nat \<Rightarrow> Broker) \<Rightarrow> (nat \<Rightarrow> byte list list) \<Rightarrow> string \<Rightarrow> nat \<Rightarrow> bool" where
  "growing B D key k \<longleftrightarrow>
     (\<forall>i < k. part_holds (B i) key (D i) \<and> D i \<noteq> [] \<and> log_end (D i) \<le> segmentBytes) \<and>
     (\<forall>i. Suc i < k \<longrightarrow> D (Suc i) = D i \<or> (\<exists>d. D (Suc i) = D i @ [d]))"

lemma growing_append:
  assumes "growing B D key k" and "i + m < k"
  shows "\<exists>es. D (i + m) = D i @ es"
  using assms(2)
proof (induction m)
  case (Suc m)
  then obtain es where "D (i + m) = D i @ es" by auto
  moreover have "D (Suc (i + m)) = D (i + m) \<or> (\<exists>d. D (Suc (i + m)) = D (i + m) @ [d])" using assms(1) Suc.prems by (simp add: growing_def)
  ultimately show ?case by auto
qed simp

lemma behind_one_more:
  assumes "ds' = ds \<or> ds' = ds @ [d]"
  shows "length (behind (next_offset off (behind off ds)) ds') \<le> 1"
proof -
  obtain es where es: "ds' = ds @ es" "length es \<le> 1" using assms by auto
  have "length (behind off ds @ behind (next_offset off (behind off ds)) ds') = length (behind off ds')"
    using behind_next [OF es(1), of off] by simp
  moreover have "length (behind off ds') \<le> length (behind off ds) + length es"
    using length_filter_le [of "\<lambda>(k, d). off < k" "positions (log_end ds) es"] by (simp add: es(1) behind_def positions_append length_positions)
  ultimately show ?thesis using es(2) by simp
qed

lemma poll_once:
  assumes "part_holds b (tp_key topic part) ds" and "ds \<noteq> []" and "log_end ds \<le> segmentBytes" and "range_order (ce_ord (env 0))"
    and "length topic < 2 ^ 16" and "- (2 ^ 31) \<le> part" and "part < 2 ^ 31" and "int64_range (offset_of part c)"
    and "length (behind (offset_of part c) ds) \<le> 1"
  obtains out b' x c1 where "handleClient env 0 (concat (fetch_writes topic part (offset_of part c) (1024 * 1024))) b = Ret (out, b')"
    "consume_round part (consumer_fetch out) c = (x, c1)" "got (fe_messages (consumer_fetch out)) = behind (offset_of part c) ds"
    "offset_of part c1 = next_offset (offset_of part c) (behind (offset_of part c) ds)"
    "x = (if behind (offset_of part c) ds = [] then None else Some (offset_of part c1))"
proof -
  obtain out hw msgs b' where f: "handleClient env 0 (concat (fetch_writes topic part (offset_of part c) (1024 * 1024))) b = Ret (out, b')"
      "consumer_fetch out = \<lparr>fe_messages = msgs, fe_highWatermark = hw, fe_err = None, fe_rest = [], fe_reset = False\<rparr>"
      "got msgs = behind (offset_of part c) ds"
    by (rule fetch_few [where env = env, OF assms])
  obtain x c1 where r: "consume_round part (consumer_fetch out) c = (x, c1)" by fastforce
  have "behind (offset_of part c) ds = [] \<longleftrightarrow> msgs = []" unfolding f(3) [symmetric] by simp
  with consume_round_next [OF f(2), of part c] r f show thesis by (intro that [of out b' x c1]) simp_all
qed

lemma next_offset_append: "next_offset (next_offset off ps) qs = next_offset off (ps @ qs)"
  by (simp add: next_offset_def)

lemma next_offset_after: "behind off ds \<noteq> [] \<Longrightarrow> off < next_offset off (behind off ds)"
  using behind_after [of "last (behind off ds)" off ds] by (simp add: next_offset_def)

lemma next_offset_le: "off \<le> next_offset off (behind off ds)"
  using next_offset_after [of off ds] by (cases "behind off ds = []") (simp_all add: next_offset_def)

lemma polls_behind:
  assumes "growing B D (tp_key topic part) (i + Suc k)" and "\<forall>j. range_order (ce_ord (env j 0))"
    and "length topic < 2 ^ 16" and "- (2 ^ 31) \<le> part" and "part < 2 ^ 31" and "int64_range (offset_of part c)"
    and "length (behind (offset_of part c) (D i)) \<le> 1"
  shows "\<exists>rs offs c'. polls env B topic part i (Suc k) c = Ret rs \<and> consumePartition part (map Fetched rs) c = (offs, c') \<and>
    concat (map (got \<circ> fe_messages) rs) = behind (offset_of part c) (D (i + k)) \<and>
    offset_of part c' = next_offset (offset_of part c) (behind (offset_of part c) (D (i + k))) \<and>
    sorted_wrt (<) offs \<and> (\<forall>off \<in> set offs. offset_of part c < off)"
  using assms(1,6,7)
proof (induction k arbitrary: i c)
  case 0
  have p: "part_holds (B i) (tp_key topic part) (D i)" "D i \<noteq> []" "log_end (D i) \<le> segmentBytes" "range_order (ce_ord (env i 0))"
    using "0.prems"(1) assms(2) by (simp_all add: growing_def)
  obtain out b' x c1 where f: "handleClient (env i) 0 (concat (fetch_writes topic part (offset_of part c) (1024 * 1024))) (B i) = Ret (out, b')"
    "consume_round part (consumer_fetch out) c = (x, c1)" "got (fe_messages (consumer_fetch out)) = behind (offset_of part c) (D i)"
    "offset_of part c1 = next_offset (offset_of part c) (behind (offset_of part c) (D i))"
    "x = (if behind (offset_of part c) (D i) = [] then None else Some (offset_of part c1))"
    by (rule poll_once [where env = "env i", OF p assms(3-5) "0.prems"(2,3)])
  show ?case using f next_offset_after [of "offset_of part c" "D i"]
    by (intro exI [of _ "[consumer_fetch out]"] exI [of _ "case x of None \<Rightarrow> [] | Some off \<Rightarrow> [off]"] exI [of _ c1]) auto
next
  case (Suc k)
  let ?off = "offset_of part c"
  have p: "part_holds (B i) (tp_key topic part) (D i)" "D i \<noteq> []" "log_end (D i) \<le> segmentBytes" "range_order (ce_ord (env i 0))"
    using Suc.prems(1) assms(2) by (simp_all add: growing_def)
  obtain out b' x c1 where f: "handleClient (env i) 0 (concat (fetch_writes topic part ?off (1024 * 1024))) (B i) = Ret (out, b')"
    "consume_round part (consumer_fetch out) c = (x, c1)" "got (fe_messages (consumer_fetch out)) = behind ?off (D i)"
    "offset_of part c1 = next_offset ?off (behind ?off (D i))" "x = (if behind ?off (D i) = [] then None else Some (offset_of part c1))"
    by (rule poll_once [where env = "env i", OF p assms(3-5) Suc.prems(2,3)])
  have r: "int64_range (offset_of part c1)" unfolding f(4) by (rule next_offset_range [OF p(3) Suc.prems(2)])
  have g: "growing B D (tp_key topic part) (Suc i + Suc k)" using Suc.prems(1) by simp
  have "D (Suc i) = D i \<or> (\<exists>d. D (Suc i) = D i @ [d])" using Suc.prems(1) by (simp add: growing_def)
  then have l: "length (behind (offset_of part c1) (D (Suc i))) \<le> 1" unfolding f(4) using behind_one_more by blast
  obtain rs offs c' where IH: "polls env B topic part (Suc i) (Suc k) c1 = Ret rs" "consumePartition part (map Fetched rs) c1 = (offs, c')"
    "concat (map (got \<circ> fe_messages) rs) = behind (offset_of part c1) (D (Suc i + k))"
    "offset_of part c' = next_offset (offset_of part c1) (behind (offset_of part c1) (D (Suc i + k)))"
    "sorted_wrt (<) offs" "\<forall>off \<in> set offs. offset_of part c1 < off"
    using Suc.IH [OF g r l] by blast
  have "\<exists>es. D (Suc i + k) = D i @ es" using growing_append [OF Suc.prems(1), of i "Suc k"] by simp
  then obtain es where "D (Suc i + k) = D i @ es" by blast
  from behind_next [OF this, of ?off] have b: "behind ?off (D i) @ behind (offset_of part c1) (D (Suc i + k)) = behind ?off (D (i + Suc k))"
    by (simp add: f(4))
  have "polls env B topic part i (Suc (Suc k)) c = Ret (consumer_fetch out # rs)"
    using f(1,2) IH(1) by (simp only: polls.simps go_bind.simps Let_def split_conv snd_conv Suc_eq_plus1 [symmetric])
  moreover have "consumePartition part (map Fetched (consumer_fetch out # rs)) c = ((case x of None \<Rightarrow> [] | Some off \<Rightarrow> [off]) @ offs, c')"
    using f(2) IH(2) by simp
  moreover have "concat (map (got \<circ> fe_messages) (consumer_fetch out # rs)) = behind ?off (D (i + Suc k))" using b f(3) IH(3) by simp
  moreover have "offset_of part c' = next_offset ?off (behind ?off (D (i + Suc k)))"
    unfolding IH(4) unfolding f(4) next_offset_append using b by (simp add: f(4))
  moreover have "sorted_wrt (<) ((case x of None \<Rightarrow> [] | Some off \<Rightarrow> [off]) @ offs)" "\<forall>off \<in> set ((case x of None \<Rightarrow> [] | Some off \<Rightarrow> [off]) @ offs). ?off < off"
    using IH(5,6) f(4,5) next_offset_after [of ?off "D i"] next_offset_le [of ?off "D i"] by auto
  ultimately show ?case by blast
qed


definition calm_env :: client_env where
  "calm_env = \<lparr>ce_route1 = (\<lambda>url. None), ce_route2 = (\<lambda>url. None), ce_committed = False, ce_ip = [], ce_ord = rev, ce_now = 0, ce_get = (\<lambda>url. None),
     ce_member = (\<lambda>data. None), ce_offset = (\<lambda>data. None)\<rparr>"

lemma demo_three: "\<exists>b. part_holds b (tp_key ''t'' 0) [[1], [2], [3]]"
proof -
  let ?e = "\<lparr>le_Term = 1, le_Index = 3, le_Type = DATA, le_Topic = ''t'', le_Partition = 0, le_Data = [3], le_Config = None\<rparr>"
  have "\<forall>k. part_holds demo_b k []" by (simp add: part_holds_def demo_b_def broker_struct_def)
  moreover have "\<forall>k. Some ([], []) = Some ([], [])" by simp
  ultimately obtain ts where "\<forall>k. part_holds (demo_b\<lparr>b_topics := ts\<rparr>) k (payloads k (entries_of (demo_events @ [ApplyEntry ?e])))"
    using handleApply_holds [of demo_b "\<lambda>k. []" "\<lambda>k. Some ([], [])" demo_clock "[]" "demo_events @ [ApplyEntry ?e]" ApplyStop 0] demo_entries
    by (auto simp: demo_events_def)
  then have "part_holds (demo_b\<lparr>b_topics := ts\<rparr>) (tp_key ''t'' 0) [[1], [2], [3]]" by (auto simp: demo_events_def dest!: spec [of _ "tp_key ''t'' 0"])
  then show ?thesis by blast
qed


end
