(* ===== verification/Producer_Loop.thy ===== *)
theory Producer_Loop
  imports Clients
begin

text \<open>
  The loop of \<open>main\<close> in \<^verbatim>\<open>samples/go-producer/main.go\<close> over the batches. It is a partial function: with a batch size of zero the loop
  never ends, with a negative one it panics. Counters stay far below the 64-bit range, in which Go would wrap them.
\<close>

text \<open>What the network does: the outcome of sending message \<open>k\<close> first, whether the connection to a new leader is made in the batch that starts at
  \<open>i\<close>, and the outcome of sending message \<open>k\<close> again.\<close>

record network =
  first_try :: "int \<Rightarrow> string option"
  reconnect :: "int \<Rightarrow> bool"
  second_try :: "int \<Rightarrow> string option"

definition batch_end :: "int \<Rightarrow> int \<Rightarrow> int \<Rightarrow> int" where
  "batch_end cnt batch i = (if cnt < i + batch then cnt else i + batch)"

partial_function (option) producer_loop :: "network \<Rightarrow> int \<Rightarrow> int \<Rightarrow> int \<Rightarrow> ProducerStats \<Rightarrow> ProducerStats go option" where
  "producer_loop net cnt batch i st =
     (if i < cnt
      then let batchSize = batch_end cnt batch i - i
           in if batchSize < 0 then Some Panic
              else case producer_batch (map (\<lambda>j. first_try net (i + int j)) [0..<nat batchSize]) (reconnect net i)
                          (\<lambda>j. second_try net (i + int j)) st of
                     Ret st1 \<Rightarrow> producer_loop net cnt batch (i + batch) st1
                   | Panic \<Rightarrow> Some Panic
                   | Deadlock \<Rightarrow> Some Deadlock
      else Some (Ret st))"

definition producer_main :: "network \<Rightarrow> int \<Rightarrow> int \<Rightarrow> ProducerStats go option" where
  "producer_main net cnt batch =
     producer_loop net cnt batch 0 \<lparr>st_success = 0, st_failed = 0, st_redirects = 0, st_conn = True\<rparr>"

lemma batch_accounted:
  assumes "st_conn st" and "connect_ok"
  shows "\<exists>st'. producer_batch errs connect_ok resend st = Ret st' \<and> st_conn st'
    \<and> st_success st' + st_failed st' = st_success st + st_failed st + length errs"
  using batch_counts [OF assms(1), of errs connect_ok resend] assms(2) by auto

lemma producer_loop_counts:
  assumes "0 < batch" and "\<forall>i. reconnect net i" and "st_conn st" and "i \<le> cnt"
  shows "\<exists>st'. producer_loop net cnt batch i st = Some (Ret st')
    \<and> int (st_success st' + st_failed st') = int (st_success st + st_failed st) + (cnt - i)"
  using assms(3,4)
proof (induction "nat (cnt - i)" arbitrary: i st rule: less_induct)
  case less
  show ?case
  proof (cases "i < cnt")
    case False
    then show ?thesis using less.prems by (subst producer_loop.simps) simp
  next
    case True
    let ?n = "nat (batch_end cnt batch i - i)"
    let ?errs = "map (\<lambda>j. first_try net (i + int j)) [0..<?n]"
    obtain st1 where st1: "producer_batch ?errs (reconnect net i) (\<lambda>j. second_try net (i + int j)) st = Ret st1" "st_conn st1"
        "st_success st1 + st_failed st1 = st_success st + st_failed st + length ?errs"
      using batch_accounted [OF less.prems(1)] assms(2) by blast
    show ?thesis
    proof (cases "i + batch \<le> cnt")
      case fits: True
      have "nat (cnt - (i + batch)) < nat (cnt - i)" using True assms(1) by linarith
      from less.hyps [OF this st1(2) fits] obtain st' where "producer_loop net cnt batch (i + batch) st1 = Some (Ret st')"
        "int (st_success st' + st_failed st') = int (st_success st1 + st_failed st1) + (cnt - (i + batch))" by blast
      with st1 True assms(1) fits show ?thesis by (subst producer_loop.simps) (simp add: batch_end_def Let_def)
    next
      case False
      then have "producer_loop net cnt batch (i + batch) st1 = Some (Ret st1)" by (subst producer_loop.simps) simp
      with st1 True False show ?thesis by (subst producer_loop.simps) (simp add: batch_end_def Let_def)
    qed
  qed
qed

text \<open>With batches of size zero no call returns.\<close>

lemma zero_batch_stays:
  assumes "producer_loop net cnt batch i st = Some x"
  shows "\<not> (batch = 0 \<and> i < cnt \<and> st_conn st \<and> (\<forall>j. reconnect net j))"
  using assms
proof (rule producer_loop.raw_induct [rotated, where P = "\<lambda>net cnt batch i st x. \<not> (batch = 0 \<and> i < cnt \<and> st_conn st \<and> (\<forall>j. reconnect net j))"])
  fix loop :: "network \<Rightarrow> int \<Rightarrow> int \<Rightarrow> int \<Rightarrow> ProducerStats \<Rightarrow> ProducerStats go option"
    and net :: network and cnt batch i :: int and st :: ProducerStats and y :: "ProducerStats go"
  let ?stays = "\<lambda>st. batch = 0 \<and> i < cnt \<and> st_conn st \<and> (\<forall>j. reconnect net j)"
  assume ih: "\<And>net cnt batch i st x. loop net cnt batch i st = Some x \<Longrightarrow> \<not> (batch = 0 \<and> i < cnt \<and> st_conn st \<and> (\<forall>j. reconnect net j))"
    and step: "(if i < cnt
      then let batchSize = batch_end cnt batch i - i
           in if batchSize < 0 then Some Panic
              else case producer_batch (map (\<lambda>j. first_try net (i + int j)) [0..<nat batchSize]) (reconnect net i)
                          (\<lambda>j. second_try net (i + int j)) st of
                     Ret st1 \<Rightarrow> loop net cnt batch (i + batch) st1
                   | Panic \<Rightarrow> Some Panic
                   | Deadlock \<Rightarrow> Some Deadlock
      else Some (Ret st)) = Some y"
  show "\<not> ?stays st"
  proof
    assume a: "?stays st"
    obtain st1 where st1: "producer_batch [] (reconnect net i) (\<lambda>j. second_try net (i + int j)) st = Ret st1" "st_conn st1"
      using batch_accounted [of st "reconnect net i" "[]"] a by blast
    have "loop net cnt batch i st1 = Some y" using step a st1(1) by (simp add: batch_end_def Let_def split: if_splits)
    from ih [OF this] a st1(2) show False by simp
  qed
qed



end
