(* ===== verification/Http_Api.thy ===== *)
theory Http_Api
  imports Broker_Requests
begin

text \<open>
  The HTTP side of \<^verbatim>\<open>cluster/go/broker/broker.go\<close>: \<open>handleProduce\<close> and \<open>handleConsume\<close>, with the standard base64 encoding
  of payloads. A request is what the JSON decoder makes of the body (\<open>None\<close> if it fails), an answer is its status and its fields.
\<close>

section \<open>Base64\<close>

definition b64_alphabet :: string where
  "b64_alphabet = ''ABCDEFGHIJKLMNOPQRSTUVWXYZabcdefghijklmnopqrstuvwxyz0123456789+/''"

definition b64_digit :: "nat \<Rightarrow> char" where
  "b64_digit n = b64_alphabet ! n"

definition b64_val :: "char \<Rightarrow> nat option" where
  "b64_val c = find (\<lambda>n. b64_alphabet ! n = c) [0..<64]"

definition b64_pad :: char where "b64_pad = CHR ''=''"

text \<open>\<open>base64.StdEncoding.EncodeToString\<close>: three bytes become four digits, the rest is padded.\<close>

fun encodeBase64 :: "byte list \<Rightarrow> string" where
  "encodeBase64 [] = []"
| "encodeBase64 [a] = [b64_digit (unat a div 4), b64_digit (unat a mod 4 * 16), b64_pad, b64_pad]"
| "encodeBase64 [a, b] =
     [b64_digit (unat a div 4), b64_digit (unat a mod 4 * 16 + unat b div 16), b64_digit (unat b mod 16 * 4), b64_pad]"
| "encodeBase64 (a # b # c # bs) =
     b64_digit (unat a div 4) # b64_digit (unat a mod 4 * 16 + unat b div 16)
     # b64_digit (unat b mod 16 * 4 + unat c div 64) # b64_digit (unat c mod 64) # encodeBase64 bs"

text \<open>\<open>base64.StdEncoding.DecodeString\<close>: line ends are skipped; padding only at the end, where the bits that are left over are
  not looked at.\<close>

fun b64_quanta :: "string \<Rightarrow> byte list option" where
  "b64_quanta [] = Some []"
| "b64_quanta (c1 # c2 # c3 # c4 # cs) =
     (case (b64_val c1, b64_val c2) of
        (Some v1, Some v2) \<Rightarrow>
          if c3 = b64_pad then (if c4 = b64_pad \<and> cs = [] then Some [of_nat (v1 * 4 + v2 div 16)] else None)
          else (case b64_val c3 of
                  None \<Rightarrow> None
                | Some v3 \<Rightarrow>
                    if c4 = b64_pad
                    then (if cs = [] then Some [of_nat (v1 * 4 + v2 div 16), of_nat (v2 mod 16 * 16 + v3 div 4)] else None)
                    else (case (b64_val c4, b64_quanta cs) of
                            (Some v4, Some bs) \<Rightarrow>
                              Some ([of_nat (v1 * 4 + v2 div 16), of_nat (v2 mod 16 * 16 + v3 div 4), of_nat (v3 mod 4 * 64 + v4)] @ bs)
                          | _ \<Rightarrow> None))
      | _ \<Rightarrow> None)"
| "b64_quanta _ = None"

definition decodeBase64 :: "string \<Rightarrow> byte list option" where
  "decodeBase64 s = b64_quanta (filter (\<lambda>c. c \<noteq> CHR 0x0A \<and> c \<noteq> CHR 0x0D) s)"

lemma b64_digits:
  assumes "n < 64"
  shows "b64_val (b64_digit n) = Some n" and "b64_digit n \<noteq> b64_pad"
    and "b64_digit n \<noteq> CHR 0x0A" and "b64_digit n \<noteq> CHR 0x0D"
proof -
  have "\<forall>n \<in> set [0..<64]. b64_val (b64_digit n) = Some n \<and> b64_digit n \<noteq> b64_pad \<and> b64_digit n \<noteq> CHR 0x0A \<and> b64_digit n \<noteq> CHR 0x0D"
    by code_simp
  then show "b64_val (b64_digit n) = Some n" "b64_digit n \<noteq> b64_pad" "b64_digit n \<noteq> CHR 0x0A" "b64_digit n \<noteq> CHR 0x0D"
    using assms by simp_all
qed

lemma byte_bound: "unat (b :: byte) < 256"
  using unsigned_less [of b] by simp

lemma byte_parts: "unat (b :: byte) div 4 < 64" "unat b div 16 < 16" "unat b div 64 < 4"
  using byte_bound [of b] by (simp_all add: less_mult_imp_div_less)

lemma b64_bounds:
  fixes a b :: byte
  shows "unat a div 4 < 64" "unat a mod 4 * 16 < 64" "unat a mod 4 * 16 + unat b div 16 < 64"
    "unat a mod 16 * 4 < 64" "unat a mod 16 * 4 + unat b div 64 < 64" "unat a mod 64 < 64"
proof -
  have "unat a mod 4 < 4" "unat a mod 16 < 16" "unat a mod 64 < 64" by simp_all
  then show "unat a div 4 < 64" "unat a mod 4 * 16 < 64" "unat a mod 4 * 16 + unat b div 16 < 64"
    "unat a mod 16 * 4 < 64" "unat a mod 16 * 4 + unat b div 64 < 64" "unat a mod 64 < 64"
    using byte_parts [of a] byte_parts [of b] by linarith+
qed

lemma b64_bytes:
  fixes a b c :: byte
  shows "unat a div 4 * 4 + unat a mod 4 * 16 div 16 = unat a"
    "unat a div 4 * 4 + (unat a mod 4 * 16 + unat b div 16) div 16 = unat a"
    "(unat a mod 4 * 16 + unat b div 16) mod 16 * 16 + unat b mod 16 * 4 div 4 = unat b"
    "(unat a mod 4 * 16 + unat b div 16) mod 16 * 16 + (unat b mod 16 * 4 + unat c div 64) div 4 = unat b"
    "(unat b mod 16 * 4 + unat c div 64) mod 4 * 64 + unat c mod 64 = unat c"
  using byte_parts [of a] byte_parts [of b] byte_parts [of c] by (simp_all add: div_mult_mod_eq)

lemma b64_roundtrip: "b64_quanta (encodeBase64 bs) = Some bs"
proof (induction bs rule: encodeBase64.induct)
qed (simp_all only: encodeBase64.simps b64_quanta.simps b64_digits b64_bounds b64_bytes option.case prod.case if_False if_True simp_thms
    append.simps of_nat_unat ucast_id)

lemma encodeBase64_chars: "c \<in> set (encodeBase64 bs) \<Longrightarrow> c \<noteq> CHR 0x0A \<and> c \<noteq> CHR 0x0D"
  by (induction bs rule: encodeBase64.induct)
    (auto simp: b64_digits(3,4) b64_bounds b64_pad_def)

lemma decode_encode: "decodeBase64 (encodeBase64 bs) = Some bs"
proof -
  have "filter (\<lambda>c. c \<noteq> CHR 0x0A \<and> c \<noteq> CHR 0x0D) (encodeBase64 bs) = encodeBase64 bs"
    using encodeBase64_chars by (intro filter_True) blast
  then show ?thesis by (simp add: decodeBase64_def b64_roundtrip)
qed

section \<open>Handlers\<close>

record produce_request =
  pr_RequestID :: string
  pr_Type :: string
  pr_Topic :: string
  pr_Key :: string
  pr_Value :: string

record consume_request =
  cr_RequestID :: string
  cr_Type :: string
  cr_Topic :: string
  cr_Partition :: int
  cr_Offset :: int

record message_body =
  mb_topic :: string
  mb_partition :: int
  mb_key :: string
  mb_value :: string
  mb_offset :: int
  mb_timestamp :: int

datatype http_body =
    ErrorText string
  | ErrorOf broker_error
  | Produced string message_body
  | Messages string "message_body list"

definition body_of :: "Message \<Rightarrow> message_body" where
  "body_of msg =
     \<lparr>mb_topic = m_Topic msg, mb_partition = m_Partition msg, mb_key = m_Key msg, mb_value = encodeBase64 (m_Value msg),
      mb_offset = m_Offset msg, mb_timestamp = m_Timestamp msg\<rparr>"

definition handleProduce ::
    "(nat \<Rightarrow> time) \<Rightarrow> ((string \<times> ProducerState) list \<Rightarrow> (string \<times> ProducerState) list) \<Rightarrow>
     ((string \<times> TraceContext) list \<Rightarrow> (string \<times> TraceContext) list) \<Rightarrow> (string \<Rightarrow> RouteInfo http_answer) \<Rightarrow>
     produce_request option \<Rightarrow> Broker \<Rightarrow> ((int \<times> http_body) \<times> Broker) go" where
  "handleProduce clk ordI ordT get request b =
     (case request of
        None \<Rightarrow> Ret ((400, ErrorText ''invalid request''), b)
      | Some req \<Rightarrow>
          (case decodeBase64 (pr_Value req) of
             None \<Rightarrow> Ret ((400, ErrorText ''invalid base64 value''), b)
           | Some valueBytes \<Rightarrow>
               go_bind (Produce clk ordI ordT get (pr_Topic req) (pr_Key req) valueBytes [] [] 0 b)
                 (\<lambda>(res, b1). Ret (case res of
                    Inl e \<Rightarrow> ((500, ErrorOf e), b1)
                  | Inr msg \<Rightarrow> ((200, Produced (pr_RequestID req) (body_of msg)), b1)))))"

definition handleConsume :: "idx_order \<Rightarrow> consume_request option \<Rightarrow> Broker \<Rightarrow> (int \<times> http_body) go" where
  "handleConsume ord request b =
     (case request of
        None \<Rightarrow> Ret (400, ErrorText ''invalid request'')
      | Some req \<Rightarrow>
          go_bind (Consume ord (cr_Topic req) (cr_Partition req) (cr_Offset req) [] b)
            (\<lambda>res. Ret (case res of
               Inl e \<Rightarrow> (500, ErrorOf e)
             | Inr msgs \<Rightarrow> (200, Messages (cr_RequestID req) (if msgs = [] then [] else map body_of msgs)))))"

text \<open>A request to produce with a base64 value is answered with status 200 only if exactly one entry with the decoded value was appended to the log; the
  answer names the request and carries the value again. In all other cases the log is as before.\<close>

theorem handleProduce_appends:
  assumes "handleProduce clk ordI ordT get (Some req) b = Ret ((status, body), b')" and "pr_Value req = encodeBase64 val"
  shows "if status = 200
    then \<exists>m e p. body = Produced (pr_RequestID req) m \<and> decodeBase64 (mb_value m) = Some val \<and> mb_topic m = pr_Topic req
           \<and> log (raftNode b') = log (raftNode b) @ [e] \<and> data_entry (pr_Topic req) p val e
    else raftNode b' = raftNode b"
proof -
  obtain res b1 where p: "Produce clk ordI ordT get (pr_Topic req) (pr_Key req) val [] [] 0 b = Ret (res, b1)"
    using assms(1) decode_encode [of val]
    by (cases "Produce clk ordI ordT get (pr_Topic req) (pr_Key req) val [] [] 0 b") (auto simp: handleProduce_def assms(2))
  have r: "(status, body) = (case res of Inl e \<Rightarrow> (500, ErrorOf e) | Inr msg \<Rightarrow> (200, Produced (pr_RequestID req) (body_of msg)))" "b' = b1"
    using assms(1) decode_encode [of val] p by (auto simp: handleProduce_def assms(2) split: sum.splits)
  from p show ?thesis
  proof (cases rule: Produce_cases)
    case (submitted route im)
    from submitted(5) show ?thesis by (cases rule: produce_submit_cases) (use r in \<open>auto simp: body_of_def decode_encode\<close>)
  qed (use r in auto)
qed

theorem handleProduce_appends_witness:
  "\<exists>m b' e. handleProduce (\<lambda>i. 0) id id demo_route
       (Some \<lparr>pr_RequestID = ''r'', pr_Type = [], pr_Topic = ''t'', pr_Key = ''k'', pr_Value = ''Bw==''\<rparr>) demo_leader_b
     = Ret ((200, Produced ''r'' m), b') \<and> log (raftNode b') = log demo_raft @ [e] \<and> le_Data e = [7]"
proof -
  let ?req = "\<lparr>pr_RequestID = ''r'', pr_Type = [], pr_Topic = ''t'', pr_Key = ''k'', pr_Value = ''Bw==''\<rparr>"
  have v: "pr_Value ?req = encodeBase64 [7]" by (simp add: b64_digit_def b64_alphabet_def b64_pad_def)
  have "\<exists>msg b'. Produce (\<lambda>i. 0) id id demo_route ''t'' ''k'' [7] [] [] 0 demo_leader_b = Ret (Inr msg, b')"
    using demo_setup by (auto simp: Produce_def demo_leader_b_def produce_submit_def trace_event_def SubmitCommand_def Let_def split_beta)
  then obtain m b' where h: "handleProduce (\<lambda>i. 0) id id demo_route (Some ?req) demo_leader_b = Ret ((200, Produced ''r'' m), b')"
    using decode_encode [of "[7]"] v by (auto simp: handleProduce_def)
  from handleProduce_appends [OF h v] h show ?thesis by (auto simp: data_entry_def demo_leader_b_def)
qed

text \<open>After any committed entries, a request to consume is answered with status 200 and with values that decode to the payloads behind the
  requested offset, each once.\<close>

theorem handleConsume_returns_payloads:
  assumes "part_holds b (tp_key (cr_Topic req) (cr_Partition req)) ds" and "ds \<noteq> []" and "log_end ds \<le> segmentBytes" and "range_order ord"
    and "CheckPermission [] (cr_Topic req) ActionConsume (namespaceManager b) = Inr True"
  shows "\<exists>ms. handleConsume ord (Some req) b = Ret (200, Messages (cr_RequestID req) ms)
    \<and> mset (map (\<lambda>m. (mb_offset m, decodeBase64 (mb_value m))) ms) = mset (map (\<lambda>(off, d). (off, Some d)) (behind (cr_Offset req) ds))"
proof -
  obtain msgs where c: "Consume ord (cr_Topic req) (cr_Partition req) (cr_Offset req) [] b = Ret (Inr msgs)"
      and m: "mset (map msg_pair msgs) = mset (behind (cr_Offset req) ds)"
    using Consume_holds [OF assms] by blast
  have "map (\<lambda>m. (mb_offset m, decodeBase64 (mb_value m))) (map body_of msgs) = map (\<lambda>(off, d). (off, Some d)) (map msg_pair msgs)"
    by (simp add: body_of_def decode_encode msg_pair_def)
  moreover have "mset (map (\<lambda>(off, d). (off, Some d)) (map msg_pair msgs)) = mset (map (\<lambda>(off, d). (off, Some d)) (behind (cr_Offset req) ds))"
    using m by (simp only: mset_map)
  moreover have "handleConsume ord (Some req) b = Ret (200, Messages (cr_RequestID req) (map body_of msgs))"
    using c by (simp add: handleConsume_def)
  ultimately show ?thesis by (intro exI [of _ "map body_of msgs"]) (simp only: simp_thms)
qed

theorem handleConsume_returns_payloads_witness:
  "\<exists>b ms. part_holds b (tp_key ''t'' 0) [[1], [2]]
    \<and> handleConsume id (Some \<lparr>cr_RequestID = ''r'', cr_Type = [], cr_Topic = ''t'', cr_Partition = 0, cr_Offset = 0\<rparr>) b = Ret (200, Messages ''r'' ms)
    \<and> mset (map (\<lambda>m. (mb_offset m, decodeBase64 (mb_value m))) ms) = {#(21, Some [2])#}"
proof -
  obtain b where b: "part_holds b (tp_key ''t'' 0) [[1], [2]]" "namespaceManager b = NewNamespaceManager" using demo_applied by blast
  from handleConsume_returns_payloads [where req = "\<lparr>cr_RequestID = ''r'', cr_Type = [], cr_Topic = ''t'', cr_Partition = 0, cr_Offset = 0\<rparr>"
      and b = b and ds = "[[1], [2]]" and ord = id] b
  show ?thesis by (auto simp: segmentBytes_def behind_def CheckPermission_def NewNamespaceManager_def)
qed

end
