(* ===== verification/Config.thy ===== *)
theory Config
  imports Nameserver Broker_Requests
begin

text \<open>
  \<^verbatim>\<open>cluster/go/config/config.go\<close> and \<^verbatim>\<open>cluster/go/main.go\<close>: the configuration with its defaults, and which process a
  configuration starts. The configuration library is a parameter: what reading the file gives, and what the file and the environment decode to.
\<close>

record Config =
  cfg_Role :: string
  cfg_Addr :: string
  cfg_ClientAddr :: string
  cfg_HTTPPort :: int
  cfg_NameServer :: string
  cfg_DataDir :: string
  cfg_RetentionMs :: int
  cfg_RetentionBytes :: int

definition setDefaults :: "Config \<Rightarrow> Config" where
  "setDefaults c =
     c\<lparr>cfg_Addr := (if cfg_Addr c = [] then ''localhost:8080'' else cfg_Addr c),
       cfg_ClientAddr := (if cfg_ClientAddr c = [] then ''localhost:9092'' else cfg_ClientAddr c),
       cfg_HTTPPort := (if cfg_HTTPPort c = 0 then 8080 else cfg_HTTPPort c),
       cfg_NameServer := (if cfg_NameServer c = [] then ''http://localhost:9090'' else cfg_NameServer c),
       cfg_DataDir := (if cfg_DataDir c = [] then ''./data'' else cfg_DataDir c),
       cfg_RetentionMs := (if cfg_RetentionMs c = 0 then 7 * 24 * 60 * 60 * 1000 else cfg_RetentionMs c)\<rparr>"

datatype read_outcome = ConfigRead | ConfigFileNotFound | ConfigReadError

datatype config_error = FailedToRead | FailedToUnmarshal

record viper =
  ReadInConfig :: "string \<Rightarrow> read_outcome"
  Unmarshal :: "string \<Rightarrow> Config option"

definition LoadConfig :: "viper \<Rightarrow> string \<Rightarrow> config_error + Config" where
  "LoadConfig v configPath =
     (let path = (if configPath = [] then ''./config.yaml'' else configPath)
      in if ReadInConfig v path = ConfigReadError then Inl FailedToRead
         else case Unmarshal v path of
                None \<Rightarrow> Inl FailedToUnmarshal
              | Some c \<Rightarrow> Inr (setDefaults c))"

datatype 'db process = RunsNameServer "'db NameServer" | RunsBroker Broker | Registering | Usage

text \<open>The switch of \<open>main\<close>: \<open>ns\<close> makes the name server of an address and a port, \<open>nb\<close> the broker of the arguments of \<open>NewBroker\<close>.\<close>

definition main_switch ::
    "(string \<Rightarrow> int \<Rightarrow> 'db NameServer) \<Rightarrow> (string \<Rightarrow> string \<Rightarrow> int \<Rightarrow> string \<Rightarrow> string \<Rightarrow> Broker option go) \<Rightarrow> Config \<Rightarrow> 'db process go" where
  "main_switch ns nb cfg =
     (if cfg_Role cfg = ''nameserver'' then Ret (RunsNameServer (ns (cfg_Addr cfg) (cfg_HTTPPort cfg)))
      else if cfg_Role cfg = ''broker''
      then go_bind (nb (cfg_Addr cfg) (cfg_ClientAddr cfg) (cfg_HTTPPort cfg) (cfg_NameServer cfg) (cfg_DataDir cfg))
             (\<lambda>ob. Ret (case ob of
                None \<Rightarrow> Registering
              | Some b \<Rightarrow> RunsBroker (SetRetention (cfg_RetentionMs cfg) (cfg_RetentionBytes cfg) b)))
      else Ret Usage)"

text \<open>Defaults fill what is missing and keep what is given.\<close>

lemma setDefaults_idem: "setDefaults (setDefaults c) = setDefaults c"
  by (simp add: setDefaults_def)

lemma setDefaults_complete:
  "cfg_Addr (setDefaults c) \<noteq> [] \<and> cfg_ClientAddr (setDefaults c) \<noteq> [] \<and> cfg_NameServer (setDefaults c) \<noteq> [] \<and>
   cfg_DataDir (setDefaults c) \<noteq> [] \<and> cfg_HTTPPort (setDefaults c) \<noteq> 0 \<and> cfg_RetentionMs (setDefaults c) \<noteq> 0"
  by (simp add: setDefaults_def)

text \<open>The defaults do not fit together: a name server that is configured with its role alone serves on port 8080, while brokers look for it on
  port 9090, and a broker uses port 8080 both for Raft and for HTTP.\<close>

lemma default_ports_disagree:
  assumes "LoadConfig v path = Inr cfg" and "Unmarshal v (if path = [] then ''./config.yaml'' else path) = Some c"
    and "cfg_HTTPPort c = 0" and "cfg_NameServer c = []" and "cfg_Addr c = []"
  shows "cfg_HTTPPort cfg = 8080 \<and> cfg_NameServer cfg = ''http://localhost:9090'' \<and> cfg_Addr cfg = ''localhost:'' @ itoa (cfg_HTTPPort cfg)"
proof -
  have "cfg = setDefaults c" using assms(1,2) by (auto simp: LoadConfig_def Let_def split: if_splits)
  moreover have "itoa 8080 = ''8080''" by (simp add: itoa_def nat_str.simps digit_char_def char_of_def bit_Suc_0_iff)
  ultimately show ?thesis using assms(3-5) by (simp add: setDefaults_def)
qed

text \<open>A broker that has started keeps the retention of its configuration and listens under the configured address.\<close>

lemma broker_started:
  assumes "cfg_Role cfg = ''broker''"
    and "main_switch ns (NewBroker answers listed d tid opened r) cfg = Ret (RunsBroker b)"
  shows "retentionMs b = cfg_RetentionMs cfg \<and> retentionBytes b = cfg_RetentionBytes cfg \<and> b_clientAddr b = cfg_ClientAddr cfg
    \<and> raftNode b = NewRaftNode (cfg_Addr cfg) (initial_peers (cfg_Addr cfg) listed) True (cfg_DataDir cfg @ ''/raft'') d tid
    \<and> b_topics b = []"
proof -
  obtain wheel where w: "NewTimeWheel 100 3600 = Ret wheel" by (simp add: NewTimeWheel_def)
  show ?thesis using assms
    by (auto simp: main_switch_def NewBroker_def w registerAndInitializeRaft_def SetRetention_def broker_struct_def
        split: option.splits)
qed

end
