(* ===== verification/Processes.thy ===== *)
theory Processes
  imports Http_Api Config
begin

text \<open>
  The loops that drive the components (\<open>Start\<close> of the broker and of the name server, and what it starts): tickers, the accept loop of the
  TCP server, the table of HTTP paths, the flush loop of a commit log, \<open>main\<close>. A select that waits for a pulse and for the stop channel is a
  function of the sequence of its choices; an unbounded loop is described by what its first rounds do.
\<close>

section \<open>Tickers\<close>

text \<open>\<open>Some e\<close> is a pulse, with what the round meets; \<open>None\<close> is the closed stop channel.\<close>

fun ticker_loop :: "('e \<Rightarrow> 's \<Rightarrow> 's go) \<Rightarrow> 'e option list \<Rightarrow> 's \<Rightarrow> 's go" where
  "ticker_loop f [] s = Ret s"
| "ticker_loop f (None # evs) s = Ret s"
| "ticker_loop f (Some e # evs) s = go_bind (f e s) (ticker_loop f evs)"

type_synonym cleanup_round =
  "((string \<times> TopicPartition) list \<Rightarrow> (string \<times> TopicPartition) list) \<times> (string \<Rightarrow> time) \<times> (string \<Rightarrow> int \<Rightarrow> time)"

definition startLogCleanup :: "cleanup_round option list \<Rightarrow> Broker \<Rightarrow> Broker go" where
  "startLogCleanup = ticker_loop (\<lambda>(ord, now, mtime) b. Ret (cleanupOldSegments ord now mtime b))"

definition startRetryProcessor :: "time option list \<Rightarrow> Broker \<Rightarrow> Broker go" where
  "startRetryProcessor = ticker_loop processRetryQueue"

text \<open>Here a round is a receive from the channel of the time wheel.\<close>

definition startDelayedMessageProcessor :: "unit option list \<Rightarrow> Broker \<Rightarrow> Broker go" where
  "startDelayedMessageProcessor = ticker_loop (\<lambda>u b. processDelayed b)"

definition isr_ticker :: "unit option list \<Rightarrow> RaftNode \<Rightarrow> RaftNode go" where
  "isr_ticker = ticker_loop (\<lambda>u r. Ret (checkISR r))"

lemma ticker_loop_append:
  "None \<notin> set evs \<Longrightarrow> ticker_loop f (evs @ evs') s = go_bind (ticker_loop f evs s) (ticker_loop f evs')"
proof (induction evs arbitrary: s)
  case (Cons e evs)
  then obtain x where "e = Some x" by (cases e) auto
  with Cons show ?case by (cases "f x s") auto
qed simp

lemma ticker_loop_stopped: "None \<notin> set evs \<Longrightarrow> ticker_loop f (evs @ None # evs') s = ticker_loop f evs s"
  by (simp add: ticker_loop_append) (cases "ticker_loop f evs s"; simp)

text \<open>The messages of the queue that are due at one of the pulses.\<close>

definition ever_due :: "time list \<Rightarrow> RetryMessage \<Rightarrow> bool" where
  "ever_due ts m \<longleftrightarrow> (\<exists>t \<in> set ts. due t m)"

lemma filter_ever_due:
  "mset (filter (ever_due (t # ts)) msgs) = mset (filter (due t) msgs) + mset (filter (ever_due ts) (filter (\<lambda>m. \<not> due t m) msgs))"
  by (induction msgs) (auto simp: ever_due_def simp del: mset_filter)

lemma filter_never_due: "filter (\<lambda>m. \<not> ever_due (t # ts) m) msgs = filter (\<lambda>m. \<not> ever_due ts m) (filter (\<lambda>m. \<not> due t m) msgs)"
  by (simp add: ever_due_def filter_filter conj_commute)

lemma retry_rounds:
  assumes "state (raftNode b) = Leader" and "peers (raftNode b) \<noteq> []"
  shows "\<exists>b' ms es. ticker_loop processRetryQueue (map Some ts) b = Ret b' \<and> retryQueue b' = filter (\<lambda>m. \<not> ever_due ts m) (retryQueue b) \<and>
    mset ms = mset (filter (ever_due ts) (retryQueue b)) \<and> log (raftNode b') = log (raftNode b) @ es \<and> list_all2 retry_entry ms es"
  using assms
proof (induction ts arbitrary: b)
  case Nil
  show ?case by (intro exI [of _ b] exI [of _ "[]"]) (simp add: ever_due_def)
next
  case (Cons t ts)
  obtain b1 es where b1: "processRetryQueue t b = Ret b1" "retryQueue b1 = filter (\<lambda>m. \<not> due t m) (retryQueue b)"
    "log (raftNode b1) = log (raftNode b) @ es" "list_all2 retry_entry (filter (due t) (retryQueue b)) es"
    "state (raftNode b1) = Leader" "peers (raftNode b1) \<noteq> []"
    using retry_loop_leader [OF Cons.prems, of t "retryQueue b" "[]"] Cons.prems(2) by (auto simp: processRetryQueue_def)
  obtain b' ms es' where i: "ticker_loop processRetryQueue (map Some ts) b1 = Ret b'"
    "retryQueue b' = filter (\<lambda>m. \<not> ever_due ts m) (retryQueue b1)" "mset ms = mset (filter (ever_due ts) (retryQueue b1))"
    "log (raftNode b') = log (raftNode b1) @ es'" "list_all2 retry_entry ms es'"
    using Cons.IH [OF b1(5,6)] by blast
  have "ticker_loop processRetryQueue (map Some (t # ts)) b = Ret b'" using b1(1) i(1) by simp
  moreover have "retryQueue b' = filter (\<lambda>m. \<not> ever_due (t # ts) m) (retryQueue b)" unfolding filter_never_due i(2) b1(2) ..
  moreover have "mset (filter (due t) (retryQueue b) @ ms) = mset (filter (ever_due (t # ts)) (retryQueue b))"
    unfolding filter_ever_due using i(3) b1(2) by simp
  moreover have "log (raftNode b') = log (raftNode b) @ es @ es'" using i(4) b1(3) by simp
  moreover have "list_all2 retry_entry (filter (due t) (retryQueue b) @ ms) (es @ es')" using b1(4) i(5) by (rule list_all2_appendI)
  ultimately show ?case by blast
qed

text \<open>
  C21. The retry processor of a leader with peers, over any number of pulses until it is stopped: every message of the queue that is due at one of
  the pulses is submitted to its retry topic exactly once, the others stay in the queue in their order, and nothing happens after the stop.
\<close>

theorem retry_processor_submits_once:
  assumes "state (raftNode b) = Leader" and "peers (raftNode b) \<noteq> []"
  shows "\<exists>b' ms es. startRetryProcessor (map Some ts @ None # rest) b = Ret b' \<and>
    retryQueue b' = filter (\<lambda>m. \<not> ever_due ts m) (retryQueue b) \<and> mset ms = mset (filter (ever_due ts) (retryQueue b)) \<and>
    log (raftNode b') = log (raftNode b) @ es \<and> list_all2 retry_entry ms es"
proof -
  have "startRetryProcessor (map Some ts @ None # rest) b = ticker_loop processRetryQueue (map Some ts) b"
    unfolding startRetryProcessor_def by (rule ticker_loop_stopped) auto
  then show ?thesis using retry_rounds [OF assms, of ts] by simp
qed

theorem retry_processor_submits_once_witness:
  "\<exists>b' ms es. startRetryProcessor [Some 4, Some 6, None, Some 20]
      (demo_leader_b\<lparr>retryQueue := [\<lparr>rm_Topic = ''t'', rm_Partition = 0, rm_Offset = 0, rm_Data = [7], RetryCount = 1, NextRetryAt = 5\<rparr>,
         \<lparr>rm_Topic = ''t'', rm_Partition = 0, rm_Offset = 9, rm_Data = [8], RetryCount = 1, NextRetryAt = 10\<rparr>]\<rparr>) = Ret b' \<and>
    map rm_Data (retryQueue b') = [[8]] \<and> map rm_Data ms = [[7]] \<and> log (raftNode b') = log demo_raft @ es \<and> list_all2 retry_entry ms es"
proof -
  let ?b = "demo_leader_b\<lparr>retryQueue := [\<lparr>rm_Topic = ''t'', rm_Partition = 0, rm_Offset = 0, rm_Data = [7], RetryCount = 1, NextRetryAt = 5\<rparr>,
         \<lparr>rm_Topic = ''t'', rm_Partition = 0, rm_Offset = 9, rm_Data = [8], RetryCount = 1, NextRetryAt = 10\<rparr>]\<rparr>"
  have "state (raftNode ?b) = Leader" "peers (raftNode ?b) \<noteq> []" "log (raftNode ?b) = log demo_raft" by (simp_all add: demo_leader_b_def)
  with retry_processor_submits_once [of ?b "[4, 6]" "[Some 20]"] obtain b' ms es where
    "startRetryProcessor [Some 4, Some 6, None, Some 20] ?b = Ret b'" "map rm_Data (retryQueue b') = [[8]]"
    "mset ms = {#\<lparr>rm_Topic = ''t'', rm_Partition = 0, rm_Offset = 0, rm_Data = [7], RetryCount = 1, NextRetryAt = 5\<rparr>#}"
    "log (raftNode b') = log demo_raft @ es" "list_all2 retry_entry ms es"
    by (auto simp: ever_due_def due_def)
  moreover from this(3) have "map rm_Data ms = [[7]]" by simp
  ultimately show ?thesis by (intro exI [of _ b'] exI [of _ ms] exI [of _ es] conjI)
qed

section \<open>The accept loop\<close>

text \<open>\<open>startTCPServer\<close>: what \<open>Accept\<close> gives, with whether the stop channel is closed by then. The result is the connections for which
  \<open>handleClient\<close> is started, and whether the loop still runs. \<open>listen\<close> says whether the address could be taken.\<close>

fun accept_loop :: "(bool \<times> 'conn option) list \<Rightarrow> 'conn list \<times> bool" where
  "accept_loop [] = ([], True)"
| "accept_loop ((stopped, Some conn) # evs) = (case accept_loop evs of (conns, running) \<Rightarrow> (conn # conns, running))"
| "accept_loop ((stopped, None) # evs) = (if stopped then ([], False) else accept_loop evs)"

definition startTCPServer :: "bool \<Rightarrow> (bool \<times> 'conn option) list \<Rightarrow> 'conn list \<times> bool" where
  "startTCPServer listen evs = (if listen then accept_loop evs else ([], False))"

text \<open>
  Nothing closes the listener, and the loop looks at the stop channel only after an error of \<open>Accept\<close>: as long as \<open>Accept\<close> does not fail,
  every connection is served, those made after \<open>Stop\<close> as well, and the loop goes on.
\<close>

lemma accept_after_stop:
  "startTCPServer True (map (\<lambda>(stopped, conn). (stopped, Some conn)) evs) = (map snd evs, True)"
  by (induction evs) (auto simp: startTCPServer_def)

section \<open>The flush loop of a commit log\<close>

text \<open>Calls of \<open>AppendAsync\<close>, and rounds of \<open>batchFlushLoop\<close>: a pulse of its ticker, or the signal that the batch is full.\<close>

datatype log_event = Async "byte list" | FlushTick "nat \<Rightarrow> io \<times> time" | FlushSignal "nat \<Rightarrow> io \<times> time"

fun batchFlushLoop_round :: "CommitLog \<Rightarrow> log_event \<Rightarrow> CommitLog" where
  "batchFlushLoop_round cl (Async data) = AppendAsync data cl"
| "batchFlushLoop_round cl (FlushTick env) = batchFlush env cl"
| "batchFlushLoop_round cl (FlushSignal env) = (if flushCh cl then batchFlush env (cl\<lparr>flushCh := False\<rparr>) else cl)"

definition append_one :: "CommitLog \<Rightarrow> (io \<times> time) \<times> byte list \<Rightarrow> CommitLog" where
  "append_one cl x = snd (Append (fst (fst x)) (snd (fst x)) (snd x) cl)"

fun asyncs :: "log_event list \<Rightarrow> byte list list" where
  "asyncs [] = []"
| "asyncs (Async d # evs) = d # asyncs evs"
| "asyncs (_ # evs) = asyncs evs"

lemma asyncs_append [simp]: "asyncs (evs @ evs') = asyncs evs @ asyncs evs'"
  by (induction evs rule: asyncs.induct) simp_all

lemma append_one_buffer:
  "append_one (cl\<lparr>batchBuffer := b, flushCh := f\<rparr>) x = (append_one cl x)\<lparr>batchBuffer := b, flushCh := f\<rparr>"
  by (simp add: append_one_def Append_def open_segment_def write_inode_def Let_def split: io.split option.split)

lemma append_all_buffer:
  "foldl append_one (cl\<lparr>batchBuffer := b, flushCh := f\<rparr>) xs = (foldl append_one cl xs)\<lparr>batchBuffer := b, flushCh := f\<rparr>"
proof (induction xs arbitrary: cl)
  case (Cons x xs)
  then show ?case unfolding foldl_Cons append_one_buffer by blast
qed simp

text \<open>
  What the loop promises, over a queue: the payloads that wait, the signal, and what has been written, each payload with the outcome and the time of the write that
  the round met for it.
\<close>

type_synonym flush_queue = "((io \<times> time) \<times> byte list) list \<times> byte list list \<times> bool"

definition flushed :: "(nat \<Rightarrow> io \<times> time) \<Rightarrow> byte list list \<Rightarrow> ((io \<times> time) \<times> byte list) list" where
  "flushed env waiting = map (\<lambda>(i, d). (env i, d)) (enumerate 0 waiting)"

fun queue_step :: "int \<Rightarrow> flush_queue \<Rightarrow> log_event \<Rightarrow> flush_queue" where
  "queue_step sz (written, waiting, signal) (Async d) = (written, waiting @ [d], signal \<or> sz \<le> 1 + int (length waiting))"
| "queue_step sz (written, waiting, signal) (FlushTick env) = (written @ flushed env waiting, [], signal)"
| "queue_step sz (written, waiting, signal) (FlushSignal env) =
     (if signal then (written @ flushed env waiting, [], False) else (written, waiting, signal))"

lemma map_snd_flushed [simp]: "map snd (flushed env ws) = ws"
proof -
  have "map snd (flushed env ws) = map snd (enumerate 0 ws)" by (simp add: flushed_def comp_def split_def)
  then show ?thesis by simp
qed

lemma batchFlush_flushed: "batchFlush env cl = foldl append_one (cl\<lparr>batchBuffer := []\<rparr>) (flushed env (batchBuffer cl))"
  by (simp add: batchFlush_appends flushed_def foldl_map append_one_def split_def)

lemma append_all_batchSize [simp]: "batchSize (foldl append_one cl xs) = batchSize cl"
proof (induction xs arbitrary: cl)
  case (Cons x xs)
  have "batchSize (append_one cl x) = batchSize cl"
    by (simp add: append_one_def Append_def open_segment_def write_inode_def Let_def split: io.split option.split)
  with Cons show ?case by simp
qed simp

text \<open>The log that a queue stands for.\<close>

definition log_of :: "CommitLog \<Rightarrow> flush_queue \<Rightarrow> CommitLog" where
  "log_of cl q = (case q of (written, waiting, signal) \<Rightarrow> (foldl append_one cl written)\<lparr>batchBuffer := waiting, flushCh := signal\<rparr>)"

lemma flush_queue:
  "batchFlush env (log_of cl (written, waiting, signal)) = log_of cl (written @ flushed env waiting, [], signal)"
proof -
  let ?c = "foldl append_one cl written"
  have e: "(log_of cl (written, waiting, signal))\<lparr>batchBuffer := []\<rparr> = ?c\<lparr>batchBuffer := [], flushCh := signal\<rparr>" by (simp add: log_of_def)
  have b: "batchBuffer (log_of cl (written, waiting, signal)) = waiting" by (simp add: log_of_def)
  show ?thesis unfolding batchFlush_flushed e b append_all_buffer by (simp add: log_of_def)
qed

lemma round_refines: "batchFlushLoop_round (log_of cl q) e = log_of cl (queue_step (batchSize cl) q e)"
proof -
  obtain written waiting signal where q: "q = (written, waiting, signal)" by (cases q)
  have "flushCh (log_of cl (written, waiting, signal)) = signal"
    "(log_of cl (written, waiting, True))\<lparr>flushCh := False\<rparr> = log_of cl (written, waiting, False)" by (simp_all add: log_of_def)
  then show ?thesis
    by (cases e) (auto simp: q flush_queue, simp_all add: log_of_def AppendAsync_def Let_def)
qed

lemma queue_payloads:
  "map snd (fst (queue_step sz q e)) @ fst (snd (queue_step sz q e)) = map snd (fst q) @ fst (snd q) @ asyncs [e]"
  by (cases q; cases e) simp_all

text \<open>
  C19. Asynchronous appends reach the log once and in order. However calls of \<open>AppendAsync\<close>, pulses and signals of the flush loop interleave, the commit log is the one that
  the queue describes: \<open>Append\<close> has been called once for each payload that does not wait any more, in the order of the calls, with the outcome and the clock of
  the round that took the payload out of the buffer; the others wait in the buffer in their order; none is dropped or doubled.
\<close>

theorem async_appends_in_order:
  "let (written, waiting, signal) = foldl (queue_step (batchSize cl)) ([], batchBuffer cl, flushCh cl) evs
   in foldl batchFlushLoop_round cl evs = (foldl append_one cl written)\<lparr>batchBuffer := waiting, flushCh := signal\<rparr> \<and>
      map snd written @ waiting = batchBuffer cl @ asyncs evs"
proof -
  let ?q = "foldl (queue_step (batchSize cl)) ([], batchBuffer cl, flushCh cl)"
  have "foldl batchFlushLoop_round cl evs = log_of cl (?q evs)"
  proof (induction evs rule: rev_induct)
    case Nil
    show ?case by (simp add: log_of_def)
  next
    case (snoc e evs)
    then show ?case by (simp add: round_refines)
  qed
  moreover have "map snd (fst (?q evs)) @ fst (snd (?q evs)) = batchBuffer cl @ asyncs evs"
  proof (induction evs rule: rev_induct)
    case (snoc e evs)
    then show ?case using queue_payloads [of "batchSize cl" "?q evs" e] by simp
  qed simp
  ultimately show ?thesis by (auto simp: log_of_def Let_def split: prod.splits)
qed

section \<open>The HTTP paths of the name server\<close>

text \<open>\<open>http.ServeMux\<close> first cleans the path of a request (\<open>cleanPath\<close> of \<open>net/http\<close>, over \<open>path.Clean\<close>): empty parts and dots are dropped, two dots take the part
  before them away, a slash at the end stays. If that changes the path, the answer is a redirect to the clean one.\<close>

fun split_slash :: "string \<Rightarrow> string list" where
  "split_slash [] = [[]]"
| "split_slash (c # cs) = (if c = CHR ''/'' then [] # split_slash cs
     else case split_slash cs of [] \<Rightarrow> [[c]] | x # xs \<Rightarrow> (c # x) # xs)"

fun clean_parts :: "string list \<Rightarrow> string list \<Rightarrow> string list" where
  "clean_parts kept [] = rev kept"
| "clean_parts kept (x # xs) =
     (if x = [] \<or> x = ''.'' then clean_parts kept xs
      else if x = ''..'' then clean_parts (tl kept) xs
      else clean_parts (x # kept) xs)"

definition path_Clean :: "string \<Rightarrow> string" where
  "path_Clean p = (case clean_parts [] (split_slash p) of [] \<Rightarrow> ''/'' | xs \<Rightarrow> concat (map (\<lambda>x. CHR ''/'' # x) xs))"

definition cleanPath :: "string \<Rightarrow> string" where
  "cleanPath p =
     (if p = [] then ''/''
      else let p1 = (if hd p \<noteq> CHR ''/'' then CHR ''/'' # p else p); np = path_Clean p1
           in if last p1 = CHR ''/'' \<and> np \<noteq> ''/'' then np @ ''/'' else np)"

text \<open>The table that \<open>NameServer.Start\<close> registers: none of the patterns ends in a slash, so a clean path is served if it is one of them. \<open>m\<close> is what a request
  meets: orders of maps, readings of clocks, outcomes of writes. In the answer to a path that is not clean, the text is the location it redirects to.\<close>

record arrival =
  ar_order :: broker_order
  ar_now :: time
  ar_ages :: "int \<Rightarrow> time"
  ar_txOrder :: tx_order
  ar_io1 :: log_io
  ar_io2 :: log_io
  ar_now2 :: time
  ar_now3 :: time
  ar_now4 :: time

definition ns_Start :: "'db bolt \<Rightarrow> arrival \<Rightarrow> string \<Rightarrow> request \<Rightarrow> 'db NameServer \<Rightarrow> (response \<times> 'db NameServer) go" where
  "ns_Start bolt m path r n =
     (if cleanPath path \<noteq> path then Ret ((301, ErrBody (cleanPath path)), n)
      else if path = ''/register'' then Ret (handleRegister (ar_order m) (ar_now m) r n)
      else if path = ''/topic/create'' then Ret (handleCreateTopic (ar_order m) (ar_ages m) r n)
      else if path = ''/topic/info'' then Ret (handleTopicInfo r n, n)
      else if path = ''/broker/list'' then Ret (handleBrokerList (ar_order m) n, n)
      else if path = ''/broker/peers'' then Ret (handleBrokerPeers (ar_order m) n, n)
      else if path = ''/route'' then Ret (handleRoute r n, n)
      else if path = ''/consumer/join'' then Ret (handleJoinGroup (ar_now m) r n)
      else if path = ''/consumer/heartbeat'' then Ret (handleHeartbeat (ar_now m) r n)
      else if path = ''/consumer/commit_offset'' then Ret (handleCommitOffset bolt r n)
      else if path = ''/consumer/leave'' then Ret (handleLeaveGroup r n)
      else if path = ''/consumer/offset'' then go_bind (handleGetOffset bolt r n) (\<lambda>resp. Ret (resp, n))
      else if path = ''/tx/begin'' then Ret (handleBeginTx (ar_txOrder m) (ar_io1 m) (ar_now m) (ar_now2 m) (ar_now3 m) (ar_now4 m) r n)
      else if path = ''/tx/add'' then Ret (handleAddMessage (ar_txOrder m) (ar_io1 m) (ar_now m) r n)
      else if path = ''/tx/commit'' then Ret (handleCommitTx (ar_txOrder m) (ar_io1 m) (ar_io2 m) (ar_now m) (ar_now2 m) r n)
      else if path = ''/tx/rollback'' then Ret (handleRollbackTx (ar_txOrder m) (ar_io1 m) (ar_now m) r n)
      else if path = ''/tx/status'' then Ret (handleTxStatus r n, n)
      else Ret ((404, ErrBody ''404 page not found''), n))"

text \<open>A request is an operation of the name server, or changes nothing.\<close>

lemma ns_Start_step:
  assumes "ns_Start bolt m path r n = Ret (resp, n')" and "range_order (ar_order m)"
  shows "n' = n \<or> (\<exists>op. nsv_ok op \<and> n' = nsv_step bolt n op)"
proof -
  have "n' = n \<or> n' = nsv_step bolt n (NsRegister (ar_order m) (ar_now m) r) \<or> n' = nsv_step bolt n (NsCreateTopic (ar_order m) (ar_ages m) r)
    \<or> n' = nsv_step bolt n (NsJoin (ar_now m) r) \<or> n' = nsv_step bolt n (NsHeartbeat (ar_now m) r) \<or> n' = nsv_step bolt n (NsCommitOffset r)
    \<or> n' = nsv_step bolt n (NsLeave r) \<or> n' = nsv_step bolt n (NsBeginTx (ar_txOrder m) (ar_io1 m) (ar_now m) (ar_now2 m) (ar_now3 m) (ar_now4 m) r)
    \<or> n' = nsv_step bolt n (NsAddMessage (ar_txOrder m) (ar_io1 m) (ar_now m) r)
    \<or> n' = nsv_step bolt n (NsCommitTx (ar_txOrder m) (ar_io1 m) (ar_io2 m) (ar_now m) (ar_now2 m) r)
    \<or> n' = nsv_step bolt n (NsRollbackTx (ar_txOrder m) (ar_io1 m) (ar_now m) r)"
    using assms(1) unfolding ns_Start_def nsv_step.simps by (auto split: if_split_asm)
  moreover have "nsv_ok (NsRegister (ar_order m) (ar_now m) r)" "nsv_ok (NsCreateTopic (ar_order m) (ar_ages m) r)" "nsv_ok (NsJoin (ar_now m) r)"
    "nsv_ok (NsHeartbeat (ar_now m) r)" "nsv_ok (NsCommitOffset r)" "nsv_ok (NsLeave r)"
    "nsv_ok (NsBeginTx (ar_txOrder m) (ar_io1 m) (ar_now m) (ar_now2 m) (ar_now3 m) (ar_now4 m) r)" "nsv_ok (NsAddMessage (ar_txOrder m) (ar_io1 m) (ar_now m) r)"
    "nsv_ok (NsCommitTx (ar_txOrder m) (ar_io1 m) (ar_io2 m) (ar_now m) (ar_now2 m) r)" "nsv_ok (NsRollbackTx (ar_txOrder m) (ar_io1 m) (ar_now m) r)"
    using assms(2) by simp_all
  ultimately show ?thesis by blast
qed

text \<open>A sequence of HTTP requests. A handler that panics (\<open>handleGetOffset\<close> on a short value) is caught by the HTTP server and has changed nothing.\<close>

definition ns_serve :: "'db bolt \<Rightarrow> 'db NameServer \<Rightarrow> arrival \<times> string \<times> request \<Rightarrow> 'db NameServer" where
  "ns_serve bolt n q = (case q of (m, path, r) \<Rightarrow> (case ns_Start bolt m path r n of Ret (resp, n') \<Rightarrow> n' | _ \<Rightarrow> n))"

definition orderly :: "arrival \<times> string \<times> request \<Rightarrow> bool" where
  "orderly q \<longleftrightarrow> range_order (ar_order (fst q))"

lemma ns_serve_step:
  assumes "orderly q"
  shows "ns_serve bolt n q = n \<or> (\<exists>op. nsv_ok op \<and> ns_serve bolt n q = nsv_step bolt n op)"
proof -
  obtain m path r where q: "q = (m, path, r)" by (cases q)
  have o: "range_order (ar_order m)" using assms by (simp add: orderly_def q)
  show ?thesis
  proof (cases "ns_Start bolt m path r n")
    case (Ret x)
    obtain resp n' where "x = (resp, n')" by (cases x)
    with ns_Start_step [OF _ o, of bolt path r n resp n'] Ret show ?thesis by (simp add: ns_serve_def q)
  qed (simp_all add: ns_serve_def q)
qed

lemma ns_serve_inv: "nsv_inv n \<Longrightarrow> orderly q \<Longrightarrow> nsv_inv (ns_serve bolt n q)"
  using ns_serve_step [of q bolt n] nsv_inv_step [of n _ bolt] by auto

interpretation http: machine "ns_serve bolt" nsv_inv orderly for bolt
  by unfold_locales (rule ns_serve_inv)

text \<open>Whatever HTTP requests reach a new name server, on whatever paths, the registry and the groups stay well-formed.\<close>

lemma http_requests_inv:
  "list_all orderly qs \<Longrightarrow> nsv_inv (foldl (ns_serve bolt) (NewNameServer bolt opened left addr port) qs)"
  by (rule http.inv_run [OF nsv_inv_New])

text \<open>Every registered path is clean; one with a doubled slash is not, and is redirected.\<close>

lemma clean_examples:
  "cleanPath ''/register'' = ''/register''" "cleanPath ''/consumer/commit_offset'' = ''/consumer/commit_offset''"
  "cleanPath ''//register'' = ''/register''" "cleanPath ''/tx/../route/'' = ''/route/''" "cleanPath [] = ''/''"
  by (simp_all add: cleanPath_def path_Clean_def Let_def)

lemma ns_Start_redirects: "cleanPath path \<noteq> path \<Longrightarrow> ns_Start bolt m path r n = Ret ((301, ErrBody (cleanPath path)), n)"
  by (simp add: ns_Start_def)

section \<open>The HTTP paths of the broker\<close>

text \<open>The table that \<open>startHTTPServer\<close> registers. \<open>produce_body\<close> and \<open>consume_body\<close> are what the handlers decode of the request.\<close>

definition startHTTPServer ::
    "(nat \<Rightarrow> time) \<Rightarrow> ((string \<times> ProducerState) list \<Rightarrow> (string \<times> ProducerState) list) \<Rightarrow>
     ((string \<times> TraceContext) list \<Rightarrow> (string \<times> TraceContext) list) \<Rightarrow> idx_order \<Rightarrow> (string \<Rightarrow> RouteInfo http_answer) \<Rightarrow>
     produce_request option \<Rightarrow> consume_request option \<Rightarrow> string \<Rightarrow> Broker \<Rightarrow> ((int \<times> http_body) \<times> Broker) go" where
  "startHTTPServer clk ordI ordT ord get produce_body consume_body path b =
     (if cleanPath path \<noteq> path then Ret ((301, ErrorText (cleanPath path)), b)
      else if path = ''/produce'' then handleProduce clk ordI ordT get produce_body b
      else if path = ''/consume'' then go_bind (handleConsume ord consume_body b) (\<lambda>resp. Ret (resp, b))
      else Ret ((404, ErrorText ''404 page not found''), b))"

section \<open>main\<close>

text \<open>The file that \<open>-generate-config\<close> writes, line by line.\<close>

definition config_example :: "string list" where
  "config_example =
     [''# DistributedMQ Configuration'', [], ''# Service role: nameserver or broker'', ''role: \"broker\"'', [],
      ''# Raft/gRPC address (used for cluster communication)'', ''addr: \"localhost:8081\"'', [],
      ''# Client TCP address (used for producer/consumer connections)'', ''client_addr: \"localhost:9092\"'', [],
      ''# HTTP port (for admin API)'', ''http_port: 8080'', [], ''# NameServer URL'', ''nameserver: \"http://localhost:9090\"'', [],
      ''# Data directory for storage'', ''data_dir: \"./data\"'', [], ''# Log retention settings'', ''retention_ms: 604800000'', ''retention_bytes: 0'']"

definition GenerateConfigExample :: string where
  "GenerateConfigExample = concat (map (\<lambda>l. l @ [CHR 0x0A]) config_example)"

datatype 'db started = WroteExample string | LoadFailed config_error | Started "'db process"

definition mq_main ::
    "bool \<Rightarrow> viper \<Rightarrow> string \<Rightarrow> (string \<Rightarrow> int \<Rightarrow> 'db NameServer) \<Rightarrow>
     (string \<Rightarrow> string \<Rightarrow> int \<Rightarrow> string \<Rightarrow> string \<Rightarrow> Broker option go) \<Rightarrow> 'db started go" where
  "mq_main generateConfig v configPath ns nb =
     (if generateConfig then Ret (WroteExample GenerateConfigExample)
      else case LoadConfig v configPath of
             Inl err \<Rightarrow> Ret (LoadFailed err)
           | Inr cfg \<Rightarrow> go_bind (main_switch ns nb cfg) (\<lambda>p. Ret (Started p)))"

text \<open>The value of a key in a file of \<open>key: value\<close> lines.\<close>

definition yaml_value :: "string \<Rightarrow> string list \<Rightarrow> string option" where
  "yaml_value key ls = map_option (drop (length key + 2)) (find (\<lambda>l. take (length key + 2) l = key @ '': '') ls)"

text \<open>The example names a broker whose Raft, client and HTTP ports differ, and keeps messages for as long as the default of \<open>setDefaults\<close>.\<close>

lemma config_example_values:
  "yaml_value ''role'' config_example = Some ''\"broker\"'' \<and> yaml_value ''addr'' config_example = Some ''\"localhost:8081\"'' \<and>
   yaml_value ''client_addr'' config_example = Some ''\"localhost:9092\"'' \<and> yaml_value ''http_port'' config_example = Some ''8080'' \<and>
   yaml_value ''retention_ms'' config_example = Some ''604800000''"
  by (simp add: yaml_value_def config_example_def)

end
