(* ===== verification/Java_Client.thy ===== *)
theory Java_Client
  imports Clients Http_Api
begin

text \<open>
  The Java client, \<^verbatim>\<open>java/mq-client\<close>: the decoder of answers (\<^verbatim>\<open>MQDecoder\<close>), the producer with its retries (\<^verbatim>\<open>MQProducer\<close>) and the consumer
  (\<^verbatim>\<open>MQConsumer\<close>), against the broker of \<^verbatim>\<open>cluster/go\<close>. Netty, HTTP and JSON are parameters: what a lookup or a request gives, and what releasing a buffer does.

  Shown: the decoder reads fetch answers back; it never completes the answer to a successful produce request, which is shorter than it expects, so that the
  producer sends every message as often as it may and reports a failure; a consumer that joins a group starts at offset 0; \<open>poll\<close> loses every answer.
\<close>

section \<open>Decoder\<close>

record MQMessage =
  mq_topic :: "string option"
  mq_partition :: int
  mq_data :: "byte list"
  mq_offset :: int
  mq_timestamp :: int

record FetchResponse =
  status :: byte
  highWatermark :: int
  messageCount :: int
  messages :: "MQMessage list option"
  redirectLeader :: "string option"

definition isSuccess :: "FetchResponse \<Rightarrow> bool" where
  "isSuccess r \<longleftrightarrow> status r = RespSuccess"

definition isRedirect :: "FetchResponse \<Rightarrow> bool" where
  "isRedirect r \<longleftrightarrow> status r = RespRedirect"

text \<open>\<open>More\<close>: the reader index is reset and the decoder waits for more bytes. \<open>Thrown\<close>: a list or an array of negative size.\<close>

datatype decode_stop = More | Thrown

definition decode_message :: "byte list \<Rightarrow> decode_stop + MQMessage \<times> byte list" where
  "decode_message bs =
     (case ReadFull 20 bs of
        None \<Rightarrow> Inl More
      | Some (h, bs1) \<Rightarrow>
          let dataLen = to_s 32 (get_be (take 4 (drop 16 h)))
          in if int (length bs1) < dataLen then Inl More
             else if dataLen < 0 then Inl Thrown
             else Inr (\<lparr>mq_topic = None, mq_partition = 0, mq_data = take (nat dataLen) bs1,
                        mq_offset = to_s 64 (get_be (take 8 h)), mq_timestamp = to_s 64 (get_be (take 8 (drop 8 h)))\<rparr>,
                       drop (nat dataLen) bs1))"

definition decode :: "byte list \<Rightarrow> decode_stop + FetchResponse \<times> byte list" where
  "decode bs =
     (case ReadFull 2 bs of
        None \<Rightarrow> Inl More
      | Some (h, bs1) \<Rightarrow>
          if h ! 0 \<noteq> Magic then Inl More
          else if h ! 1 = RespSuccess
          then (case ReadFull 12 bs1 of
                  None \<Rightarrow> Inl More
                | Some (h2, bs2) \<Rightarrow>
                    let msgCount = to_s 32 (get_be (drop 8 h2))
                    in if msgCount < 0 then Inl Thrown
                       else case read_many decode_message (nat msgCount) bs2 of
                              (msgs, Some e, rest) \<Rightarrow> Inl e
                            | (msgs, None, rest) \<Rightarrow>
                                Inr (\<lparr>status = h ! 1, highWatermark = to_s 64 (get_be (take 8 h2)), messageCount = msgCount,
                                      messages = Some msgs, redirectLeader = None\<rparr>, rest))
          else if h ! 1 = RespRedirect
          then (case ReadFull 1 bs1 of
                  None \<Rightarrow> Inl More
                | Some (l, bs2) \<Rightarrow>
                    (case ReadFull (unat (l ! 0)) bs2 of
                       None \<Rightarrow> Inl More
                     | Some (leaderBytes, rest) \<Rightarrow>
                         Inr (\<lparr>status = h ! 1, highWatermark = 0, messageCount = 0, messages = None,
                               redirectLeader = Some (string_of leaderBytes)\<rparr>, rest)))
          else Inr (\<lparr>status = h ! 1, highWatermark = 0, messageCount = 0, messages = None, redirectLeader = None\<rparr>, bs1))"

section \<open>Producer\<close>

text \<open>The bytes that \<open>doSend\<close> writes.\<close>

definition doSend_bytes :: "string \<Rightarrow> int \<Rightarrow> byte list \<Rightarrow> int \<Rightarrow> byte list" where
  "doSend_bytes topic part data acks =
     (let fullData = of_int acks # data
      in [Magic, CmdProduce] @ put_be 2 (to_u 16 (int (length topic))) @ put_be 4 (to_u 32 part)
         @ put_be 4 (to_u 32 (int (length fullData))) @ bytes_of topic @ fullData)"

text \<open>The loop of \<open>send\<close>. \<open>exchange addr w\<close> is one call of \<open>doSend\<close> on a channel to \<open>addr\<close>: the response, or \<open>None\<close> for an exception, and the world after it.
  The first result tells whether \<open>send\<close> returns; otherwise it throws.\<close>

fun send_loop :: "(string \<Rightarrow> 'w \<Rightarrow> FetchResponse option \<times> 'w) \<Rightarrow> nat \<Rightarrow> string \<Rightarrow> 'w \<Rightarrow> bool \<times> 'w" where
  "send_loop exchange 0 brokerAddr w = (False, w)"
| "send_loop exchange (Suc k) brokerAddr w =
     (case exchange brokerAddr w of
        (None, w1) \<Rightarrow> send_loop exchange k brokerAddr w1
      | (Some response, w1) \<Rightarrow>
          if isSuccess response then (True, w1)
          else if isRedirect response
          then send_loop exchange k (case redirectLeader response of Some leader \<Rightarrow> leader | None \<Rightarrow> []) w1
          else send_loop exchange k brokerAddr w1)"

text \<open>\<open>lookup\<close> is the leader the name server gives, \<open>None\<close> if \<open>lookupBroker\<close> throws.\<close>

definition send :: "string option \<Rightarrow> (string \<Rightarrow> 'w \<Rightarrow> FetchResponse option \<times> 'w) \<Rightarrow> nat \<Rightarrow> 'w \<Rightarrow> bool \<times> 'w" where
  "send lookup exchange maxRetries w =
     (case lookup of None \<Rightarrow> (False, w) | Some brokerAddr \<Rightarrow> send_loop exchange maxRetries brokerAddr w)"

text \<open>An exchange with a broker: the request on a new connection, and what the decoder makes of the answer. Without a decoded answer the call times out.\<close>

definition broker_exchange :: "(nat \<Rightarrow> client_env) \<Rightarrow> byte list \<Rightarrow> string \<Rightarrow> nat \<times> Broker \<Rightarrow> FetchResponse option \<times> nat \<times> Broker" where
  "broker_exchange env request addr w =
     (case w of (i, b) \<Rightarrow>
        (case handleClient env i request b of
           Ret (out, b1) \<Rightarrow> (case decode out of Inr (response, rest) \<Rightarrow> Some response | Inl e \<Rightarrow> None, i + 1, b1)
         | _ \<Rightarrow> (None, i + 1, b)))"

section \<open>Consumer\<close>

record JConsumer =
  j_offsets :: "(int, int) gomap"
  j_assignments :: "int list"
  j_running :: bool

text \<open>\<open>answer\<close>: the assignments in the name server's answer, \<open>None\<close> if the call throws.\<close>

definition joinGroup :: "int list option \<Rightarrow> JConsumer \<Rightarrow> bool \<times> JConsumer" where
  "joinGroup answer c =
     (case answer of
        None \<Rightarrow> (False, c)
      | Some ps \<Rightarrow> (True, foldl (\<lambda>c p. c\<lparr>j_assignments := j_assignments c @ [p], j_offsets := put p 0 (j_offsets c)\<rparr>) (c\<lparr>j_assignments := []\<rparr>) ps))"

text \<open>\<open>doFetch\<close> on the response, \<open>None\<close> for a timeout: the buffer of the request, whose reference count is then \<open>refs\<close>, is released in any case, and
  when that throws, the response is lost.\<close>

definition doFetch :: "(nat \<Rightarrow> nat option) \<Rightarrow> nat \<Rightarrow> FetchResponse option \<Rightarrow> FetchResponse option" where
  "doFetch release refs response = (case release refs of None \<Rightarrow> None | Some refs' \<Rightarrow> response)"

definition doFetch_bytes :: "string \<Rightarrow> int \<Rightarrow> int \<Rightarrow> int \<Rightarrow> byte list" where
  "doFetch_bytes topic part offset maxBytes =
     (let data = put_be 8 (to_u 64 offset) @ put_be 4 (to_u 32 maxBytes)
      in [Magic, CmdFetch] @ put_be 2 (to_u 16 (int (length topic))) @ put_be 4 (to_u 32 part)
         @ put_be 4 (to_u 32 (int (length data))) @ bytes_of topic @ data)"

text \<open>The loop of \<open>poll\<close>: \<open>lookup\<close> and \<open>nsOffset\<close> are \<open>None\<close> where the call throws, which ends \<open>poll\<close>; \<open>fetch\<close> is \<open>None\<close> where connecting or \<open>doFetch\<close> throws,
  which is caught.\<close>

fun poll_loop :: "(int \<Rightarrow> string option) \<Rightarrow> (int \<Rightarrow> int option) \<Rightarrow> (string \<Rightarrow> int \<Rightarrow> int \<Rightarrow> FetchResponse option) \<Rightarrow> string \<Rightarrow>
    int list \<Rightarrow> MQMessage list \<Rightarrow> JConsumer \<Rightarrow> MQMessage list option \<times> JConsumer" where
  "poll_loop lookup nsOffset fetch topic [] allMessages c = (Some allMessages, c)"
| "poll_loop lookup nsOffset fetch topic (p # ps) allMessages c =
     (case lookup p of
        None \<Rightarrow> (None, c)
      | Some brokerAddr \<Rightarrow>
          (case (case map_of (j_offsets c) p of Some off \<Rightarrow> Some off | None \<Rightarrow> nsOffset p) of
             None \<Rightarrow> (None, c)
           | Some offset \<Rightarrow>
               let c1 = c\<lparr>j_offsets := put p offset (j_offsets c)\<rparr>
               in case fetch brokerAddr p offset of
                    Some response \<Rightarrow>
                      if isSuccess response
                      then let msgs = (case messages response of Some ms \<Rightarrow> ms | None \<Rightarrow> []);
                               c2 = (if msgs = [] then c1 else c1\<lparr>j_offsets := put p (mq_offset (last msgs) + 1) (j_offsets c1)\<rparr>)
                           in poll_loop lookup nsOffset fetch topic ps
                                (allMessages @ map (\<lambda>m. m\<lparr>mq_topic := Some topic, mq_partition := p\<rparr>) msgs) c2
                      else poll_loop lookup nsOffset fetch topic ps allMessages c1
                  | None \<Rightarrow> poll_loop lookup nsOffset fetch topic ps allMessages c1))"

definition poll :: "(int \<Rightarrow> string option) \<Rightarrow> (int \<Rightarrow> int option) \<Rightarrow> (string \<Rightarrow> int \<Rightarrow> int \<Rightarrow> FetchResponse option) \<Rightarrow> string \<Rightarrow>
    JConsumer \<Rightarrow> MQMessage list option \<times> JConsumer" where
  "poll lookup nsOffset fetch topic c =
     (if \<not> j_running c then (Some [], c) else poll_loop lookup nsOffset fetch topic (j_assignments c) [] c)"

text \<open>\<open>ok\<close>: the name server answered with 200.\<close>

definition j_commitOffset :: "bool \<Rightarrow> int \<Rightarrow> int \<Rightarrow> JConsumer \<Rightarrow> bool \<times> JConsumer" where
  "j_commitOffset ok p off c = (if ok then (True, c\<lparr>j_offsets := put p off (j_offsets c)\<rparr>) else (False, c))"

definition leaveGroup :: "JConsumer \<Rightarrow> JConsumer" where
  "leaveGroup c = c\<lparr>j_running := False\<rparr>"


section \<open>The other Java client\<close>

text \<open>\<^verbatim>\<open>MQNettyClient\<close> of \<^verbatim>\<open>sdk/java\<close> sends a line of JSON to the address that the name server gives; \<open>toJson\<close> is the JSON library.\<close>

definition sdk_send :: "((string \<times> string) list \<Rightarrow> string) \<Rightarrow> string \<Rightarrow> string \<Rightarrow> string \<Rightarrow> byte list \<Rightarrow> byte list" where
  "sdk_send toJson requestId topic key val =
     bytes_of (toJson [(''requestId'', requestId), (''type'', ''produce''), (''topic'', topic), (''key'', key), (''value'', encodeBase64 val)] @ [CHR 10])"

section \<open>Decoding\<close>

definition j_message :: "Message \<Rightarrow> MQMessage" where
  "j_message m = \<lparr>mq_topic = None, mq_partition = 0, mq_data = m_Value m, mq_offset = m_Offset m, mq_timestamp = m_Timestamp m\<rparr>"

definition j_write :: "MQMessage \<Rightarrow> byte list" where
  "j_write m = put_be 8 (to_u 64 (mq_offset m)) @ put_be 8 (to_u 64 (mq_timestamp m)) @ put_be 4 (to_u 32 (int (length (mq_data m)))) @ mq_data m"

definition j_message_ok :: "MQMessage \<Rightarrow> bool" where
  "j_message_ok m \<longleftrightarrow> mq_topic m = None \<and> mq_partition m = 0 \<and> int64_range (mq_offset m) \<and> int64_range (mq_timestamp m) \<and> length (mq_data m) < 2 ^ 31"

lemma fetch_entry_j_write: "fetch_entry m = j_write (j_message m)"
  by (simp add: fetch_entry_def j_write_def j_message_def)

lemma len_int32: "n < 2 ^ 31 \<Longrightarrow> to_s 32 (get_be (put_be 4 (to_u 32 (int n)))) = int n"
  using be_int32.dec_enc [of "int n"] by simp

lemma decode_message_write:
  assumes "j_message_ok m"
  shows "decode_message (j_write m @ rest) = Inr (m, rest)"
proof -
  let ?h = "put_be 8 (to_u 64 (mq_offset m)) @ put_be 8 (to_u 64 (mq_timestamp m)) @ put_be 4 (to_u 32 (int (length (mq_data m))))"
  have "j_write m @ rest = ?h @ mq_data m @ rest" by (simp add: j_write_def)
  moreover have "length ?h = 20" by (simp del: put_be.simps)
  ultimately have "ReadFull 20 (j_write m @ rest) = Some (?h, mq_data m @ rest)" by (metis ReadFull_append)
  then show ?thesis
    using assms be_int64.dec_enc [of "mq_offset m"] be_int64.dec_enc [of "mq_timestamp m"] len_int32 [of "length (mq_data m)"]
    by (simp add: decode_message_def j_message_ok_def Let_def del: put_be.simps)
qed

interpretation jmessages: stream_codec j_write decode_message j_message_ok
  by unfold_locales (rule decode_message_write)

text \<open>The Java decoder reads the broker's fetch answers as the Go consumer does: it gives the messages and the high watermark that the broker put into
  the answer and leaves what follows in the buffer.\<close>

theorem java_fetch_roundtrip:
  assumes "list_all (\<lambda>m. j_message_ok (j_message m)) msgs" and "length msgs < 2 ^ 31" and "int64_range hw"
  shows "decode (fetch_response msgs hw @ rest)
    = Inr (\<lparr>status = RespSuccess, highWatermark = hw, messageCount = int (length msgs), messages = Some (map j_message msgs), redirectLeader = None\<rparr>, rest)"
proof -
  let ?h = "put_be 8 (to_u 64 hw) @ put_be 4 (to_u 32 (int (length msgs)))"
  let ?es = "concat (map j_write (map j_message msgs))"
  have "fetch_response msgs hw @ rest = [Magic, RespSuccess] @ ?h @ ?es @ rest"
    by (simp add: fetch_response_def fetch_entry_j_write [abs_def] comp_def)
  moreover have "ReadFull 2 ([Magic, RespSuccess] @ ?h @ ?es @ rest) = Some ([Magic, RespSuccess], ?h @ ?es @ rest)" by (rule ReadFull_append) simp
  moreover have "ReadFull 12 (?h @ ?es @ rest) = Some (?h, ?es @ rest)"
    using ReadFull_append [of ?h 12 "?es @ rest"] by (simp del: put_be.simps)
  moreover have "read_many decode_message (length msgs) (?es @ rest) = (map j_message msgs, None, rest)"
    using jmessages.read_many_enc [of "map j_message msgs" rest] assms(1) by (simp add: list_all_iff)
  ultimately show ?thesis
    using be_int64.dec_enc [OF assms(3)] len_int32 [OF assms(2)] by (simp add: decode_def Let_def del: put_be.simps)
qed

theorem java_fetch_roundtrip_witness:
  "decode (fetch_response [\<lparr>m_Topic = ''t'', m_Partition = 0, m_Key = [], m_Value = [1, 2], m_Offset = 22, m_Timestamp = 5\<rparr>] 23 @ [])
    = Inr (\<lparr>status = RespSuccess, highWatermark = 23, messageCount = 1,
        messages = Some [\<lparr>mq_topic = None, mq_partition = 0, mq_data = [1, 2], mq_offset = 22, mq_timestamp = 5\<rparr>], redirectLeader = None\<rparr>, [])"
  using java_fetch_roundtrip [of "[\<lparr>m_Topic = ''t'', m_Partition = 0, m_Key = [], m_Value = [1, 2], m_Offset = 22, m_Timestamp = 5\<rparr>]" 23 "[]"]
  by (simp add: j_message_def j_message_ok_def int64_range_def)

section \<open>Sending\<close>

lemma decode_produced: "decode (sendResponse RespSuccess leader off) = Inl More"
proof -
  have "ReadFull 2 (sendResponse RespSuccess leader off) = Some ([Magic, RespSuccess], put_be 8 (to_u 64 off))"
    using ReadFull_append [of "[Magic, RespSuccess]" 2 "put_be 8 (to_u 64 off)"] by (simp add: sendResponse_def wire_consts del: put_be.simps)
  moreover have "ReadFull 12 (put_be 8 (to_u 64 off)) = None" by (rule ReadFull_short) (simp del: put_be.simps)
  ultimately show ?thesis by (simp add: decode_def)
qed

lemma doSend_frame: "doSend_bytes topic part data acks = write_frame \<lparr>fr_cmd = CmdProduce, fr_topic = topic, fr_partition = part, fr_data = of_int acks # data\<rparr>"
  by (simp add: doSend_bytes_def write_frame_def frame_header_def Let_def del: put_be.simps)

text \<open>A broker that accepts every produce request: it leads its Raft group, and the name server has it as the leader of the topic.\<close>

definition accepts :: "(nat \<Rightarrow> client_env) \<Rightarrow> string \<Rightarrow> Broker \<Rightarrow> bool" where
  "accepts env topic b \<longleftrightarrow> state (raftNode b) = Leader \<and> peers (raftNode b) \<noteq> []
     \<and> (\<forall>i part. GetPartitionLeader (ce_route1 (env i)) topic part b = Some (b_clientAddr b))"

lemma exchange_appends:
  assumes "accepts env topic b" and "length topic < 2 ^ 16" and "- (2 ^ 31) \<le> part" and "part < 2 ^ 31" and "length data + 1 < 2 ^ 32"
    and "sint (of_int acks :: byte) \<noteq> -1 \<or> (\<forall>i. ce_committed (env i))"
  shows "\<exists>b' e. broker_exchange env (doSend_bytes topic part data acks) addr (i, b) = (None, i + 1, b') \<and> accepts env topic b'
    \<and> log (raftNode b') = log (raftNode b) @ [e] \<and> data_entry topic part data e"
proof -
  let ?f = "\<lparr>fr_cmd = CmdProduce, fr_topic = topic, fr_partition = part, fr_data = of_int acks # data\<rparr>"
  have ld: "state (raftNode b) = Leader" "peers (raftNode b) \<noteq> []"
    "GetPartitionLeader (ce_route1 (env i)) topic part b = Some (b_clientAddr b)" using assms(1) by (auto simp: accepts_def)
  obtain res r where s: "SubmitCommand topic part data (raftNode b) = Ret (res, r)"
    using ld(1,2) by (cases "SubmitCommand topic part data (raftNode b)") (auto simp: SubmitCommand_def Let_def split_beta)
  from s show ?thesis
  proof (cases rule: SubmitCommand_cases)
    case refused
    then show ?thesis using ld(1) by simp
  next
    case (accepted e)
    have "handleClient env i (doSend_bytes topic part data acks) b = dispatch (env i) ?f b"
      using assms(2-5) unfolding doSend_frame by (intro handleClient_one) (simp add: frame_ok_def)
    also have "\<dots> = Ret (sendResponse RespSuccess [] (int (length (log (raftNode b)))),
        b\<lparr>raftNode := r, auditLogger := map_option (LogProduce (ce_ip (env i)) topic part 0 (int (length data))) (auditLogger b)\<rparr>)"
      using ld s accepted(1) assms(6) by (auto simp: dispatch_def handleTCPProduce_def IsPartitionLeader_def GetState_def Let_def)
    finally show ?thesis using accepted(2-7) assms(1)
      by (auto simp: broker_exchange_def decode_produced accepts_def GetPartitionLeader_def route_url_def)
  qed
qed

text \<open>The answer to an accepted produce request has ten bytes, and the decoder waits for fourteen. So the Java producer takes every accepted message
  for lost: it sends the message as often as it may, each time with success, and throws in the end.\<close>

theorem java_producer_duplicates:
  assumes "accepts env topic b" and "length topic < 2 ^ 16" and "- (2 ^ 31) \<le> part" and "part < 2 ^ 31" and "length data + 1 < 2 ^ 32"
    and "sint (of_int acks :: byte) \<noteq> -1 \<or> (\<forall>i. ce_committed (env i))"
  shows "\<exists>b' es. send (Some addr) (broker_exchange env (doSend_bytes topic part data acks)) maxRetries (i, b) = (False, i + maxRetries, b')
    \<and> log (raftNode b') = log (raftNode b) @ es \<and> length es = maxRetries \<and> list_all (data_entry topic part data) es"
  using assms(1)
proof (induction maxRetries arbitrary: i b)
  case (Suc k)
  obtain b1 e where x: "broker_exchange env (doSend_bytes topic part data acks) addr (i, b) = (None, i + 1, b1)" "accepts env topic b1"
      "log (raftNode b1) = log (raftNode b) @ [e]" "data_entry topic part data e"
    using exchange_appends [OF Suc.prems assms(2-6)] by blast
  obtain b' es where r: "send (Some addr) (broker_exchange env (doSend_bytes topic part data acks)) k (i + 1, b1) = (False, i + 1 + k, b')"
      "log (raftNode b') = log (raftNode b1) @ es" "length es = k" "list_all (data_entry topic part data) es"
    using Suc.IH [OF x(2)] by blast
  show ?case using x r by (intro exI [of _ b'] exI [of _ "e # es"]) (simp add: send_def)
qed (auto simp: send_def)

theorem java_producer_duplicates_witness:
  "\<exists>env b' es. send (Some ''b1'') (broker_exchange env (doSend_bytes ''t'' 0 [7] 1)) 3 (0, demo_leader_b) = (False, 3, b')
     \<and> log (raftNode b') = log demo_raft @ es \<and> length es = 3 \<and> list_all (data_entry ''t'' 0 [7]) es"
proof -
  let ?env = "\<lambda>i :: nat. \<lparr>ce_route1 = demo_route, ce_route2 = demo_route, ce_committed = False, ce_ip = [], ce_ord = rev, ce_now = 0,
    ce_get = (\<lambda>url. None), ce_member = (\<lambda>data. None), ce_offset = (\<lambda>data. None)\<rparr>"
  have "accepts ?env ''t'' demo_leader_b"
    using demo_setup(2,3) by (simp add: accepts_def GetPartitionLeader_def demo_leader_b_def)
  from java_producer_duplicates [OF this, of 0 "[7]" 1 "''b1''" 3 0] obtain b' es where
    "send (Some ''b1'') (broker_exchange ?env (doSend_bytes ''t'' 0 [7] 1)) 3 (0, demo_leader_b) = (False, 3, b')"
    "log (raftNode b') = log (raftNode demo_leader_b) @ es" "length es = 3" "list_all (data_entry ''t'' 0 [7]) es" by auto
  then show ?thesis by (intro exI [of _ ?env] exI [of _ b'] exI [of _ es]) (simp add: demo_leader_b_def)
qed


section \<open>Consuming\<close>

lemma join_fold:
  "let c' = foldl (\<lambda>c p. c\<lparr>j_assignments := j_assignments c @ [p], j_offsets := put p 0 (j_offsets c)\<rparr>) c ps
   in j_assignments c' = j_assignments c @ ps \<and> j_running c' = j_running c
      \<and> (\<forall>p. map_of (j_offsets c') p = (if p \<in> set ps then Some 0 else map_of (j_offsets c) p))"
  by (induction ps arbitrary: c) (auto simp: Let_def update_conv')

lemma poll_loop_ns:
  assumes "\<forall>p \<in> set ps. has (j_offsets c) p"
  shows "poll_loop lookup ns1 fetch topic ps acc c = poll_loop lookup ns2 fetch topic ps acc c"
  using assms
proof (induction ps arbitrary: acc c)
  case (Cons p ps)
  obtain off where off: "map_of (j_offsets c) p = Some off" using Cons.prems by auto
  have k: "\<forall>q \<in> set ps. has (put p x (j_offsets c)) q" for x using Cons.prems by (auto simp: update_conv')
  have ih: "poll_loop lookup ns1 fetch topic ps a (c\<lparr>j_offsets := put p x (j_offsets c)\<rparr>)
      = poll_loop lookup ns2 fetch topic ps a (c\<lparr>j_offsets := put p x (j_offsets c)\<rparr>)" for a x
    using k by (intro Cons.IH) simp
  show ?case by (simp add: off Let_def ih split: option.split)
qed simp

text \<open>A consumer that joins a group starts every partition at offset 0: whatever was committed for the group, \<open>poll\<close> never asks for it.\<close>

theorem java_join_forgets_offsets:
  assumes "joinGroup (Some ps) c = (True, c')"
  shows "(\<forall>p \<in> set ps. map_of (j_offsets c') p = Some 0) \<and> j_assignments c' = ps
    \<and> (\<forall>ns1 ns2. poll lookup ns1 fetch topic c' = poll lookup ns2 fetch topic c')"
proof -
  have c: "c' = foldl (\<lambda>c p. c\<lparr>j_assignments := j_assignments c @ [p], j_offsets := put p 0 (j_offsets c)\<rparr>) (c\<lparr>j_assignments := []\<rparr>) ps"
    using assms by (simp add: joinGroup_def)
  have j: "j_assignments c' = ps" "\<forall>p \<in> set ps. map_of (j_offsets c') p = Some 0"
    using join_fold [of "c\<lparr>j_assignments := []\<rparr>" ps] unfolding c [symmetric] Let_def by auto
  have h: "\<forall>p \<in> set ps. has (j_offsets c') p" using j(2) by simp
  have "poll lookup ns1 fetch topic c' = poll lookup ns2 fetch topic c'" for ns1 ns2
    unfolding poll_def j(1) using poll_loop_ns [OF h, of lookup ns1 fetch topic "[]" ns2] by simp
  with j show ?thesis by blast
qed

theorem java_join_forgets_offsets_witness:
  "\<exists>c'. joinGroup (Some [0, 1]) \<lparr>j_offsets = [(0, 42)], j_assignments = [], j_running = True\<rparr> = (True, c') \<and> map_of (j_offsets c') 0 = Some 0"
proof -
  obtain c' where j: "joinGroup (Some [0, 1]) \<lparr>j_offsets = [(0, 42)], j_assignments = [], j_running = True\<rparr> = (True, c')" by (simp add: joinGroup_def)
  with java_join_forgets_offsets [OF j] show ?thesis by auto
qed

text \<open>Netty releases the buffer of a request once it is written, and releasing a buffer that is not referenced any more throws. So when an answer has
  come, the release in \<open>doFetch\<close> throws, and \<open>poll\<close> never returns a message, whatever the brokers answer.\<close>

theorem java_poll_loses_answers:
  assumes "release 0 = None" and "\<forall>addr p off. answer addr p off \<noteq> None \<longrightarrow> refs addr p off = 0"
  shows "fst (poll lookup nsOffset (\<lambda>addr p off. doFetch release (refs addr p off) (answer addr p off)) topic c) \<in> {None, Some []}"
proof -
  have f: "doFetch release (refs addr p off) (answer addr p off) = None" for addr p off
  proof (cases "answer addr p off")
    case (Some r)
    then have "refs addr p off = 0" using assms(2) by simp
    then show ?thesis using assms(1) by (simp add: doFetch_def)
  qed (simp add: doFetch_def split: option.split)
  have "fst (poll_loop lookup nsOffset (\<lambda>addr p off. None) topic ps [] c) \<in> {None, Some []}" for ps c
    by (induction ps arbitrary: c) (auto simp: Let_def split: option.split)
  then show ?thesis by (auto simp: poll_def f)
qed

theorem java_poll_loses_answers_witness:
  "fst (poll (\<lambda>p. Some ''b1'') (\<lambda>p. Some 0)
     (\<lambda>addr p off. doFetch (\<lambda>n. if n = 0 then None else Some (n - 1)) 0
        (Some \<lparr>status = RespSuccess, highWatermark = 23, messageCount = 1,
           messages = Some [\<lparr>mq_topic = None, mq_partition = 0, mq_data = [1], mq_offset = 22, mq_timestamp = 5\<rparr>], redirectLeader = None\<rparr>))
     ''t'' \<lparr>j_offsets = [(0, 0)], j_assignments = [0], j_running = True\<rparr>) \<in> {None, Some []}"
  by (rule java_poll_loses_answers) simp_all

text \<open>The client of the SDK speaks another protocol: a broker reads the brace that JSON starts with where it expects its magic byte, answers nothing,
  and leaves its state as it is.\<close>

theorem sdk_request_ignored:
  assumes "\<forall>fields. \<exists>rest. toJson fields = CHR ''{'' # rest"
  shows "handleClient env i (sdk_send toJson requestId topic key val) b = Ret ([], b)"
proof -
  obtain rest where "sdk_send toJson requestId topic key val = bytes_of (CHR ''{'' # rest)"
    using assms [rule_format, of "[(''requestId'', requestId), (''type'', ''produce''), (''topic'', topic), (''key'', key), (''value'', encodeBase64 val)]"]
    by (auto simp: sdk_send_def)
  then have "sdk_send toJson requestId topic key val = 0x7B # bytes_of rest" by (simp add: bytes_of_def)
  then have "\<exists>e. read_frame (sdk_send toJson requestId topic key val) = Inl e"
    by (auto simp: read_frame_def ReadFull_def Let_def wire_consts split: option.splits)
  then show ?thesis by (auto simp: handleClient.simps [of env i])
qed

theorem sdk_request_ignored_witness:
  "\<forall>env. handleClient env 0 (sdk_send (\<lambda>fields. CHR ''{'' # concat (map fst fields)) ''r'' ''t'' ''k'' [7]) demo_b = Ret ([], demo_b)"
  by (intro allI sdk_request_ignored) simp


section \<open>The encoder\<close>

text \<open>\<^verbatim>\<open>MQEncoder\<close> writes a produce request without the byte for the acknowledgements that \<open>doSend\<close> puts in front of the data.\<close>

definition encode :: "string \<Rightarrow> int \<Rightarrow> byte list option \<Rightarrow> byte list" where
  "encode topic part msgData =
     (let data = (case msgData of Some d \<Rightarrow> d | None \<Rightarrow> [])
      in [Magic, CmdProduce] @ put_be 2 (to_u 16 (int (length topic))) @ put_be 4 (to_u 32 part)
         @ put_be 4 (to_u 32 (int (length data))) @ bytes_of topic @ data)"

text \<open>What the encoder writes for a message is the request to store the message without its first byte, with that byte as the acknowledgements.\<close>

theorem java_encoder_drops_byte: "encode topic part (Some (x # data)) = doSend_bytes topic part data (sint x)"
  by (simp add: encode_def doSend_bytes_def Let_def del: put_be.simps)

end
