(* ===== verification/C_Storage.thy ===== *)
theory C_Storage
  imports Go_Prelude
begin

text \<open>
  The storage engine in C, \<^verbatim>\<open>storage/c\<close>: a commit log and an index over files that are mapped into memory, and the removal of old segments.
  The calls of the C library that may fail are parameters. An operation that would touch memory outside of the mapping or of an argument has the
  value \<open>Undefined\<close>. Sizes and offsets keep their width, so that sums wrap around as they do in C.

  Shown: what was appended is read back, and after the log is opened again nothing can be appended, because the file is extended to its full size
  when it is created and its size is taken for the end of the log. The same holds for the index. The binary search of the index finds the first entry
  that is not before a time stamp.
\<close>

section \<open>Results\<close>

datatype 'a c_run = Defined 'a | Undefined

definition MQ_SUCCESS :: int where "MQ_SUCCESS = 0"
definition MQ_ERROR :: int where "MQ_ERROR = -1"
definition MQ_NOT_FOUND :: int where "MQ_NOT_FOUND = -2"
definition MQ_IO_ERROR :: int where "MQ_IO_ERROR = -3"

lemmas mq_codes = MQ_SUCCESS_def MQ_ERROR_def MQ_NOT_FOUND_def MQ_IO_ERROR_def

section \<open>Commit log\<close>

definition DEFAULT_FILE_SIZE :: "64 word" where "DEFAULT_FILE_SIZE = 1024 * 1024 * 1024"

text \<open>\<open>mapped\<close>: the bytes of the file, which the mapping shows from its start; the mapping has \<open>file_size\<close> bytes.\<close>

record CLog =
  file_size :: "64 word"
  write_offset :: "64 word"
  mapped :: "byte list"

text \<open>The calls of \<open>commit_log_open\<close> that can fail, in their order.\<close>

datatype open_call = Malloc | Strdup | Open | Fstat | Ftruncate | Mmap

text \<open>\<open>fault\<close> is the call that fails, if any; the second result is the file afterwards.\<close>

definition commit_log_open :: "open_call option \<Rightarrow> byte list \<Rightarrow> 64 word \<Rightarrow> CLog option \<times> byte list" where
  "commit_log_open fault bytes sz =
     (if fault \<in> {Some Malloc, Some Strdup, Some Open, Some Fstat} then (None, bytes)
      else let fsize = (if 0 < sz then sz else DEFAULT_FILE_SIZE);
               short = int (length bytes) < sint fsize
           in if short \<and> fault = Some Ftruncate then (None, bytes)
              else let bytes1 = (if short then bytes @ replicate (unat fsize - length bytes) 0 else bytes)
                   in if fault = Some Mmap then (None, bytes1)
                      else (Some \<lparr>file_size = fsize, write_offset = of_nat (length bytes), mapped = bytes1\<rparr>, bytes1))"

text \<open>Closing writes the mapping back: the file is \<open>mapped\<close>.\<close>

definition commit_log_close :: "CLog \<Rightarrow> byte list" where
  "commit_log_close cl = mapped cl"

text \<open>\<open>memcpy\<close> into and from the mapping, inside of it.\<close>

definition store_bytes :: "nat \<Rightarrow> byte list \<Rightarrow> byte list \<Rightarrow> byte list" where
  "store_bytes i d m = take i m @ d @ drop (i + length d) m"

definition in_mapping :: "64 word \<Rightarrow> 32 word \<Rightarrow> CLog \<Rightarrow> bool" where
  "in_mapping off sz cl \<longleftrightarrow> unat off + unat sz \<le> unat (file_size cl) \<and> unat off + unat sz \<le> length (mapped cl)"

text \<open>The code, the offset if it is stored, and the log. \<open>None\<close> is a null pointer.\<close>

definition commit_log_append :: "CLog option \<Rightarrow> byte list option \<Rightarrow> 32 word \<Rightarrow> (int \<times> 64 word option \<times> CLog option) c_run" where
  "commit_log_append lg data sz =
     (case (lg, data) of
        (Some cl, Some d) \<Rightarrow>
          if sz = 0 then Defined (MQ_ERROR, None, lg)
          else if file_size cl < write_offset cl + ucast sz then Defined (MQ_ERROR, None, lg)
          else if unat sz \<le> length d \<and> in_mapping (write_offset cl) sz cl
          then Defined (MQ_SUCCESS, Some (write_offset cl),
                 Some (cl\<lparr>mapped := store_bytes (unat (write_offset cl)) (take (unat sz) d) (mapped cl), write_offset := write_offset cl + ucast sz\<rparr>))
          else Undefined
      | _ \<Rightarrow> Defined (MQ_ERROR, None, lg))"

text \<open>The code and the bytes stored in the buffer; \<open>space\<close> is the buffer's size, \<open>None\<close> a null pointer.\<close>

definition commit_log_read :: "CLog option \<Rightarrow> 64 word \<Rightarrow> nat option \<Rightarrow> 32 word \<Rightarrow> (int \<times> byte list) c_run" where
  "commit_log_read lg offset space sz =
     (case (lg, space) of
        (Some cl, Some room) \<Rightarrow>
          if write_offset cl < offset + ucast sz then Defined (MQ_NOT_FOUND, [])
          else if unat sz \<le> room \<and> in_mapping offset sz cl
          then Defined (MQ_SUCCESS, take (unat sz) (drop (unat offset) (mapped cl)))
          else Undefined
      | _ \<Rightarrow> Defined (MQ_ERROR, []))"

definition commit_log_get_offset :: "CLog option \<Rightarrow> 64 word" where
  "commit_log_get_offset lg = (case lg of None \<Rightarrow> 0 | Some cl \<Rightarrow> write_offset cl)"

text \<open>\<open>synced\<close>: \<open>msync\<close> succeeded.\<close>

definition commit_log_sync :: "bool \<Rightarrow> CLog option \<Rightarrow> int" where
  "commit_log_sync synced lg = (case lg of None \<Rightarrow> MQ_ERROR | Some cl \<Rightarrow> if synced then MQ_SUCCESS else MQ_IO_ERROR)"

section \<open>Cleanup\<close>

text \<open>The files by path, each with its size and time of modification in seconds, and the paths that cannot be removed.\<close>

record c_files =
  cf_stat :: "(string, 64 word \<times> 64 word) gomap"
  cf_fixed :: "string list"

definition segment_path :: "string \<Rightarrow> string \<Rightarrow> string" where
  "segment_path segment_dir name = take 511 (segment_dir @ ''/'' @ name)"

definition expired :: "64 word \<Rightarrow> 64 word \<Rightarrow> 64 word \<Rightarrow> 64 word \<times> 64 word \<Rightarrow> bool" where
  "expired now retention_ms retention_bytes st \<longleftrightarrow>
     0 < retention_ms \<and> sint (retention_ms div 1000) < sint (now - snd st) \<or> 0 < retention_bytes \<and> retention_bytes < fst st"

fun cleanup_loop :: "string \<Rightarrow> 64 word \<Rightarrow> 64 word \<Rightarrow> 64 word \<Rightarrow> string list \<Rightarrow> 64 word \<Rightarrow> c_files \<Rightarrow> 64 word \<times> c_files" where
  "cleanup_loop segment_dir now retention_ms retention_bytes [] cleaned fs = (cleaned, fs)"
| "cleanup_loop segment_dir now retention_ms retention_bytes (name # names) cleaned fs =
     (if take 8 name \<noteq> ''segment_'' then cleanup_loop segment_dir now retention_ms retention_bytes names cleaned fs
      else let filepath = segment_path segment_dir name
           in case map_of (cf_stat fs) filepath of
                None \<Rightarrow> cleanup_loop segment_dir now retention_ms retention_bytes names cleaned fs
              | Some st \<Rightarrow>
                  if expired now retention_ms retention_bytes st \<and> filepath \<notin> set (cf_fixed fs)
                  then cleanup_loop segment_dir now retention_ms retention_bytes names (cleaned + fst st)
                         (fs\<lparr>cf_stat := del filepath (cf_stat fs)\<rparr>)
                  else cleanup_loop segment_dir now retention_ms retention_bytes names cleaned fs)"

text \<open>\<open>names\<close> are the entries that \<open>readdir\<close> gives, \<open>None\<close> a directory that cannot be opened; the result is a 32-bit \<open>int\<close>.\<close>

definition commit_log_cleanup :: "string \<Rightarrow> string list option \<Rightarrow> 64 word \<Rightarrow> 64 word \<Rightarrow> 64 word \<Rightarrow> c_files \<Rightarrow> int \<times> c_files" where
  "commit_log_cleanup segment_dir names now retention_ms retention_bytes fs =
     (case names of
        None \<Rightarrow> (MQ_ERROR, fs)
      | Some ns \<Rightarrow> (case cleanup_loop segment_dir now retention_ms retention_bytes ns 0 fs of
                      (cleaned, fs1) \<Rightarrow> (sint (ucast (cleaned div (1024 * 1024)) :: 32 word), fs1)))"

section \<open>Index\<close>

record CEntry =
  e_offset :: "64 word"
  e_size :: "32 word"
  e_timestamp :: "64 word"

definition INDEX_ENTRY_SIZE :: nat where "INDEX_ENTRY_SIZE = 24"
definition MAX_ENTRIES :: nat where "MAX_ENTRIES = 1024 * 1024 * 10"

text \<open>\<open>slots\<close>: the entries that the mapping shows; those never written are zero. Counts are natural numbers: a file has fewer than \<open>2 ^ 63\<close> bytes,
  so no sum of two indexes wraps around.\<close>

record CIndex =
  slots :: "nat \<Rightarrow> CEntry"
  entry_count :: nat
  last_offset :: "64 word"

text \<open>The file of an index: its size and the entries it holds.\<close>

type_synonym index_file = "nat \<times> (nat \<Rightarrow> CEntry)"

definition no_entry :: CEntry where
  "no_entry = \<lparr>e_offset = 0, e_size = 0, e_timestamp = 0\<rparr>"

definition sparse_index_open :: "open_call option \<Rightarrow> index_file \<Rightarrow> CIndex option c_run \<times> index_file" where
  "sparse_index_open fault f =
     (case f of (bytes, es) \<Rightarrow>
        if fault \<in> {Some Malloc, Some Strdup, Some Open, Some Fstat} then (Defined None, f)
        else let len = MAX_ENTRIES * INDEX_ENTRY_SIZE; short = bytes < len
             in if short \<and> fault = Some Ftruncate then (Defined None, f)
                else let f1 = (max bytes len, es)
                     in if fault = Some Mmap then (Defined None, f1)
                        else let n = bytes div INDEX_ENTRY_SIZE
                             in if n \<le> MAX_ENTRIES
                                then (Defined (Some \<lparr>slots = es, entry_count = n, last_offset = (if 0 < n then e_offset (es (n - 1)) else 0)\<rparr>), f1)
                                else (Undefined, f1))"

text \<open>The file after \<open>sparse_index_close\<close>; its size is that of the mapping, or what it was before if that was more.\<close>

definition sparse_index_close :: "nat \<Rightarrow> CIndex \<Rightarrow> index_file" where
  "sparse_index_close bytes idx = (bytes, slots idx)"

definition sparse_index_put :: "CIndex option \<Rightarrow> 64 word \<Rightarrow> 32 word \<Rightarrow> 64 word \<Rightarrow> int \<times> CIndex option" where
  "sparse_index_put index off sz ts =
     (case index of
        None \<Rightarrow> (MQ_ERROR, None)
      | Some idx \<Rightarrow>
          if MAX_ENTRIES \<le> entry_count idx then (MQ_ERROR, index)
          else (MQ_SUCCESS, Some (idx\<lparr>slots := (slots idx)(entry_count idx := \<lparr>e_offset = off, e_size = sz, e_timestamp = ts\<rparr>),
                                      entry_count := entry_count idx + 1, last_offset := off\<rparr>)))"

function get_loop :: "64 word \<Rightarrow> CIndex \<Rightarrow> nat \<Rightarrow> CEntry option" where
  "get_loop off idx i =
     (if i < entry_count idx then if e_offset (slots idx i) = off then Some (slots idx i) else get_loop off idx (i + 1) else None)"
  by pat_completeness auto
termination
  by (relation "measure (\<lambda>(off, idx, i). entry_count idx - i)") auto

declare get_loop.simps [simp del]

text \<open>The code, and the entry stored through the pointer. \<open>has_entry\<close>: the pointer is not null.\<close>

definition sparse_index_get :: "CIndex option \<Rightarrow> 64 word \<Rightarrow> bool \<Rightarrow> int \<times> CEntry option" where
  "sparse_index_get index off has_entry =
     (case index of
        None \<Rightarrow> (MQ_ERROR, None)
      | Some idx \<Rightarrow>
          if \<not> has_entry then (MQ_ERROR, None)
          else case get_loop off idx 0 of None \<Rightarrow> (MQ_NOT_FOUND, None) | Some e \<Rightarrow> (MQ_SUCCESS, Some e))"

text \<open>The binary search; \<open>r\<close> is \<open>result\<close>.\<close>

function search_loop :: "64 word \<Rightarrow> CIndex \<Rightarrow> nat \<Rightarrow> nat \<Rightarrow> nat \<Rightarrow> nat" where
  "search_loop ts idx left right r =
     (if left \<le> right
      then let mid = (left + right) div 2
           in if ts \<le> e_timestamp (slots idx mid)
              then if mid = 0 then mid else search_loop ts idx left (mid - 1) mid
              else search_loop ts idx (mid + 1) right r
      else r)"
  by pat_completeness auto
termination
  by (relation "measure (\<lambda>(ts, idx, left, right, r). right + 1 - left)") (auto simp: not_le)

declare search_loop.simps [simp del]

definition sparse_index_lookup :: "CIndex option \<Rightarrow> 64 word \<Rightarrow> bool \<Rightarrow> int \<times> CEntry option" where
  "sparse_index_lookup index ts has_entry =
     (case index of
        None \<Rightarrow> (MQ_ERROR, None)
      | Some idx \<Rightarrow>
          if \<not> has_entry then (MQ_ERROR, None)
          else if entry_count idx = 0 then (MQ_NOT_FOUND, None)
          else let r = search_loop ts idx 0 (entry_count idx - 1) (entry_count idx)
               in if r = entry_count idx then (MQ_NOT_FOUND, None) else (MQ_SUCCESS, Some (slots idx r)))"

definition sparse_index_get_last_offset :: "CIndex option \<Rightarrow> 64 word" where
  "sparse_index_get_last_offset index = (case index of None \<Rightarrow> 0 | Some idx \<Rightarrow> last_offset idx)"

definition sparse_index_get_entry_count :: "CIndex option \<Rightarrow> nat" where
  "sparse_index_get_entry_count index = (case index of None \<Rightarrow> 0 | Some idx \<Rightarrow> entry_count idx)"

text \<open>The entry that is stored, if any.\<close>

definition sparse_index_get_entry_at :: "CIndex option \<Rightarrow> int \<Rightarrow> bool \<Rightarrow> CEntry option" where
  "sparse_index_get_entry_at index i has_entry =
     (case index of
        None \<Rightarrow> None
      | Some idx \<Rightarrow> if \<not> has_entry \<or> i < 0 \<or> int (entry_count idx) \<le> i then None else Some (slots idx (nat i)))"


section \<open>The log\<close>

definition clog_ok :: "CLog \<Rightarrow> bool" where
  "clog_ok cl \<longleftrightarrow> unat (file_size cl) < 2 ^ 63 \<and> unat (file_size cl) \<le> length (mapped cl) \<and> write_offset cl \<le> file_size cl"

lemma unat_lt_exp: "unat (w :: 'a::len word) < 2 ^ LENGTH('a)"
  by (rule unsigned_less)

lemma unat_ucast32 [simp]: "unat (ucast (sz :: 32 word) :: 64 word) = unat sz"
  using unat_lt_exp [of sz] by (simp add: unsigned_ucast_eq take_bit_nat_eq_self)

lemma unat32_less: "unat (sz :: 32 word) < 2 ^ 32"
  using unat_lt_exp [of sz] by simp

lemma unat_add32:
  assumes "unat (x :: 64 word) < 2 ^ 63"
  shows "unat (x + ucast (sz :: 32 word)) = unat x + unat sz"
  using assms unat32_less [of sz] by (subst unat_add_lem [THEN iffD1]) simp_all

lemma length_store_bytes [simp]: "i + length d \<le> length m \<Longrightarrow> length (store_bytes i d m) = length m"
  by (simp add: store_bytes_def)

lemma clog_okD:
  assumes "clog_ok cl"
  shows "unat (file_size cl) < 2 ^ 63" "unat (file_size cl) \<le> length (mapped cl)" "unat (write_offset cl) \<le> unat (file_size cl)"
    "unat (write_offset cl + ucast (sz :: 32 word)) = unat (write_offset cl) + unat sz"
  using assms unat_add32 [of "write_offset cl" sz] by (simp_all add: clog_ok_def word_le_nat_alt)

text \<open>An append to a well-formed log either changes nothing or stores the bytes behind the others.\<close>

lemma commit_log_append_cases:
  assumes "clog_ok cl" and "unat sz \<le> length d"
  obtains (refused) "commit_log_append (Some cl) (Some d) sz = Defined (MQ_ERROR, None, Some cl)"
      "sz = 0 \<or> unat (file_size cl) < unat (write_offset cl) + unat sz"
    | (stored) cl' where "commit_log_append (Some cl) (Some d) sz = Defined (MQ_SUCCESS, Some (write_offset cl), Some cl')"
      "cl' = cl\<lparr>mapped := store_bytes (unat (write_offset cl)) (take (unat sz) d) (mapped cl), write_offset := write_offset cl + ucast sz\<rparr>"
      "unat (write_offset cl) + unat sz \<le> unat (file_size cl)" "clog_ok cl'"
proof (cases "sz = 0 \<or> file_size cl < write_offset cl + ucast sz")
  case True
  then show thesis using refused clog_okD(4) [OF assms(1), of sz] by (auto simp: commit_log_append_def word_less_nat_alt)
next
  case False
  let ?cl = "cl\<lparr>mapped := store_bytes (unat (write_offset cl)) (take (unat sz) d) (mapped cl), write_offset := write_offset cl + ucast sz\<rparr>"
  note k = clog_okD [OF assms(1)]
  have b: "unat (write_offset cl) + unat sz \<le> unat (file_size cl)" using False k(4) [of sz] by (simp add: word_less_nat_alt)
  then have "commit_log_append (Some cl) (Some d) sz = Defined (MQ_SUCCESS, Some (write_offset cl), Some ?cl)"
    using False assms(2) k(2) by (simp add: commit_log_append_def in_mapping_def)
  moreover have "clog_ok ?cl" using b k assms(2) by (simp add: clog_ok_def word_le_nat_alt min_absorb2)
  ultimately show thesis using b stored by blast
qed

definition log_holds :: "nat \<Rightarrow> byte list \<Rightarrow> CLog \<Rightarrow> bool" where
  "log_holds off d cl \<longleftrightarrow> off + length d \<le> unat (write_offset cl) \<and> take (length d) (drop off (mapped cl)) = d"

text \<open>A sequence of appends, whatever their results.\<close>

definition append_any :: "CLog \<Rightarrow> byte list \<Rightarrow> CLog" where
  "append_any cl d = (case commit_log_append (Some cl) (Some d) (of_nat (length d)) of Defined (c, off, Some cl') \<Rightarrow> cl' | _ \<Rightarrow> cl)"

lemma unat_of_len: "length d < 2 ^ 32 \<Longrightarrow> unat (of_nat (length d) :: 32 word) = length d"
  by (simp add: unat_of_nat)

lemma unat_of_len_le: "unat (of_nat (length d) :: 32 word) \<le> length d"
  by (simp add: unat_of_nat)

lemma store_prefix: "off + n \<le> i \<Longrightarrow> i \<le> length m \<Longrightarrow> take n (drop off (store_bytes i d m)) = take n (drop off m)"
  by (simp add: store_bytes_def drop_take)

lemma append_any_keeps:
  assumes "clog_ok cl"
  shows "clog_ok (append_any cl d)" and "file_size (append_any cl d) = file_size cl" and "length (mapped (append_any cl d)) = length (mapped cl)"
    and "log_holds off x cl \<Longrightarrow> log_holds off x (append_any cl d)"
proof -
  consider (refused) "append_any cl d = cl"
    | (stored) n e where "append_any cl d = cl\<lparr>mapped := store_bytes (unat (write_offset cl)) e (mapped cl), write_offset := write_offset cl + ucast (n :: 32 word)\<rparr>"
        "length e = unat n" "unat (write_offset cl) + unat n \<le> unat (file_size cl)" "clog_ok (append_any cl d)"
    using assms unat_of_len_le [of d]
  proof (cases rule: commit_log_append_cases)
    case (stored cl')
    then show thesis by (intro that(2) [of "of_nat (length d)" "take (unat (of_nat (length d) :: 32 word)) d"])
        (simp_all add: append_any_def unat_of_len_le min_absorb2)
  qed (simp add: append_any_def that(1))
  then show "clog_ok (append_any cl d)" "file_size (append_any cl d) = file_size cl" "length (mapped (append_any cl d)) = length (mapped cl)"
    "log_holds off x cl \<Longrightarrow> log_holds off x (append_any cl d)"
    by (cases; use assms clog_okD [OF assms] in \<open>simp add: log_holds_def store_prefix\<close>)+
qed

lemma appends_keep:
  assumes "clog_ok cl"
  shows "clog_ok (foldl append_any cl ds) \<and> file_size (foldl append_any cl ds) = file_size cl \<and> length (mapped (foldl append_any cl ds)) = length (mapped cl)
    \<and> (log_holds off x cl \<longrightarrow> log_holds off x (foldl append_any cl ds))"
  using assms
proof (induction ds arbitrary: cl)
  case (Cons d ds)
  show ?case using Cons.IH [OF append_any_keeps(1) [OF Cons.prems]] append_any_keeps [OF Cons.prems, where d = d] by simp
qed simp

lemma read_holds:
  assumes "clog_ok cl" and "log_holds (unat off) d cl" and "length d < 2 ^ 32" and "length d \<le> room"
  shows "commit_log_read (Some cl) off (Some room) (of_nat (length d)) = Defined (MQ_SUCCESS, d)"
proof -
  note k = clog_okD [OF assms(1)]
  have b: "unat off + length d \<le> unat (write_offset cl)" using assms(2) by (simp add: log_holds_def)
  then have "unat (off + ucast (of_nat (length d) :: 32 word)) = unat off + length d"
    using k(1,3) assms(3) by (subst unat_add32) (simp_all add: unat_of_len)
  then show ?thesis using b k assms(2-4)
    by (simp add: commit_log_read_def in_mapping_def unat_of_len log_holds_def word_less_nat_alt)
qed


lemma sint_small:
  assumes "unat (w :: 64 word) < 2 ^ 63"
  shows "sint w = int (unat w)"
proof -
  have "int (unat w) < int (2 ^ 63)" using assms by (simp only: of_nat_less_iff)
  then have "uint w < 2 ^ 63" by simp
  moreover have "- (2 ^ 63) \<le> uint w" by (rule order.trans [of _ 0]) simp_all
  ultimately show ?thesis by (simp add: sint_uint signed_take_bit_int_eq_self)
qed

lemma open_new:
  assumes "0 < sz" and "unat sz < 2 ^ 63"
  shows "commit_log_open None [] sz = (Some \<lparr>file_size = sz, write_offset = 0, mapped = replicate (unat sz) 0\<rparr>, replicate (unat sz) 0)"
proof -
  have "sint sz = int (unat sz)" by (rule sint_small [OF assms(2)])
  moreover have "0 < uint sz" using assms(1) by (simp add: word_less_def)
  ultimately show ?thesis using assms(1) by (simp add: commit_log_open_def Let_def)
qed

text \<open>C16. The bytes of an append that succeeded are read back at the offset it returned, however many appends follow and whether they succeed or not.\<close>

theorem c_append_read:
  assumes "clog_ok cl" and "length d < 2 ^ 32" and "commit_log_append (Some cl) (Some d) (of_nat (length d)) = Defined (MQ_SUCCESS, Some off, Some cl')"
    and "length d \<le> room"
  shows "commit_log_read (Some (foldl append_any cl' ds)) off (Some room) (of_nat (length d)) = Defined (MQ_SUCCESS, d)"
proof -
  have u: "unat (of_nat (length d) :: 32 word) = length d" by (rule unat_of_len [OF assms(2)])
  have "clog_ok cl' \<and> log_holds (unat off) d cl'" using assms(1) unat_of_len_le [of d]
  proof (cases rule: commit_log_append_cases)
    case (stored cl1)
    have c: "cl' = cl1" "off = write_offset cl" using stored(1) assms(3) by simp_all
    show ?thesis using stored(2-4) u clog_okD [OF assms(1)] unfolding c
      by (simp add: log_holds_def store_bytes_def)
  qed (use assms(3) in \<open>simp add: mq_codes\<close>)
  with appends_keep [of cl' ds "unat off" d] assms(2,4) show ?thesis by (intro read_holds) auto
qed

theorem c_append_read_witness:
  "\<exists>cl cl'. commit_log_open None [] 8 = (Some cl, replicate 8 0) \<and> commit_log_append (Some cl) (Some [1, 2]) 2 = Defined (MQ_SUCCESS, Some 0, Some cl')
     \<and> commit_log_read (Some (foldl append_any cl' [[3], [4, 5, 6, 7, 8, 9]])) 0 (Some 2) 2 = Defined (MQ_SUCCESS, [1, 2])"
proof -
  let ?cl = "\<lparr>file_size = 8, write_offset = 0, mapped = replicate 8 0\<rparr> :: CLog"
  let ?cl' = "\<lparr>file_size = 8, write_offset = 2, mapped = [1, 2, 0, 0, 0, 0, 0, 0]\<rparr> :: CLog"
  have o: "commit_log_open None [] 8 = (Some ?cl, replicate 8 0)" using open_new [of 8] by simp
  have zeros: "replicate 8 0 = ([0, 0, 0, 0, 0, 0, 0, 0] :: byte list)" by (simp add: numeral_eq_Suc)
  have a: "commit_log_append (Some ?cl) (Some [1, 2]) (of_nat (length [1 :: byte, 2])) = Defined (MQ_SUCCESS, Some 0, Some ?cl')"
    by (simp add: commit_log_append_def in_mapping_def store_bytes_def zeros drop_Cons')
  have "clog_ok ?cl" by (simp add: clog_ok_def)
  from c_append_read [OF this _ a, of 2 "[[3], [4, 5, 6, 7, 8, 9]]"] a o show ?thesis by (intro exI [of _ ?cl] exI [of _ ?cl']) simp
qed

text \<open>No operation on a well-formed log touches memory outside of the mapping, as long as offset and size of a read do not wrap around; a read where
  they do passes the check and touches the memory before the mapping.\<close>

theorem c_log_memory:
  assumes "clog_ok cl"
  shows "(unat sz \<le> length d \<longrightarrow> commit_log_append (Some cl) (Some d) sz \<noteq> Undefined)
    \<and> (unat sz \<le> room \<and> unat off + unat sz < 2 ^ 64 \<longrightarrow> commit_log_read (Some cl) off (Some room) sz \<noteq> Undefined)
    \<and> (0 < sz \<longrightarrow> commit_log_read (Some cl) (- ucast sz) (Some room) sz = Undefined)"
proof (intro conjI impI)
  assume "unat sz \<le> length d"
  with assms show "commit_log_append (Some cl) (Some d) sz \<noteq> Undefined" by (cases rule: commit_log_append_cases) simp_all
next
  assume a: "unat sz \<le> room \<and> unat off + unat sz < 2 ^ 64"
  then have "unat (off + ucast sz) = unat off + unat sz" by (subst unat_add_lem [THEN iffD1]) simp_all
  then show "commit_log_read (Some cl) off (Some room) sz \<noteq> Undefined"
    using a clog_okD [OF assms] by (auto simp: commit_log_read_def in_mapping_def word_less_nat_alt)
next
  assume "0 < sz"
  then have p: "0 < unat sz" by (simp add: word_less_nat_alt)
  have "(ucast sz :: 64 word) \<noteq> 0" using p unat_ucast32 [of sz] by (metis less_irrefl unsigned_0)
  then have "unat (- ucast sz :: 64 word) = 2 ^ 64 - unat sz" using unat_sub_if_size [of "0 :: 64 word" "ucast sz"] p by (simp add: word_size)
  then show "commit_log_read (Some cl) (- ucast sz) (Some room) sz = Undefined"
    using clog_okD(1) [OF assms] unat32_less [of sz] by (simp add: commit_log_read_def in_mapping_def)
qed

theorem c_log_memory_witness:
  "\<exists>cl. commit_log_open None [] 8 = (Some cl, replicate 8 0) \<and> commit_log_read (Some cl) (- 1) (Some 1) 1 = Undefined"
proof -
  let ?cl = "\<lparr>file_size = 8, write_offset = 0, mapped = replicate 8 0\<rparr> :: CLog"
  have "clog_ok ?cl" by (simp add: clog_ok_def)
  from c_log_memory [OF this, of 1 "[]" 1 0] have "commit_log_read (Some ?cl) (- 1) (Some 1) 1 = Undefined" by simp
  then show ?thesis using open_new [of 8] by (intro exI [of _ ?cl]) simp
qed

text \<open>A log that is closed and opened again is full: the file was given its full size when it was created, and this size is taken for the end of
  the log. Every append is refused, and what was never written is read without an error.\<close>

theorem c_reopened_full:
  assumes "0 < sz" and "unat sz < 2 ^ 63" and "commit_log_open None [] sz = (Some cl, f)"
    and "commit_log_open None (commit_log_close (foldl append_any cl ds)) sz = (Some cl2, f2)"
  shows "write_offset cl2 = sz \<and> mapped cl2 = mapped (foldl append_any cl ds)
    \<and> (\<forall>d n. commit_log_append (Some cl2) (Some d) n = Defined (MQ_ERROR, None, Some cl2))
    \<and> (\<forall>i. i < sz \<longrightarrow> commit_log_read (Some cl2) i (Some 1) 1 = Defined (MQ_SUCCESS, [mapped cl2 ! unat i]))"
proof -
  let ?l = "foldl append_any cl ds"
  have cl: "cl = \<lparr>file_size = sz, write_offset = 0, mapped = replicate (unat sz) 0\<rparr>" using assms(3) unfolding open_new [OF assms(1,2)] by blast
  have "clog_ok cl" using assms(2) by (simp add: cl clog_ok_def)
  from appends_keep [OF this, of ds] have l: "length (mapped ?l) = unat sz" by (simp add: cl)
  have "sint sz = int (unat sz)" by (rule sint_small [OF assms(2)])
  then have cl2: "cl2 = \<lparr>file_size = sz, write_offset = sz, mapped = mapped ?l\<rparr>"
    using assms(1,4) l by (auto simp: commit_log_open_def commit_log_close_def Let_def)
  have k: "clog_ok cl2" using assms(2) l by (simp add: cl2 clog_ok_def)
  have "commit_log_append (Some cl2) (Some d) n = Defined (MQ_ERROR, None, Some cl2)" for d n
  proof (cases "n = 0")
    case False
    then have "sz < sz + ucast n" using unat_add32 [OF assms(2), of n] by (simp add: word_less_nat_alt unat_gt_0)
    then show ?thesis by (simp add: commit_log_append_def cl2)
  qed (simp add: commit_log_append_def)
  moreover have "commit_log_read (Some cl2) i (Some 1) 1 = Defined (MQ_SUCCESS, [mapped cl2 ! unat i])" if "i < sz" for i
  proof -
    have "unat i < unat sz" using that by (simp add: word_less_nat_alt)
    then have "log_holds (unat i) [mapped cl2 ! unat i] cl2" using l unfolding log_holds_def cl2
      by (simp add: take_Suc_conv_app_nth take_Suc hd_drop_conv_nth)
    from read_holds [OF k this, of 1] show ?thesis by simp
  qed
  moreover have "write_offset cl2 = sz" "mapped cl2 = mapped ?l" unfolding cl2 by simp_all
  ultimately show ?thesis by blast
qed

theorem c_reopened_full_witness:
  "\<exists>cl cl2 f2. commit_log_open None [] 8 = (Some cl, replicate 8 0) \<and> commit_log_open None (commit_log_close (foldl append_any cl [[1]])) 8 = (Some cl2, f2)
     \<and> commit_log_append (Some cl2) (Some [2]) 1 = Defined (MQ_ERROR, None, Some cl2)"
proof -
  let ?cl = "\<lparr>file_size = 8, write_offset = 0, mapped = replicate 8 0\<rparr> :: CLog"
  have o: "commit_log_open None [] 8 = (Some ?cl, replicate 8 0)" using open_new [of 8] by simp
  obtain cl2 f2 where r: "commit_log_open None (commit_log_close (foldl append_any ?cl [[1]])) 8 = (Some cl2, f2)"
    by (simp add: commit_log_open_def Let_def)
  from c_reopened_full [OF _ _ o r] o r show ?thesis by (intro exI [of _ ?cl] exI [of _ cl2] exI [of _ f2]) simp
qed


section \<open>The index\<close>

definition index_entries :: "CIndex \<Rightarrow> CEntry list" where
  "index_entries idx = map (slots idx) [0..<entry_count idx]"

lemma put_entries:
  "sparse_index_put (Some idx) off sz ts = (MQ_SUCCESS, Some idx') \<Longrightarrow>
   index_entries idx' = index_entries idx @ [\<lparr>e_offset = off, e_size = sz, e_timestamp = ts\<rparr>]"
  by (auto simp: sparse_index_put_def index_entries_def mq_codes split: if_splits)

lemma get_loop_find:
  "get_loop off idx i = find (\<lambda>e. e_offset e = off) (map (slots idx) [i..<entry_count idx])"
proof (induction off idx i rule: get_loop.induct)
  case (1 off idx i)
  then show ?case by (subst get_loop.simps) (simp add: upt_conv_Cons)
qed

text \<open>The invariant of the binary search: before \<open>left\<close> all time stamps are smaller, behind \<open>right\<close> none is, and the result is one behind \<open>right\<close>.\<close>

lemma search_loop_correct:
  assumes "\<forall>i < left. e_timestamp (slots idx i) < ts" and "\<forall>i. right < i \<and> i < n \<longrightarrow> ts \<le> e_timestamp (slots idx i)"
    and "left \<le> right + 1" and "right < n" and "r = right + 1"
    and "\<forall>i j. i \<le> j \<and> j < n \<longrightarrow> e_timestamp (slots idx i) \<le> e_timestamp (slots idx j)"
  shows "search_loop ts idx left right r \<le> n \<and> (\<forall>i < search_loop ts idx left right r. e_timestamp (slots idx i) < ts)
    \<and> (search_loop ts idx left right r < n \<longrightarrow> ts \<le> e_timestamp (slots idx (search_loop ts idx left right r)))"
  using assms
proof (induction ts idx left right r rule: search_loop.induct)
  case (1 ts idx left right r)
  let ?m = "(left + right) div 2"
  show ?case
  proof (cases "left \<le> right")
    case True
    have m: "left \<le> ?m" "?m \<le> right" using True by auto
    show ?thesis
    proof (cases "ts \<le> e_timestamp (slots idx ?m)")
      case ge: True
      have "\<forall>i. ?m \<le> i \<and> i < n \<longrightarrow> ts \<le> e_timestamp (slots idx i)" using ge "1.prems"(6) order.trans by blast
      moreover have "?m \<le> i" if "?m - 1 < i" for i using that by arith
      ultimately have g: "\<forall>i. ?m - 1 < i \<and> i < n \<longrightarrow> ts \<le> e_timestamp (slots idx i)" by blast
      have e: "search_loop ts idx left right r = (if ?m = 0 then ?m else search_loop ts idx left (?m - 1) ?m)"
        using True ge by (subst search_loop.simps) (simp add: Let_def)
      show ?thesis
      proof (cases "?m = 0")
        case False
        then show ?thesis using "1.IH"(1) [OF True refl ge False "1.prems"(1) g] "1.prems"(4,6) m unfolding e by simp
      next
        case zero: True
        then show ?thesis using ge unfolding e by simp
      qed
    next
      case False
      have "e_timestamp (slots idx i) < ts" if "i < ?m + 1" for i
      proof -
        have "e_timestamp (slots idx i) \<le> e_timestamp (slots idx ?m)" using that m(2) "1.prems"(4) by (intro "1.prems"(6) [rule_format]) simp
        with False show ?thesis by simp
      qed
      then have "\<forall>i < ?m + 1. e_timestamp (slots idx i) < ts" by blast
      moreover have "?m + 1 \<le> right + 1" using m by simp
      moreover have "search_loop ts idx left right r = search_loop ts idx (?m + 1) right r"
        using True False by (subst search_loop.simps) (simp add: Let_def)
      ultimately show ?thesis using "1.IH"(2) [OF True refl False] "1.prems" by simp
    qed
  next
    case False
    then have e: "search_loop ts idx left right r = r" by (subst search_loop.simps) simp
    have lr: "left = r" using False "1.prems"(3,5) by linarith
    have "\<forall>i < r. e_timestamp (slots idx i) < ts" using "1.prems"(1) unfolding lr .
    moreover have "r \<le> n" "r < n \<longrightarrow> ts \<le> e_timestamp (slots idx r)" using "1.prems"(4,5) spec [OF "1.prems"(2), of r] by simp_all
    ultimately show ?thesis unfolding e by (intro conjI)
  qed
qed

lemma find_first:
  assumes "r \<le> n" and "\<forall>i < r. \<not> P (f i)" and "r < n \<longrightarrow> P (f r)"
  shows "find P (map f [0..<n]) = (if r < n then Some (f r) else None)"
proof (cases "r < n")
  case True
  then have "find P (map f [0..<n]) = Some (f r)" using assms(2,3) unfolding find_Some_iff by (intro exI [of _ r]) simp
  with True show ?thesis by simp
next
  case False
  then have "find P (map f [0..<n]) = None" using assms(1,2) unfolding find_None_iff by auto
  with False show ?thesis by simp
qed

text \<open>C17. The two searches of the index do what a scan of the entries from the first to the last does: \<open>sparse_index_get\<close> finds the first entry with the
  offset, and \<open>sparse_index_lookup\<close>, if the time stamps do not decrease, the first entry that is not before the time stamp.\<close>

theorem c_index_searches:
  assumes "sorted (map e_timestamp (index_entries idx))"
  shows "sparse_index_get (Some idx) off True
      = (case find (\<lambda>e. e_offset e = off) (index_entries idx) of None \<Rightarrow> (MQ_NOT_FOUND, None) | Some e \<Rightarrow> (MQ_SUCCESS, Some e))
    \<and> sparse_index_lookup (Some idx) ts True
      = (case find (\<lambda>e. ts \<le> e_timestamp e) (index_entries idx) of None \<Rightarrow> (MQ_NOT_FOUND, None) | Some e \<Rightarrow> (MQ_SUCCESS, Some e))"
proof
  show "sparse_index_get (Some idx) off True
      = (case find (\<lambda>e. e_offset e = off) (index_entries idx) of None \<Rightarrow> (MQ_NOT_FOUND, None) | Some e \<Rightarrow> (MQ_SUCCESS, Some e))"
    by (simp add: sparse_index_get_def get_loop_find index_entries_def)
next
  let ?n = "entry_count idx"
  let ?r = "search_loop ts idx 0 (?n - 1) ?n"
  have s: "\<forall>i j. i \<le> j \<and> j < ?n \<longrightarrow> e_timestamp (slots idx i) \<le> e_timestamp (slots idx j)"
    using assms by (auto simp: index_entries_def sorted_iff_nth_mono)
  show "sparse_index_lookup (Some idx) ts True
      = (case find (\<lambda>e. ts \<le> e_timestamp e) (index_entries idx) of None \<Rightarrow> (MQ_NOT_FOUND, None) | Some e \<Rightarrow> (MQ_SUCCESS, Some e))"
  proof (cases "?n = 0")
    case False
    have "\<forall>i. ?n - 1 < i \<and> i < ?n \<longrightarrow> ts \<le> e_timestamp (slots idx i)" by auto
    then have r: "?r \<le> ?n" "\<forall>i < ?r. e_timestamp (slots idx i) < ts" "?r < ?n \<longrightarrow> ts \<le> e_timestamp (slots idx ?r)"
      using search_loop_correct [of 0 idx ts "?n - 1" ?n ?n] s False by simp_all
    have "find (\<lambda>e. ts \<le> e_timestamp e) (index_entries idx) = (if ?r < ?n then Some (slots idx ?r) else None)"
      unfolding index_entries_def using r by (intro find_first) (auto simp: not_le)
    then show ?thesis using False r(1) by (auto simp: sparse_index_lookup_def Let_def)
  qed (simp add: sparse_index_lookup_def index_entries_def)
qed

definition demo_index :: CIndex where
  "demo_index = \<lparr>slots = (\<lambda>i. \<lparr>e_offset = of_nat (10 * i), e_size = 10, e_timestamp = of_nat (2 * i)\<rparr>), entry_count = 4, last_offset = 30\<rparr>"

lemma demo_index_entries: "index_entries demo_index = [\<lparr>e_offset = 0, e_size = 10, e_timestamp = 0\<rparr>, \<lparr>e_offset = 10, e_size = 10, e_timestamp = 2\<rparr>,
    \<lparr>e_offset = 20, e_size = 10, e_timestamp = 4\<rparr>, \<lparr>e_offset = 30, e_size = 10, e_timestamp = 6\<rparr>]"
  by (simp add: index_entries_def demo_index_def upt_rec)

theorem c_index_searches_witness:
  "sparse_index_lookup (Some demo_index) 3 True = (MQ_SUCCESS, Some \<lparr>e_offset = 20, e_size = 10, e_timestamp = 4\<rparr>)
   \<and> sparse_index_get (Some demo_index) 20 True = (MQ_SUCCESS, Some \<lparr>e_offset = 20, e_size = 10, e_timestamp = 4\<rparr>)"
  using c_index_searches [of demo_index 20 3] demo_index_entries by simp

text \<open>An index that is closed and opened again counts all the slots of its file, of which those never written are zero: no entry can be put any
  more, and the end of the log it gives is 0.\<close>

theorem c_reopened_index_full:
  assumes "sparse_index_open None (0, \<lambda>i. no_entry) = (Defined (Some idx0), (bytes, es))"
    and "idx = foldl (\<lambda>idx (off, sz, ts). case sparse_index_put (Some idx) off sz ts of (c, Some idx') \<Rightarrow> idx' | _ \<Rightarrow> idx) idx0 puts"
    and "length puts < MAX_ENTRIES" and "sparse_index_open None (sparse_index_close bytes idx) = (run, f)"
  shows "\<exists>idx2. run = Defined (Some idx2) \<and> entry_count idx2 = MAX_ENTRIES \<and> last_offset idx2 = 0
    \<and> (\<forall>off sz ts. sparse_index_put (Some idx2) off sz ts = (MQ_ERROR, Some idx2))"
proof -
  have z: "entry_count idx0 = 0" "slots idx0 = (\<lambda>i. no_entry)" "bytes = MAX_ENTRIES * INDEX_ENTRY_SIZE"
    using assms(1) by (auto simp: sparse_index_open_def Let_def INDEX_ENTRY_SIZE_def MAX_ENTRIES_def)
  have "entry_count idx \<le> length puts \<and> (\<forall>i \<ge> entry_count idx. slots idx i = no_entry)" unfolding assms(2)
  proof (induction puts rule: rev_induct)
    case (snoc p puts)
    then show ?case by (auto simp: sparse_index_put_def Let_def split: prod.splits if_splits)
  qed (simp add: z)
  moreover have "entry_count idx \<le> MAX_ENTRIES - 1" using calculation assms(3) by linarith
  ultimately have "slots idx (MAX_ENTRIES - 1) = no_entry" by blast
  moreover have "0 < MAX_ENTRIES" "INDEX_ENTRY_SIZE \<noteq> 0" by (simp_all add: MAX_ENTRIES_def INDEX_ENTRY_SIZE_def)
  ultimately have "run = Defined (Some \<lparr>slots = slots idx, entry_count = MAX_ENTRIES, last_offset = 0\<rparr>)"
    using assms(4) unfolding z(3) by (simp add: sparse_index_open_def sparse_index_close_def Let_def no_entry_def)
  then show ?thesis by (simp add: sparse_index_put_def)
qed

theorem c_reopened_index_full_witness:
  "\<exists>idx0 bytes es idx2 f. sparse_index_open None (0, \<lambda>i. no_entry) = (Defined (Some idx0), (bytes, es))
     \<and> sparse_index_open None (sparse_index_close bytes (the (snd (sparse_index_put (Some idx0) 7 1 5)))) = (Defined (Some idx2), f)
     \<and> sparse_index_put (Some idx2) 8 1 6 = (MQ_ERROR, Some idx2)"
proof -
  let ?i = "\<lparr>slots = (\<lambda>i. no_entry), entry_count = 0, last_offset = 0\<rparr> :: CIndex"
  have o: "sparse_index_open None (0, \<lambda>i. no_entry) = (Defined (Some ?i), (MAX_ENTRIES * INDEX_ENTRY_SIZE, \<lambda>i. no_entry))"
    by (simp add: sparse_index_open_def Let_def INDEX_ENTRY_SIZE_def MAX_ENTRIES_def)
  let ?j = "the (snd (sparse_index_put (Some ?i) 7 1 5))"
  obtain run f where r: "sparse_index_open None (sparse_index_close (MAX_ENTRIES * INDEX_ENTRY_SIZE) ?j) = (run, f)" by (cases "sparse_index_open None (sparse_index_close (MAX_ENTRIES * INDEX_ENTRY_SIZE) ?j)") blast
  have "?j = foldl (\<lambda>idx (off, sz, ts). case sparse_index_put (Some idx) off sz ts of (c, Some idx') \<Rightarrow> idx' | _ \<Rightarrow> idx) ?i [(7, 1, 5)]"
    by (simp add: sparse_index_put_def MAX_ENTRIES_def)
  from c_reopened_index_full [OF o this _ r] obtain idx2 where "run = Defined (Some idx2)" "sparse_index_put (Some idx2) 8 1 6 = (MQ_ERROR, Some idx2)"
    by (auto simp: MAX_ENTRIES_def)
  with o r show ?thesis by blast
qed


section \<open>The cleanup\<close>

definition cleaned_path :: "string \<Rightarrow> 64 word \<Rightarrow> 64 word \<Rightarrow> 64 word \<Rightarrow> string list \<Rightarrow> c_files \<Rightarrow> string \<Rightarrow> bool" where
  "cleaned_path d now ms bs names fs p \<longleftrightarrow> (\<exists>name \<in> set names. take 8 name = ''segment_'' \<and> p = segment_path d name) \<and> p \<notin> set (cf_fixed fs)
     \<and> (case map_of (cf_stat fs) p of None \<Rightarrow> False | Some st \<Rightarrow> expired now ms bs st)"

lemma cleanup_loop_removes:
  "map_of (cf_stat (snd (cleanup_loop d now ms bs names cleaned fs))) p = (if cleaned_path d now ms bs names fs p then None else map_of (cf_stat fs) p)
   \<and> cf_fixed (snd (cleanup_loop d now ms bs names cleaned fs)) = cf_fixed fs"
proof (induction names arbitrary: cleaned fs)
  case (Cons name names)
  let ?p = "segment_path d name"
  show ?case
  proof (cases "take 8 name = ''segment_'' \<and> (\<exists>st. map_of (cf_stat fs) ?p = Some st \<and> expired now ms bs st) \<and> ?p \<notin> set (cf_fixed fs)")
    case True
    then obtain st where st: "map_of (cf_stat fs) ?p = Some st" "expired now ms bs st" by blast
    let ?fs = "fs\<lparr>cf_stat := del ?p (cf_stat fs)\<rparr>"
    have "cleanup_loop d now ms bs (name # names) cleaned fs = cleanup_loop d now ms bs names (cleaned + fst st) ?fs"
      using True st by (simp add: Let_def)
    moreover have "cleaned_path d now ms bs (name # names) fs p \<longleftrightarrow> p = ?p \<or> cleaned_path d now ms bs names ?fs p"
      using True st by (auto simp: cleaned_path_def delete_conv' split: option.splits)
    ultimately show ?thesis using Cons.IH [of "cleaned + fst st" ?fs] by (simp add: delete_conv')
  next
    case False
    then have "cleanup_loop d now ms bs (name # names) cleaned fs = cleanup_loop d now ms bs names cleaned fs"
      by (auto simp: Let_def split: option.splits)
    moreover have "cleaned_path d now ms bs (name # names) fs p \<longleftrightarrow> cleaned_path d now ms bs names fs p"
      using False by (auto simp: cleaned_path_def split: option.splits)
    ultimately show ?thesis using Cons.IH [of cleaned fs] by simp
  qed
qed (simp add: cleaned_path_def)

text \<open>The cleanup removes exactly the files of the directory that start with \<open>segment_\<close> and are older than the retention time or larger, each for
  itself, than the retention size, and that can be removed: a directory of any total size whose segments are small and young is left alone.\<close>

theorem c_cleanup_removes:
  "map_of (cf_stat (snd (commit_log_cleanup d (Some names) now ms bs fs))) p
     = (if cleaned_path d now ms bs names fs p then None else map_of (cf_stat fs) p)"
  using cleanup_loop_removes [of d now ms bs names 0 fs p] by (simp add: commit_log_cleanup_def split_beta)

end
