(* ===== verification/Audit_Api.thy ===== *)
theory Audit_Api
  imports Audit_Log
begin

text \<open>
  \<^verbatim>\<open>services/audit-api/main.py\<close>: the service that reads the audit files of the brokers, filters their records, pages through them and counts them. A
  line of a file is a record, a line that is not JSON, or empty; the files are those that \<^verbatim>\<open>audit/logger.go\<close> writes. The web framework is not modelled.

  Shown: the pages of a search, put together, are the records that match, the latest first, each as often as the files have it; the distributions of the
  statistics count every record once.
\<close>

section \<open>Loading\<close>

datatype audit_line = EmptyLine | NotJson | Record AuditRecord

text \<open>A directory: its files with their lines, \<open>None\<close> for a file that cannot be opened; \<open>None\<close> for a directory that does not exist.\<close>

type_synonym log_dir = "(string \<times> audit_line list option) list option"

definition line_records :: "audit_line \<Rightarrow> AuditRecord list" where
  "line_records l = (case l of Record r \<Rightarrow> [r] | _ \<Rightarrow> [])"

definition ends_with :: "string \<Rightarrow> string \<Rightarrow> bool" where
  "ends_with ext s \<longleftrightarrow> length ext \<le> length s \<and> drop (length s - length ext) s = ext"

definition file_records :: "string \<times> audit_line list option \<Rightarrow> AuditRecord list" where
  "file_records f =
     (case f of (filename, contents) \<Rightarrow>
        if \<not> ends_with ''.log'' filename then []
        else case contents of None \<Rightarrow> [] | Some ls \<Rightarrow> concat (map line_records ls))"

definition dir_records :: "log_dir \<Rightarrow> AuditRecord list" where
  "dir_records d = (case d of None \<Rightarrow> [] | Some files \<Rightarrow> concat (map file_records files))"

text \<open>The sort is stable and descending.\<close>

definition load_all_records :: "log_dir list \<Rightarrow> AuditRecord list" where
  "load_all_records log_dirs = sort_key (\<lambda>r. - ar_Timestamp r) (concat (map dir_records log_dirs))"

section \<open>Searching\<close>

text \<open>An argument that is absent, empty or zero does not filter.\<close>

definition by_text :: "string option \<Rightarrow> (AuditRecord \<Rightarrow> string) \<Rightarrow> AuditRecord list \<Rightarrow> AuditRecord list" where
  "by_text arg field records = (case arg of Some (c # s) \<Rightarrow> filter (\<lambda>r. field r = c # s) records | _ \<Rightarrow> records)"

definition by_time :: "int option \<Rightarrow> (int \<Rightarrow> int \<Rightarrow> bool) \<Rightarrow> AuditRecord list \<Rightarrow> AuditRecord list" where
  "by_time arg rel records =
     (case arg of Some t \<Rightarrow> if t = 0 then records else filter (\<lambda>r. rel (ar_Timestamp r) t) records | None \<Rightarrow> records)"

text \<open>\<open>xs[a:b]\<close> of Python.\<close>

definition slice_index :: "nat \<Rightarrow> int \<Rightarrow> nat" where
  "slice_index n i = (if i < 0 then nat (int n + i) else min n (nat i))"

definition py_slice :: "'a list \<Rightarrow> int \<Rightarrow> int \<Rightarrow> 'a list" where
  "py_slice xs a b = drop (slice_index (length xs) a) (take (slice_index (length xs) b) xs)"

record search_args =
  sa_topic :: "string option"
  sa_op :: "string option"
  sa_client_ip :: "string option"
  sa_start_time :: "int option"
  sa_end_time :: "int option"

definition search_filter :: "search_args \<Rightarrow> AuditRecord list \<Rightarrow> AuditRecord list" where
  "search_filter a records =
     by_time (sa_end_time a) (\<le>) (by_time (sa_start_time a) (\<ge>)
       (by_text (sa_client_ip a) ClientIP (by_text (sa_op a) Operation (by_text (sa_topic a) ar_Topic records))))"

definition search_audit :: "log_dir list \<Rightarrow> search_args \<Rightarrow> int \<Rightarrow> int \<Rightarrow> AuditRecord list \<times> nat" where
  "search_audit log_dirs a limit offset =
     (let records = search_filter a (load_all_records log_dirs)
      in (py_slice records offset (offset + limit), length records))"

section \<open>Export and statistics\<close>

text \<open>\<open>isoformat\<close> is the text of a time stamp in the local time zone.\<close>

definition csv_line :: "(int \<Rightarrow> string) \<Rightarrow> AuditRecord \<Rightarrow> string" where
  "csv_line isoformat r = isoformat (ar_Timestamp r) @ '','' @ ClientIP r @ '','' @ Operation r @ '','' @ ar_Topic r @ '','' @ itoa (ar_Partition r) @ '',''
     @ itoa (ar_Offset r) @ '','' @ ar_GroupID r @ '','' @ itoa (MsgSize r) @ [CHR 10]"

definition export_audit :: "(int \<Rightarrow> string) \<Rightarrow> log_dir list \<Rightarrow> string option \<Rightarrow> string option \<Rightarrow> string" where
  "export_audit isoformat log_dirs client_ip topic =
     ''timestamp,client_ip,operation,topic,partition,offset,group_id,msg_size'' @ [CHR 10]
     @ concat (map (csv_line isoformat) (by_text topic ar_Topic (by_text client_ip ClientIP (load_all_records log_dirs))))"

definition count_by :: "(AuditRecord \<Rightarrow> string) \<Rightarrow> AuditRecord list \<Rightarrow> (string, nat) gomap" where
  "count_by field records =
     foldl (\<lambda>counts r. put (field r) ((case map_of counts (field r) of None \<Rightarrow> 0 | Some n \<Rightarrow> n) + 1) counts) [] records"

record audit_stats =
  total_records :: nat
  produce_count :: nat
  consume_count :: nat
  total_size_bytes :: int
  ip_distribution :: "(string, nat) gomap"
  topic_distribution :: "(string, nat) gomap"

definition get_audit_stats :: "log_dir list \<Rightarrow> string option \<Rightarrow> audit_stats" where
  "get_audit_stats log_dirs topic =
     (let records = by_text topic ar_Topic (load_all_records log_dirs)
      in \<lparr>total_records = length records,
          produce_count = length (filter (\<lambda>r. Operation r = ''PRODUCE'') records),
          consume_count = length (filter (\<lambda>r. Operation r = ''CONSUME'') records),
          total_size_bytes = sum_list (map MsgSize records),
          ip_distribution = count_by ClientIP records,
          topic_distribution = count_by ar_Topic records\<rparr>)"

section \<open>Pages\<close>

text \<open>Whether a record matches the arguments.\<close>

definition text_matches :: "string option \<Rightarrow> string \<Rightarrow> bool" where
  "text_matches arg s \<longleftrightarrow> arg = None \<or> arg = Some [] \<or> arg = Some s"

definition matches :: "search_args \<Rightarrow> AuditRecord \<Rightarrow> bool" where
  "matches a r \<longleftrightarrow> text_matches (sa_topic a) (ar_Topic r) \<and> text_matches (sa_op a) (Operation r) \<and> text_matches (sa_client_ip a) (ClientIP r)
     \<and> (case sa_start_time a of Some t \<Rightarrow> t = 0 \<or> t \<le> ar_Timestamp r | None \<Rightarrow> True)
     \<and> (case sa_end_time a of Some t \<Rightarrow> t = 0 \<or> ar_Timestamp r \<le> t | None \<Rightarrow> True)"

lemma by_text_filter: "by_text arg field = filter (\<lambda>r. text_matches arg (field r))"
  by (rule ext) (auto simp: by_text_def text_matches_def intro!: filter_cong split: option.split list.split)

lemma by_time_filter: "by_time arg rel = filter (\<lambda>r. case arg of Some t \<Rightarrow> t = 0 \<or> rel (ar_Timestamp r) t | None \<Rightarrow> True)"
  by (rule ext) (auto simp: by_time_def split: option.split)

lemma search_filter_matches: "search_filter a records = filter (matches a) records"
  by (auto simp: search_filter_def by_text_filter by_time_filter matches_def intro!: filter_cong)

definition all_lines :: "log_dir list \<Rightarrow> AuditRecord list" where
  "all_lines log_dirs = concat (map dir_records log_dirs)"

lemma slice_index_nat: "slice_index n (int i) = min n i"
  by (simp add: slice_index_def)

lemma slice_page: "py_slice xs (int i) (int i + int l) = take l (drop i xs)"
  unfolding of_nat_add [symmetric] py_slice_def slice_index_nat by (simp add: drop_take min_def)

lemma concat_pages: "concat (map (\<lambda>k. take l (drop (k * l) xs)) [0..<n]) = take (n * l) xs"
proof (induction n)
  case (Suc n)
  have "take (Suc n * l) xs = take (n * l) xs @ take l (drop (n * l) xs)" by (metis take_add mult_Suc add.commute)
  with Suc show ?case by simp
qed simp

text \<open>The first \<open>n\<close> pages of a search are its first \<open>n * limit\<close> results; these are exactly the records of the files that match, the latest first, and the
  total that every page gives is their number.\<close>

theorem audit_search_pages:
  "\<exists>results. mset results = mset (filter (matches a) (all_lines log_dirs)) \<and> sorted_wrt (\<lambda>r s. ar_Timestamp s \<le> ar_Timestamp r) results
     \<and> concat (map (\<lambda>k. fst (search_audit log_dirs a (int limit) (int (k * limit)))) [0..<n]) = take (n * limit) results
     \<and> (\<forall>l off. snd (search_audit log_dirs a l off) = length results)"
proof -
  let ?r = "search_filter a (load_all_records log_dirs)"
  have "mset ?r = mset (filter (matches a) (all_lines log_dirs))"
    by (simp add: search_filter_matches load_all_records_def all_lines_def mset_filter)
  moreover have "sorted_wrt (\<lambda>r s. ar_Timestamp s \<le> ar_Timestamp r) (load_all_records log_dirs)"
    using sorted_sort_key [of "\<lambda>r. - ar_Timestamp r" "concat (map dir_records log_dirs)"] by (simp add: load_all_records_def sorted_map)
  then have "sorted_wrt (\<lambda>r s. ar_Timestamp s \<le> ar_Timestamp r) ?r" by (simp add: search_filter_matches sorted_wrt_filter)
  moreover have "concat (map (\<lambda>k. fst (search_audit log_dirs a (int limit) (int (k * limit)))) [0..<n]) = take (n * limit) ?r"
    by (simp only: search_audit_def Let_def fst_conv slice_page concat_pages)
  ultimately show ?thesis by (intro exI [of _ ?r]) (simp add: search_audit_def Let_def)
qed

section \<open>Counts\<close>

lemma count_by_counts:
  "map_of (count_by field records) x = (let n = length (filter (\<lambda>r. field r = x) records) in if n = 0 then None else Some n)"
proof (induction records rule: rev_induct)
  case (snoc r records)
  have "count_by field (records @ [r])
      = put (field r) ((case map_of (count_by field records) (field r) of None \<Rightarrow> 0 | Some n \<Rightarrow> n) + 1) (count_by field records)"
    by (simp add: count_by_def)
  moreover have "map_of (count_by field records) (field r)
      = (if filter (\<lambda>s. field s = field r) records = [] then None else Some (length (filter (\<lambda>s. field s = field r) records)))" if "x = field r"
    using snoc that by (simp add: Let_def)
  ultimately show ?case using snoc by (cases "x = field r") (simp_all add: update_conv' Let_def)
qed (simp add: count_by_def)

text \<open>The statistics count every record of the topic: the distributions have, for each address and each topic that occurs, the number of its
  records, and when all records are of one of the two operations the two counts add up to the total.\<close>

theorem audit_stats_count:
  assumes "records = filter (\<lambda>r. text_matches topic (ar_Topic r)) (load_all_records log_dirs)" and "s = get_audit_stats log_dirs topic"
  shows "map_of (ip_distribution s) x = (let n = length (filter (\<lambda>r. ClientIP r = x) records) in if n = 0 then None else Some n)
    \<and> map_of (topic_distribution s) x = (let n = length (filter (\<lambda>r. ar_Topic r = x) records) in if n = 0 then None else Some n)
    \<and> (list_all (\<lambda>r. Operation r \<in> {''PRODUCE'', ''CONSUME''}) records \<longrightarrow> produce_count s + consume_count s = total_records s)"
proof -
  have o: "list_all (\<lambda>r. Operation r \<in> {''PRODUCE'', ''CONSUME''}) rs \<Longrightarrow>
      length (filter (\<lambda>r. Operation r = ''PRODUCE'') rs) + length (filter (\<lambda>r. Operation r = ''CONSUME'') rs) = length rs" for rs
    by (induction rs) auto
  have s: "s = \<lparr>total_records = length records, produce_count = length (filter (\<lambda>r. Operation r = ''PRODUCE'') records),
      consume_count = length (filter (\<lambda>r. Operation r = ''CONSUME'') records), total_size_bytes = sum_list (map MsgSize records),
      ip_distribution = count_by ClientIP records, topic_distribution = count_by ar_Topic records\<rparr>"
    unfolding assms get_audit_stats_def by_text_filter Let_def ..
  show ?thesis unfolding s using o [of records] count_by_counts by simp
qed

theorem audit_stats_count_witness:
  "map_of (ip_distribution (get_audit_stats [Some [(''audit.log'', Some [Record (produce_record ''ip'' ''t'' 0 0 5), NotJson])]] None)) ''ip'' = Some 1"
  using audit_stats_count [of _ None "[Some [(''audit.log'', Some [Record (produce_record ''ip'' ''t'' 0 0 5), NotJson])]]" _ "''ip''", OF refl refl]
  by (simp add: load_all_records_def dir_records_def file_records_def ends_with_def line_records_def text_matches_def produce_record_def)

end
