(* ===== verification/Spec2Isabelle.thy ===== *)
theory Spec2Isabelle
  imports Raft_Election Raft_Commit Raft_Timers Raft_Conns Broker_Feed Nameserver Fetching Producer_Loop Processes Java_Client C_Storage Audit_Api
begin

text \<open>
  DistributedMQ, a message queue: name servers keep the registry of brokers, topics and consumer groups; brokers replicate the messages of all
  topics through one Raft log and keep the committed ones in commit logs, one per partition; clients talk to brokers over a framed TCP protocol and to
  name servers over HTTP. The development models the Go sources under \<^verbatim>\<open>src/cluster/go\<close> and \<^verbatim>\<open>src/samples\<close>, file by file, and
  the C storage engine, the Java client and the audit service beside them. The definitions keep the names
  of the source where HOL allows it; a prefix or suffix marks a name that clashes.

  \<^bold>\<open>How Go is modelled\<close> (\<open>Go_Prelude\<close>). A struct is a record, a method a function from the record to the updated record. A method that can panic or
  lock a mutex that its own goroutine holds has a result of type \<open>go\<close> (\<open>Ret\<close>, \<open>Panic\<close>, \<open>Deadlock\<close>); an error return is a value of a sum type. A Go map is an
  association list with distinct keys, and a \<open>range\<close> over one whose order can be seen takes the order as an argument of which only \<open>range_order\<close> is
  assumed, that it is a permutation. Each reading of the clock is an argument. Integers that can wrap or are written as bytes have their width
  written out (\<open>to_u\<close>, \<open>to_s\<close>, \<open>put_be\<close>, \<open>get_be\<close>); Raft's indexes and terms, which count up by one from zero, are natural numbers. Slices that alias
  (\<open>Time_Wheel\<close>) and objects reached from two maps (\<open>Transactions\<close>) live in an explicit store. The locales \<open>machine\<close>, \<open>bounded_machine\<close> and
  \<open>lifecycle_machine\<close> say what follows for whole runs from what one operation keeps, \<open>fixed_codec\<close> and \<open>stream_codec\<close> what follows for concatenations from
  one field or one frame, \<open>quorum_system\<close> what the counting code needs of majorities; each is interpreted on the definitions of the components.

  \<^bold>\<open>Raft\<close> (\<^verbatim>\<open>raft/raft.go\<close>, \<^verbatim>\<open>raft/raft.proto\<close>).
  \<^item> \<open>Raft_Node\<close> has the node's state and one definition per critical section: elections, replication, commitment, the in-sync set, membership changes,
    snapshots, persistence.
  \<^item> \<open>Raft_Log\<close> and \<open>Raft_Commit\<close>: what \<open>AppendEntries\<close> does on every branch, log matching between the request a leader builds and the follower that accepts
    it, and that the commit index only passes entries of the current term on a majority (of both configurations in a joint one), if the leader is
    a member; a leader that removes itself commits with half of the new members.
  \<^item> \<open>Raft_Cluster\<close> and \<open>Raft_Election\<close>: a group of nodes as a step relation with loss, delay, crash and restart; at most one leader per term,
    by an invariant of reachable states. A new group of two or more never elects one.
  \<^item> \<open>Raft_Hazards\<close>: exact statements of where the node departs from the protocol. \<open>Raft_Persist\<close>: what a restart finds again.
  \<^item> \<open>Raft_Timers\<close>: the timers and the goroutine \<open>run\<close>, with the receive and the body of each case as steps of their own, as a step relation; a follower that was reached by a leader while \<open>run\<close> waits stays silent for good.
  \<^item> \<open>Raft_Apply\<close>: the goroutines of \<open>applyCommittedEntries\<close> with the mutex, the channel to the broker, its reader and \<open>Stop\<close>, as a step relation over a
    whole process. No interleaving sends an entry twice, and a running node loses none; but they may be sent in another order than that of the log, and
    \<open>Stop\<close> may crash the process. What a restart does to entries that the broker had not read. The broker of a node that never led gets nothing.
  \<^item> \<open>Raft_Conns\<close>: the calls of \<open>getClient\<close> and \<open>Stop\<close> interleaved, and which connections stay open.

  \<^bold>\<open>Broker\<close> (\<^verbatim>\<open>broker/\<close>).
  \<^item> \<open>Storage\<close>: commit log over segment files and sparse index (\<^verbatim>\<open>storage/bridge_go.go\<close>); read-back, batches, reopening.
  \<^item> \<open>Time_Wheel\<close> (\<^verbatim>\<open>storage/timewheel.go\<close>), \<open>Namespaces\<close>, \<open>Idempotent\<close>, \<open>Transactions\<close>, \<open>Tracing\<close>, \<open>Audit_Log\<close>: one theory per package, with its invariant over runs.
  \<^item> \<open>Wire\<close>: the frames and answers of the TCP protocol, byte by byte.
  \<^item> \<open>Broker\<close> puts them together (\<^verbatim>\<open>broker/broker.go\<close>): the apply loop, producing, consuming, retries, delayed messages, every TCP handler, the loop over a
    connection, the start. \<open>Broker_Delivery\<close> describes a partition by the payloads applied to it (\<open>part_holds\<close>) and shows that the apply loop maintains that
    and that consumers get what lies behind their offset. \<open>Broker_Requests\<close> has the effect of each request. \<open>Http_Api\<close> has the HTTP handlers with base64.
  \<^item> \<open>Broker_Feed\<close> joins a node of \<open>Raft_Apply\<close> to the apply loop of its broker: if one goroutine at a time applies, consumers get the entries of the node's log
    as far as the broker received them; otherwise the schedule decides which message gets which offset.
  \<^item> \<open>Processes\<close> has the loops that the broker starts (tickers, the accept loop, the flush loop of a commit log) as functions of the events they select, the
    HTTP tables of broker and name server with the redirects of Go's multiplexer, and \<open>main\<close>. The flush loop refines a queue of payloads.

  \<^bold>\<open>Name server\<close> (\<^verbatim>\<open>nameserver/\<close>). \<open>Consumer_Groups\<close>, \<open>Offset_Store\<close> and \<open>Tx_Coordinator\<close> are its parts, \<open>Nameserver\<close> its handlers and the invariant over
  all sequences of requests. What the coordinator keeps over crashes holds while each rewrite of its log file is complete and ids are new; what happens
  otherwise is shown beside it. The bolt database is a parameter with its documented laws.

  \<^bold>\<open>Clients and start\<close>. \<open>Clients\<close> and \<open>Producer_Loop\<close> have the sample producer, consumer and dead-letter consumer; \<open>Consumer_Process\<close> has the goroutines and
  \<open>main\<close> of the consumers and puts two consumers in front of a name server. \<open>Fetching\<close> follows the bytes of a fetch through the broker and back, and the loop
  of a consumer while the broker goes on storing messages. \<open>Config\<close> is the configuration (the configuration library is a parameter) and the switch of \<open>main\<close>.

  \<^bold>\<open>Other languages\<close>. \<open>C_Storage\<close> is the storage engine of \<^verbatim>\<open>src/storage/c\<close>, which the Go program does not link: log and index over mapped files, with the
  machine's arithmetic; what is read back, what a search finds, and that nothing can be appended after a restart. \<open>Java_Client\<close> is the client of
  \<^verbatim>\<open>src/java/mq-client\<close> against the Go broker, with Netty, HTTP and JSON as parameters: its decoder reads fetch answers back but never completes the
  answer to a produce request. \<open>Audit_Api\<close> is \<^verbatim>\<open>src/services/audit-api\<close>: search with pages, export and statistics over the audit files.

  \<^bold>\<open>This theory\<close> composes them. The bytes a sample client writes go through \<open>handleClient\<close> of a broker, and the bytes that come back are decoded by the
  client: producing, with the entry that reaches the Raft log; fetching what the apply loop stored; what the order of a Go map does to a consumer, which
  may get messages twice or never; and the route a broker gets from the name server, which is that of partition 0 for every partition.

  \<^bold>\<open>Loops and bounds\<close>. Loops over data are total functions; \<open>handleClient\<close> ends because every frame read shortens the stream. Two loops may run forever
  and are \<open>partial_function (option)\<close> or step relations: the batches of the producer, shown to end for a positive batch size, and \<open>run\<close>. Loops that wait for
  events (tickers, rounds of a consumer, requests) are recursive in the list of the events, of any length. No fuel is used. The bound \<open>k\<close> of \<open>proc_step\<close> on the
  goroutines that apply at one time is a variable; only the results on the order of entries fix it.
  Properties of delivery assume that a partition's log fits into its first segment (\<open>segmentBytes\<close>, 1 MiB), because the first entry of a later one
  is read from the wrong position, and that files can be opened and written where the statement says so.

  \<^bold>\<open>Not modelled\<close>. JSON texts and HTTP, gRPC and TCP transport: requests are decoded values or byte streams, a lost message is one that is not delivered.
  The codec \<^verbatim>\<open>raft/json_codec.go\<close>, which hands values to the JSON library. Output to the terminal; flags are arguments of the definitions. Interleavings inside a
  critical section; where a method releases its lock the parts are separate definitions. In \<open>Raft_Apply\<close> the goroutines beside the appliers are all
  operations under the mutex, except \<open>InstallSnapshot\<close>, which replaces the log (its effect is stated in \<open>Raft_Hazards\<close>); a request of a leader is
  taken not to replace committed entries. The result on followers needs neither restriction. A round of the time wheel is one step: another goroutine between two of its
  deliveries is not modelled. A line of the audit file is written whole or not at all. The pool of connections and the Spring wiring of the Java clients, the
  Python exporter, which only publishes what it polls, scripts and deployment files.
\<close>

section \<open>Producing\<close>

lemma reply_status:
  "sendMessage_reply (sendResponse RespSuccess leader off) = None"
  "\<exists>y. sendMessage_reply (sendResponse RespRedirect leader off) = Some y"
  "\<exists>y. sendMessage_reply (sendResponse RespError leader off) = Some y"
  by (auto simp: sendMessage_reply_def sendResponse_def Let_def nth_append wire_consts)

text \<open>What \<open>handleTCPProduce\<close> does to the log, by the answer it gives.\<close>

lemma handleTCPProduce_effect:
  assumes "handleTCPProduce get1 get2 committed ip topic part (a # msg) b = Ret (out, b')"
  shows "if sendMessage_reply out = None
    then state (raftNode b) = Leader \<and> (\<exists>e. log (raftNode b') = log (raftNode b) @ [e] \<and> data_entry topic part msg e) \<and> (sint a = -1 \<longrightarrow> committed)
    else raftNode b' = raftNode b \<or> sint a = -1 \<and> \<not> committed"
proof (cases "GetPartitionLeader get1 topic part b = Some (b_clientAddr b) \<and> IsPartitionLeader topic part b")
  case False
  then show ?thesis using assms
    by (auto simp: handleTCPProduce_def reply_status split: option.splits if_splits)
next
  case True
  obtain res r where s: "SubmitCommand topic part msg (raftNode b) = Ret (res, r)"
    using assms True by (cases "SubmitCommand topic part msg (raftNode b)") (auto simp: handleTCPProduce_def Let_def)
  from s show ?thesis
  proof (cases rule: SubmitCommand_cases)
    case refused
    then show ?thesis using assms True s by (auto simp: handleTCPProduce_def Let_def reply_status)
  next
    case (accepted e)
    then show ?thesis using assms True s
      by (auto simp: handleTCPProduce_def Let_def reply_status split: if_splits)
  qed
qed

definition demo_env :: client_env where
  "demo_env = \<lparr>ce_route1 = demo_route, ce_route2 = demo_route, ce_committed = False, ce_ip = [], ce_ord = rev, ce_now = 0, ce_get = (\<lambda>url. None),
     ce_member = (\<lambda>data. None), ce_offset = (\<lambda>data. None)\<rparr>"

text \<open>C8. A message the sample producer sends and is told was accepted is, with exactly its bytes, its topic and its partition, the entry that was appended to the
  leader's log, and for \<open>acks = -1\<close> it was signalled as committed. If it is told anything else, the log is as before, unless it waited for all replicas in vain.\<close>

theorem produce_end_to_end:
  assumes "length topic < 2 ^ 16" and "- (2 ^ 31) \<le> part" and "part < 2 ^ 31" and "length msg + 1 < 2 ^ 32" and "- 128 \<le> acks" and "acks < 128"
    and "handleClient env 0 (concat (sendMessage_writes topic part msg acks)) b = Ret (out, b')"
  shows "if sendMessage_reply out = None
    then state (raftNode b) = Leader \<and> (\<exists>e. log (raftNode b') = log (raftNode b) @ [e] \<and> data_entry topic part msg e)
      \<and> (acks = -1 \<longrightarrow> ce_committed (env 0))
    else raftNode b' = raftNode b \<or> acks = -1 \<and> \<not> ce_committed (env 0)"
proof -
  let ?f = "\<lparr>fr_cmd = CmdProduce, fr_topic = topic, fr_partition = part, fr_data = of_int acks # msg\<rparr>"
  have "frame_ok ?f" using assms(1-4) by (simp add: frame_ok_def)
  then have "dispatch (env 0) ?f b = Ret (out, b')" using assms(7) by (simp add: sendMessage_frame handleClient_one)
  then have p: "handleTCPProduce (ce_route1 (env 0)) (ce_route2 (env 0)) (ce_committed (env 0)) (ce_ip (env 0)) topic part (of_int acks # msg) b = Ret (out, b')"
    by (simp add: dispatch_def Let_def)
  have "sint (of_int acks :: byte) = acks" using assms(5,6) by (simp add: signed_of_int signed_take_bit_int_eq_self)
  with handleTCPProduce_effect [OF p] show ?thesis by (simp only: simp_thms split: if_splits)
qed

theorem produce_end_to_end_witness:
  "\<exists>out b' e. handleClient (\<lambda>i. demo_env) 0 (concat (sendMessage_writes ''t'' 0 [7] 1)) demo_leader_b = Ret (out, b') \<and> sendMessage_reply out = None
     \<and> log (raftNode b') = log demo_raft @ [e] \<and> data_entry ''t'' 0 [7] e"
proof -
  let ?f = "\<lparr>fr_cmd = CmdProduce, fr_topic = ''t'', fr_partition = 0, fr_data = [1, 7]\<rparr>"
  have "handleClient (\<lambda>i. demo_env) 0 (concat (sendMessage_writes ''t'' 0 [7] 1)) demo_leader_b = dispatch demo_env ?f demo_leader_b"
    by (simp add: sendMessage_frame handleClient_one frame_ok_def)
  also have "\<exists>off b'. dispatch demo_env ?f demo_leader_b = Ret (sendResponse RespSuccess [] off, b')"
    using demo_setup(2,3) by (auto simp: dispatch_def Let_def demo_env_def handleTCPProduce_def GetPartitionLeader_def IsPartitionLeader_def GetState_def
        demo_leader_b_def SubmitCommand_def split_beta)
  finally obtain off b' where h: "handleClient (\<lambda>i. demo_env) 0 (concat (sendMessage_writes ''t'' 0 [7] 1)) demo_leader_b = Ret (sendResponse RespSuccess [] off, b')"
    by blast
  from produce_end_to_end [OF _ _ _ _ _ _ h] h show ?thesis by (auto simp: reply_status demo_leader_b_def)
qed


section \<open>Fetching\<close>

text \<open>C7. From the Raft log to the consumer's memory, for a new broker on empty files that can be written: the apply loop has taken a sequence of committed entries and timer
  pulses and flushed its batch, and the payloads of the partition, at least one, fit with their headers into the first segment of its log (1 MiB). Then the bytes of a fetch request that leaves room for
  everything behind its offset are answered by bytes from which the consumer decodes, without error, each payload committed for the partition behind its offset once, with its offset and in some order.\<close>

theorem fetch_end_to_end:
  assumes "b_topics b = []" and "\<forall>k. opened k = Some ([], [])" and "\<forall>i j. env_ok (env i j)" and "list_all small (entries_of evs)"
    and "ApplyStop \<notin> set evs" and "ev = ApplyTimer \<or> ev = ApplyStop" and "ds = payloads (tp_key topic part) (entries_of evs)" and "ds \<noteq> []"
    and "log_end ds \<le> segmentBytes" and "range_order (ce_ord (cenv 0))"
    and "length topic < 2 ^ 16" and "- (2 ^ 31) \<le> part" and "part < 2 ^ 31" and "int64_range off"
    and "sum_list (map (int \<circ> length \<circ> snd) (behind off ds)) \<le> maxBytes" and "0 \<le> maxBytes" and "maxBytes < 2 ^ 31"
  shows "\<exists>b1 b2 out. handleApply opened env 0 (evs @ [ev]) ([], b) = Ret ([], b1)
    \<and> handleClient cenv 0 (concat (fetch_writes topic part off maxBytes)) b1 = Ret (out, b2)
    \<and> fe_err (consumer_fetch out) = None
    \<and> mset (map (\<lambda>m. (fm_Offset m, fm_Value m)) (fe_messages (consumer_fetch out))) = mset (behind off ds)"
proof -
  have e: "\<forall>k. part_holds b k []" using assms(1) by (simp add: part_holds_empty)
  obtain ts where ts: "handleApply opened env 0 (evs @ [ev]) ([], b) = Ret ([], b\<lparr>b_topics := ts\<rparr>)"
      and h: "\<forall>k. part_holds (b\<lparr>b_topics := ts\<rparr>) k (payloads k (entries_of evs))"
    using handleApply_holds [where D = "\<lambda>k. []", OF e assms(2,3) _ assms(5,6), of "[]" 0] assms(4) by auto
  have p: "part_holds (b\<lparr>b_topics := ts\<rparr>) (tp_key topic part) ds" using h assms(7) by simp
  obtain msgs hw b2 out where f: "handleClient cenv 0 (concat (fetch_writes topic part off maxBytes)) (b\<lparr>b_topics := ts\<rparr>) = Ret (out, b2)"
      "consumer_fetch out = \<lparr>fe_messages = map fetched msgs, fe_highWatermark = hw, fe_err = None, fe_rest = [], fe_reset = False\<rparr>"
      "mset (map msg_pair msgs) = mset (behind off ds)"
    using fetch_answered [where env = cenv, OF p assms(8-14) assms(16,17)] assms(15) by blast
  have "(\<lambda>m. (fm_Offset m, fm_Value m)) \<circ> fetched = msg_pair" by (auto simp: fetched_def msg_pair_def)
  with ts f show ?thesis by (auto simp flip: mset_map)
qed

theorem fetch_end_to_end_witness:
  "\<exists>b1 b2 out. handleApply (\<lambda>k. Some ([], [])) demo_clock 0 (demo_events @ [ApplyStop]) ([], demo_b) = Ret ([], b1)
    \<and> handleClient (\<lambda>i. demo_env) 0 (concat (fetch_writes ''t'' 0 0 1024)) b1 = Ret (out, b2)
    \<and> mset (map (\<lambda>m. (fm_Offset m, fm_Value m)) (fe_messages (consumer_fetch out))) = {#(21, [2])#}"
  using fetch_end_to_end [of demo_b "\<lambda>k. Some ([], [])" demo_clock demo_events ApplyStop "[[1], [2]]" "''t''" 0 "\<lambda>i. demo_env" 0 1024] demo_entries
  by (auto simp: demo_b_def broker_struct_def behind_def segmentBytes_def demo_env_def int64_range_def)


section \<open>The order of a fetch\<close>

lemma demo_reader: "offset_of 0 (NewConsumer [] [] [] []) = 0" "ce_ord demo_env = rev" "[[1], [2], [3]] \<noteq> ([] :: byte list list)"
    "log_end [[1], [2], [3]] \<le> segmentBytes" "behind 0 [[1], [2], [3]] = [(21, [2]), (42, [3])]" "int64_range 0" "length ''t'' < 2 ^ 16" "- (2 ^ 31) \<le> (0 :: int)"
    "(0 :: int) < 2 ^ 31"
  by (simp_all add: offset_of_def NewConsumer_def demo_env_def segmentBytes_def behind_def int64_range_def)

text \<open>C23. The order of a Go map makes the sample consumer get messages again. The partition's log fits into its first segment (1 MiB) and has messages behind the
  consumer's offset. If Go walks the index from the newest entry to the oldest, as it may, the consumer gets all of them, newest first, and takes the offset behind the oldest; its next
  fetch gives it every one of the others a second time.\<close>

theorem fetch_order_redelivers:
  assumes "part_holds b (tp_key topic part) ds" and "ds \<noteq> []" and "log_end ds \<le> segmentBytes" and "ce_ord (env 0) = rev"
    and "length topic < 2 ^ 16" and "- (2 ^ 31) \<le> part" and "part < 2 ^ 31" and "int64_range (offset_of part c)"
    and "behind (offset_of part c) ds = p # ps"
  shows "\<exists>out1 b1 out2 b2 c1.
      handleClient env 0 (concat (fetch_writes topic part (offset_of part c) (1024 * 1024))) b = Ret (out1, b1)
    \<and> c1 = snd (consume_round part (consumer_fetch out1) c) \<and> offset_of part c1 = fst p + 1
    \<and> handleClient env 0 (concat (fetch_writes topic part (offset_of part c1) (1024 * 1024))) b1 = Ret (out2, b2)
    \<and> got (fe_messages (consumer_fetch out1)) = rev (p # ps) \<and> got (fe_messages (consumer_fetch out2)) = rev ps"
proof -
  let ?M = "1024 * 1024 :: int"
  have M: "0 \<le> ?M" "?M < 2 ^ 31" by simp_all
  have fit: "fitting ?M 0 False (rev (behind off ds)) = rev (behind off ds)" for off
    using sum_behind [of off ds] assms(3) by (intro fitting_all) (simp add: segmentBytes_def sum_list_rev flip: rev_map)
  obtain out1 hw msgs b1 where r1: "handleClient env 0 (concat (fetch_writes topic part (offset_of part c) ?M)) b = Ret (out1, b1)"
      "part_holds b1 (tp_key topic part) ds" "consumer_fetch out1 = \<lparr>fe_messages = msgs, fe_highWatermark = hw, fe_err = None, fe_rest = [], fe_reset = False\<rparr>"
      "got msgs = fitting ?M 0 False (rev (behind (offset_of part c) ds))"
    by (rule fetch_rev [where env = env, OF assms(1-8) M])
  have g1: "got msgs = rev ps @ [p]" using r1(4) fit [of "offset_of part c"] unfolding assms(9) by simp
  have o: "offset_of part (snd (consume_round part (consumer_fetch out1) c)) = fst p + 1"
    by (rule consume_round_got [OF r1(3) g1])
  have "p \<in> set (behind (offset_of part c) ds)" using assms(9) by simp
  from behind_bounds [OF this] have off: "int64_range (fst p + 1)" using assms(3) by (simp add: int64_range_def segmentBytes_def)
  obtain out2 hw2 msgs2 b2 where r2: "handleClient env 0 (concat (fetch_writes topic part (fst p + 1) ?M)) b1 = Ret (out2, b2)"
      "part_holds b2 (tp_key topic part) ds" "consumer_fetch out2 = \<lparr>fe_messages = msgs2, fe_highWatermark = hw2, fe_err = None, fe_rest = [], fe_reset = False\<rparr>"
      "got msgs2 = fitting ?M 0 False (rev (behind (fst p + 1) ds))"
    by (rule fetch_rev [where env = env, OF r1(2) assms(2-7) off M])
  have g2: "got msgs2 = rev ps" using r2(4) fit [of "fst p + 1"] unfolding behind_tl [OF assms(9)] by simp
  have "got (fe_messages (consumer_fetch out1)) = rev (p # ps)" unfolding r1(3) using g1 by simp
  moreover have "got (fe_messages (consumer_fetch out2)) = rev ps" unfolding r2(3) using g2 by simp
  ultimately show ?thesis using r1(1) r2(1) o
    by (intro exI [of _ out1] exI [of _ b1] exI [of _ out2] exI [of _ b2] exI [of _ "snd (consume_round part (consumer_fetch out1) c)"] conjI) simp_all
qed

theorem fetch_order_redelivers_witness:
  "\<exists>b out1 b1 out2 b2 c1. part_holds b (tp_key ''t'' 0) [[1], [2], [3]]
    \<and> handleClient (\<lambda>i. demo_env) 0 (concat (fetch_writes ''t'' 0 0 (1024 * 1024))) b = Ret (out1, b1)
    \<and> c1 = snd (consume_round 0 (consumer_fetch out1) (NewConsumer [] [] [] [])) \<and> offset_of 0 c1 = 22
    \<and> handleClient (\<lambda>i. demo_env) 0 (concat (fetch_writes ''t'' 0 22 (1024 * 1024))) b1 = Ret (out2, b2)
    \<and> got (fe_messages (consumer_fetch out1)) = [(42, [3]), (21, [2])] \<and> got (fe_messages (consumer_fetch out2)) = [(42, [3])]"
proof -
  obtain b where b: "part_holds b (tp_key ''t'' 0) [[1], [2], [3]]" using demo_three by blast
  note w = fetch_order_redelivers [where env = "\<lambda>i. demo_env" and c = "NewConsumer [] [] [] []" and part = 0, unfolded demo_reader(1),
      OF b demo_reader(3,4,2,7-9,6,5), unfolded fst_conv rev.simps append.simps]
  from w obtain out1 b1 out2 b2 c1 where r:
      "handleClient (\<lambda>i. demo_env) 0 (concat (fetch_writes ''t'' 0 0 (1024 * 1024))) b = Ret (out1, b1)"
      "c1 = snd (consume_round 0 (consumer_fetch out1) (NewConsumer [] [] [] []))" "offset_of 0 c1 = 21 + 1"
      "handleClient (\<lambda>i. demo_env) 0 (concat (fetch_writes ''t'' 0 (offset_of 0 c1) (1024 * 1024))) b1 = Ret (out2, b2)"
      "got (fe_messages (consumer_fetch out1)) = [(42, [3]), (21, [2])]" "got (fe_messages (consumer_fetch out2)) = [(42, [3])]"
    by (elim exE conjE) (rule that)
  have o: "offset_of 0 c1 = 22" using r(3) by linarith
  note r4 = r(4) [unfolded o]
  show ?thesis
    by (intro exI [of _ b] exI [of _ out1] exI [of _ b1] exI [of _ out2] exI [of _ b2] exI [of _ c1] conjI)
      (fact b r(1) r(2) o r4 r(5) r(6))+
qed

text \<open>When moreover the limit of the request has no room for the last two messages, a fetch that walks the index backwards gives the consumer only the newest one, and
  from the offset it then takes no fetch on this log, whatever its order and its limit, gives it any of the others. (The limit of the sample consumer is 1 MiB, which
  the payloads of one segment do not exceed.)\<close>

theorem fetch_order_skips:
  assumes "part_holds b (tp_key topic part) ds" and "ds \<noteq> []" and "log_end ds \<le> segmentBytes" and "ce_ord (env 0) = rev"
    and "length topic < 2 ^ 16" and "- (2 ^ 31) \<le> part" and "part < 2 ^ 31" and "int64_range (offset_of part c)"
    and "0 \<le> maxBytes" and "maxBytes < 2 ^ 31" and "behind (offset_of part c) ds = ps @ [x, y]" and "maxBytes < int (length (snd x)) + int (length (snd y))"
  shows "\<exists>out b1 c1. handleClient env 0 (concat (fetch_writes topic part (offset_of part c) maxBytes)) b = Ret (out, b1)
    \<and> got (fe_messages (consumer_fetch out)) = [y] \<and> c1 = snd (consume_round part (consumer_fetch out) c) \<and> offset_of part c1 = fst y + 1
    \<and> (\<forall>env' m. range_order (ce_ord (env' 0)) \<and> 0 \<le> m \<and> m < 2 ^ 31 \<longrightarrow>
        (\<exists>out2 b2. handleClient env' 0 (concat (fetch_writes topic part (offset_of part c1) m)) b1 = Ret (out2, b2)
          \<and> fe_err (consumer_fetch out2) = None \<and> fe_messages (consumer_fetch out2) = []))"
proof -
  obtain out hw msgs b1 where r: "handleClient env 0 (concat (fetch_writes topic part (offset_of part c) maxBytes)) b = Ret (out, b1)"
      "part_holds b1 (tp_key topic part) ds" "consumer_fetch out = \<lparr>fe_messages = msgs, fe_highWatermark = hw, fe_err = None, fe_rest = [], fe_reset = False\<rparr>"
      "got msgs = fitting maxBytes 0 False (rev (behind (offset_of part c) ds))"
    by (rule fetch_rev [where env = env, OF assms(1-10)])
  have g: "got msgs = [] @ [y]" using r(4) assms(12) unfolding assms(11) by simp
  have o: "offset_of part (snd (consume_round part (consumer_fetch out) c)) = fst y + 1" by (rule consume_round_got [OF r(3) g])
  have "y \<in> set (behind (offset_of part c) ds)" using assms(11) by simp
  from behind_bounds [OF this] have off: "int64_range (fst y + 1)" using assms(3) by (simp add: int64_range_def segmentBytes_def)
  have none: "behind (fst y + 1) ds = []" using assms(11) by (intro behind_last [of "offset_of part c" ds "ps @ [x]"]) simp
  have "\<exists>out2 b2. handleClient env' 0 (concat (fetch_writes topic part (fst y + 1) m)) b1 = Ret (out2, b2)
      \<and> fe_err (consumer_fetch out2) = None \<and> fe_messages (consumer_fetch out2) = []"
    if "range_order (ce_ord (env' 0))" "0 \<le> m" "m < 2 ^ 31" for env' m
    using fetch_answered [where env = env', OF r(2) assms(2,3) that(1) assms(5-7) off that(2,3)] that(2) unfolding none by auto
  moreover have "got (fe_messages (consumer_fetch out)) = [y]" using g unfolding r(3) by simp
  ultimately show ?thesis using r(1) o by (intro exI [of _ out] exI [of _ b1] exI [of _ "snd (consume_round part (consumer_fetch out) c)"]) auto
qed

theorem fetch_order_skips_witness:
  "\<exists>b out b1. part_holds b (tp_key ''t'' 0) [[1], [2], [3]] \<and> handleClient (\<lambda>i. demo_env) 0 (concat (fetch_writes ''t'' 0 0 1)) b = Ret (out, b1)
    \<and> got (fe_messages (consumer_fetch out)) = [(42, [3])]"
proof -
  obtain b where b: "part_holds b (tp_key ''t'' 0) [[1], [2], [3]]" using demo_three by blast
  have l: "0 \<le> (1 :: int)" "(1 :: int) < 2 ^ 31" "1 < int (length [2 :: byte]) + int (length [3 :: byte])" by simp_all
  note w = fetch_order_skips [where env = "\<lambda>i. demo_env" and c = "NewConsumer [] [] [] []" and part = 0 and maxBytes = 1 and ps = "[]" and x = "(21, [2])" and y = "(42, [3])",
      unfolded demo_reader(1) append.simps snd_conv, OF b demo_reader(3,4,2,7-9,6) l(1,2) demo_reader(5) l(3)]
  from w obtain out b1 where r: "handleClient (\<lambda>i. demo_env) 0 (concat (fetch_writes ''t'' 0 0 1)) b = Ret (out, b1)"
      "got (fe_messages (consumer_fetch out)) = [(42, [3])]" by (elim exE conjE) (rule that)
  show ?thesis by (intro exI [of _ b] exI [of _ out] exI [of _ b1] conjI) (fact b r(1) r(2))+
qed


section \<open>Routes\<close>

text \<open>What the broker decodes from an answer of the name server's \<open>handleRoute\<close>; a body of another kind has none of the fields.\<close>

definition route_answer :: "response \<Rightarrow> RouteInfo http_answer" where
  "route_answer res =
     (case res of
        (code, RouteBody topic p info) \<Rightarrow>
          Some (code, Some \<lparr>ri_Topic = topic, ri_Partition = p, ri_Leader = pi_Leader info, ri_Replicas = Replicas info, ri_ISR = ISR info\<rparr>)
      | (code, body) \<Rightarrow> Some (code, Some zero_route))"

text \<open>The broker asks the name server for the route of the topic without naming the partition, and the name server answers with partition 0. So when
  the broker that the name server has for partition 0 of a topic is not the Raft leader, every broker of the cluster refuses every message for every
  partition of the topic and sends the producer to that broker, which sends it to itself.\<close>

theorem redirect_to_partition_zero:
  assumes "parsed r" and "form r ''topic'' = topic" and "form r ''partition'' = []" and "form r ''key'' = []" and "topic \<noteq> []"
    and "map_of (ns_topics n) topic = Some info" and "map_of (Partitions info) 0 = Some p0"
    and "ce_route1 (env 0) (route_url b topic []) = route_answer (handleRoute r n)" and "ce_route2 (env 0) (route_url b topic []) = route_answer (handleRoute r n)"
    and "b_clientAddr b = pi_Leader p0 \<longrightarrow> state (raftNode b) \<noteq> Leader"
    and "length topic < 2 ^ 16" and "- (2 ^ 31) \<le> part" and "part < 2 ^ 31" and "length msg + 1 < 2 ^ 32"
    and "pi_Leader p0 \<noteq> []" and "length (pi_Leader p0) < 256"
  shows "\<exists>out. handleClient env 0 (concat (sendMessage_writes topic part msg acks)) b = Ret (out, b)
    \<and> isRedirectError (sendMessage_reply out) = (pi_Leader p0, True)"
proof -
  let ?f = "\<lparr>fr_cmd = CmdProduce, fr_topic = topic, fr_partition = part, fr_data = of_int acks # msg\<rparr>"
  have "Partitions info \<noteq> []" using assms(7) by auto
  then have "handleRoute r n = (200, RouteBody topic 0 p0)" using assms(1-7) by (simp add: handleRoute_def Let_def route_partition_def)
  then have g: "GetPartitionLeader (ce_route1 (env 0)) topic part b = Some (pi_Leader p0)" "GetPartitionLeader (ce_route2 (env 0)) topic part b = Some (pi_Leader p0)"
    using assms(8,9) by (simp_all add: GetPartitionLeader_def getRoute_def route_answer_def)
  have "handleClient env 0 (concat (sendMessage_writes topic part msg acks)) b = dispatch (env 0) ?f b"
    using assms(11-14) by (simp add: sendMessage_frame handleClient_one frame_ok_def)
  also have "\<dots> = Ret (sendResponse RespRedirect (pi_Leader p0) 0, b)"
    using g assms(10) by (auto simp: dispatch_def Let_def handleTCPProduce_def IsPartitionLeader_def GetState_def)
  finally show ?thesis using produce_reply_decodes [of "pi_Leader p0"] assms(15,16) by auto
qed

theorem redirect_to_partition_zero_witness:
  "\<exists>out. handleClient (\<lambda>i. demo_env\<lparr>ce_route1 := \<lambda>u. route_answer (handleRoute (demo_form [(''topic'', ''t'')]) demo_ns),
        ce_route2 := \<lambda>u. route_answer (handleRoute (demo_form [(''topic'', ''t'')]) demo_ns)\<rparr>) 0
      (concat (sendMessage_writes ''t'' 1 [7] 1)) demo_leader_b = Ret (out, demo_leader_b)
    \<and> isRedirectError (sendMessage_reply out) = (''h:2'', True)"
  using redirect_to_partition_zero [where r = "demo_form [(''topic'', ''t'')]" and n = demo_ns and b = demo_leader_b and topic = "''t''" and part = 1 and msg = "[7]"
      and acks = 1 and env = "\<lambda>i. demo_env\<lparr>ce_route1 := \<lambda>u. route_answer (handleRoute (demo_form [(''topic'', ''t'')]) demo_ns),
        ce_route2 := \<lambda>u. route_answer (handleRoute (demo_form [(''topic'', ''t'')]) demo_ns)\<rparr>" and info = demo_topic
      and ?p0.0 = "\<lparr>PartitionID = 0, pi_Leader = ''h:2'', Replicas = [''h:2''], ISR = [''h:2'']\<rparr>"]
  by (simp add: demo_ns_eq demo_form_def demo_topic_def demo_leader_b_def demo_setup(2))

end
